(* ===== verification/Gateway_Prelude.thy ===== *)
theory Gateway_Prelude
  imports Complex_Main "HOL-Library.Word"
begin

text \<open>
  The shared vocabulary of the development: what the gateway's sources use of the Go
  language and its standard library. Byte slices and Go strings are lists of \<open>char\<close>
  (a \<open>char\<close> is one byte); Go's \<open>int\<close> and \<open>int64\<close> are \<open>int\<close> with the wrap-around
  written out by \<open>wrap64\<close>; instants and durations are nanoseconds. The collections of
  automation (\<open>go_arith\<close>, \<open>table_simps\<close>, \<open>store_inv\<close>) are declared here
  and filled by the components.
\<close>

named_theorems go_arith \<open>facts on machine integers, instants and durations\<close>
named_theorems table_simps \<open>what the operations of a bounded table do to its contents\<close>
named_theorems store_inv \<open>which operations keep which invariant\<close>

section \<open>Machine integers, instants and durations\<close>

type_synonym bytes = string
type_synonym int64 = int
type_synonym duration = int
type_synonym instant = int

definition max_int64 :: int where
  "max_int64 = 9223372036854775807"

definition min_int64 :: int where
  "min_int64 = - 9223372036854775808"

definition wrap64 :: "int \<Rightarrow> int64" where
  "wrap64 x = (x + 9223372036854775808) mod 18446744073709551616 - 9223372036854775808"

text \<open>\<open>time.Second\<close> and its multiples, and \<open>Time.Sub\<close>, which saturates.\<close>

definition second :: duration where
  "second = 1000000000"

definition millisecond :: duration where
  "millisecond = 1000000"

definition minute :: duration where
  "minute = 60 * second"

definition hour :: duration where
  "hour = 60 * minute"

definition time_sub :: "instant \<Rightarrow> instant \<Rightarrow> duration" where
  "time_sub t u = max min_int64 (min max_int64 (t - u))"

definition unix :: "instant \<Rightarrow> int64" where
  "unix t = t div second"

definition from_unix :: "int64 \<Rightarrow> instant" where
  "from_unix s = s * second"

lemma wrap64_range [go_arith]: "min_int64 \<le> wrap64 x" "wrap64 x \<le> max_int64"
proof -
  have "0 \<le> (x + 9223372036854775808) mod 18446744073709551616" by simp
  then show "min_int64 \<le> wrap64 x" by (simp add: wrap64_def min_int64_def)
  have "(x + 9223372036854775808) mod 18446744073709551616 < 18446744073709551616" by simp
  then show "wrap64 x \<le> max_int64" by (simp add: wrap64_def max_int64_def)
qed

lemma wrap64_id [go_arith]:
  assumes "min_int64 \<le> x" "x \<le> max_int64"
  shows "wrap64 x = x"
proof -
  have "(x + 9223372036854775808) mod 18446744073709551616 = x + 9223372036854775808"
    using assms by (intro mod_pos_pos_trivial) (auto simp: min_int64_def max_int64_def)
  then show ?thesis by (simp add: wrap64_def)
qed

lemma time_sub_le_iff [go_arith]:
  "min_int64 \<le> d \<Longrightarrow> d < max_int64 \<Longrightarrow> time_sub t u \<le> d \<longleftrightarrow> t - u \<le> d"
  by (auto simp: time_sub_def min_def max_def)

lemma time_sub_gt_iff [go_arith]:
  "min_int64 \<le> d \<Longrightarrow> d < max_int64 \<Longrightarrow> d < time_sub t u \<longleftrightarrow> d < t - u"
  by (auto simp: time_sub_def min_def max_def)

lemmas go_time_defs = second_def millisecond_def minute_def hour_def max_int64_def min_int64_def

section \<open>Errors as values\<close>

text \<open>Go's early returns: give up with \<open>e\<close> where a value is missing, or where a condition holds.\<close>

definition need :: "'e \<Rightarrow> 'a option \<Rightarrow> ('a \<Rightarrow> 'e + 'b) \<Rightarrow> 'e + 'b" where
  "need e x f = (case x of None \<Rightarrow> Inl e | Some a \<Rightarrow> f a)"

definition refuse :: "bool \<Rightarrow> 'e \<Rightarrow> 'e + 'b \<Rightarrow> 'e + 'b" where
  "refuse bad e r = (if bad then Inl e else r)"

lemma need_Inr [simp]: "need e x f = Inr y \<longleftrightarrow> (\<exists>a. x = Some a \<and> f a = Inr y)"
  by (simp add: need_def split: option.splits)

lemma refuse_Inr [simp]: "refuse bad e r = Inr y \<longleftrightarrow> \<not> bad \<and> r = Inr y"
  by (simp add: refuse_def)

lemma need_simps [simp]: "need e None f = Inl e" "need e (Some a) f = f a"
  by (simp_all add: need_def)

lemma refuse_simps [simp]: "refuse True e r = Inl e" "refuse False e r = r"
  by (simp_all add: refuse_def)

section \<open>Bytes and strings\<close>

abbreviation byte_nat :: "char \<Rightarrow> nat" where
  "byte_nat c \<equiv> of_char c"

definition is_digit :: "char \<Rightarrow> bool" where
  "is_digit c \<longleftrightarrow> 48 \<le> byte_nat c \<and> byte_nat c \<le> 57"

definition is_upper :: "char \<Rightarrow> bool" where
  "is_upper c \<longleftrightarrow> 65 \<le> byte_nat c \<and> byte_nat c \<le> 90"

definition is_lower :: "char \<Rightarrow> bool" where
  "is_lower c \<longleftrightarrow> 97 \<le> byte_nat c \<and> byte_nat c \<le> 122"

definition is_alnum :: "char \<Rightarrow> bool" where
  "is_alnum c \<longleftrightarrow> is_digit c \<or> is_upper c \<or> is_lower c"

definition ascii_lower :: "char \<Rightarrow> char" where
  "ascii_lower c = (if is_upper c then char_of (byte_nat c + 32) else c)"

text \<open>
  \<open>strings.ToLower\<close> and \<open>bytes.ToLower\<close>, as far as a search for an ASCII phrase can
  see them: ASCII capitals are lowered, and so are the two code points whose lower case
  is ASCII (U+212A, the Kelvin sign, and U+0130). Every other non-ASCII byte sequence
  stays non-ASCII and is kept as it is.
\<close>

fun go_to_lower :: "bytes \<Rightarrow> bytes" where
  "go_to_lower [] = []"
| "go_to_lower (c # cs) =
     (if c = CHR 0xE2 \<and> take 2 cs = [CHR 0x84, CHR 0xAA] then CHR ''k'' # go_to_lower (drop 2 cs)
      else if c = CHR 0xC4 \<and> take 1 cs = [CHR 0xB0] then CHR ''i'' # go_to_lower (drop 1 cs)
      else ascii_lower c # go_to_lower cs)"

definition has_prefix :: "bytes \<Rightarrow> bytes \<Rightarrow> bool" where
  "has_prefix p s \<longleftrightarrow> take (length p) s = p"

definition trim_prefix :: "bytes \<Rightarrow> bytes \<Rightarrow> bytes" where
  "trim_prefix p s = (if has_prefix p s then drop (length p) s else s)"

definition has_suffix :: "bytes \<Rightarrow> bytes \<Rightarrow> bool" where
  "has_suffix p s \<longleftrightarrow> has_prefix (rev p) (rev s)"

definition trim_suffix :: "bytes \<Rightarrow> bytes \<Rightarrow> bytes" where
  "trim_suffix p s = (if has_suffix p s then take (length s - length p) s else s)"

fun contains :: "bytes \<Rightarrow> bytes \<Rightarrow> bool" where
  "contains [] p \<longleftrightarrow> p = []"
| "contains (c # cs) p \<longleftrightarrow> has_prefix p (c # cs) \<or> contains cs p"

lemma byte_lt: "byte_nat c < 256"
  by (metis of_char_mod_256 mod_less_divisor zero_less_numeral)

lemma byte_nat_char_of: "n < 256 \<Longrightarrow> byte_nat (char_of n) = n"
  by simp

lemma char_of_eq: "n < 256 \<Longrightarrow> char_of n = c \<longleftrightarrow> n = byte_nat c"
  by (metis byte_nat_char_of char_of_char)

lemma has_prefix_iff: "has_prefix p s \<longleftrightarrow> (\<exists>t. s = p @ t)"
  unfolding has_prefix_def by (metis append_eq_conv_conj append_take_drop_id)

lemma has_suffix_iff: "has_suffix p s \<longleftrightarrow> (\<exists>t. s = t @ p)"
  unfolding has_suffix_def has_prefix_iff by (metis rev_append rev_rev_ident)

lemma contains_iff: "contains s p \<longleftrightarrow> (\<exists>a b. s = a @ p @ b)"
proof (induction s)
  case Nil
  then show ?case by auto
next
  case (Cons c cs)
  show ?case
  proof
    assume "contains (c # cs) p"
    then consider "has_prefix p (c # cs)" | a b where "cs = a @ p @ b"
      using Cons.IH by auto
    then show "\<exists>a b. c # cs = a @ p @ b"
    proof cases
      case 1
      then show ?thesis by (metis append_Nil has_prefix_iff)
    next
      case 2
      then show ?thesis by (metis append_Cons)
    qed
  next
    assume "\<exists>a b. c # cs = a @ p @ b"
    then obtain a b where "c # cs = a @ p @ b" by blast
    then show "contains (c # cs) p"
      using Cons.IH unfolding contains.simps has_prefix_iff by (cases a) auto
  qed
qed

lemma contains_append: "contains s p \<Longrightarrow> contains (s @ t) p"
  by (auto simp: contains_iff) (metis append.assoc)

text \<open>
  \<open>strings.TrimSpace\<close> and \<open>bytes.TrimSpace\<close> drop leading and trailing code points for
  which \<open>unicode.IsSpace\<close> holds; \<open>space_runes\<close> lists their UTF-8 encodings.
\<close>

definition space_runes :: "bytes list" where
  "space_runes =
     [[CHR 9], [CHR 10], [CHR 11], [CHR 12], [CHR 13], [CHR 32],
      [CHR 0xC2, CHR 0x85], [CHR 0xC2, CHR 0xA0], [CHR 0xE1, CHR 0x9A, CHR 0x80],
      [CHR 0xE2, CHR 0x80, CHR 0x80], [CHR 0xE2, CHR 0x80, CHR 0x81],
      [CHR 0xE2, CHR 0x80, CHR 0x82], [CHR 0xE2, CHR 0x80, CHR 0x83],
      [CHR 0xE2, CHR 0x80, CHR 0x84], [CHR 0xE2, CHR 0x80, CHR 0x85],
      [CHR 0xE2, CHR 0x80, CHR 0x86], [CHR 0xE2, CHR 0x80, CHR 0x87],
      [CHR 0xE2, CHR 0x80, CHR 0x88], [CHR 0xE2, CHR 0x80, CHR 0x89],
      [CHR 0xE2, CHR 0x80, CHR 0x8A], [CHR 0xE2, CHR 0x80, CHR 0xA8],
      [CHR 0xE2, CHR 0x80, CHR 0xA9], [CHR 0xE2, CHR 0x80, CHR 0xAF],
      [CHR 0xE2, CHR 0x81, CHR 0x9F], [CHR 0xE3, CHR 0x80, CHR 0x80]]"

function strip :: "bytes list \<Rightarrow> bytes \<Rightarrow> bytes" where
  "strip ps s =
     (case find (\<lambda>p. p \<noteq> [] \<and> has_prefix p s) ps of
        None \<Rightarrow> s
      | Some p \<Rightarrow> strip ps (drop (length p) s))"
  by pat_completeness auto
termination
proof (relation "measure (\<lambda>(ps, s). length s)")
  fix ps s p
  assume "find (\<lambda>p. p \<noteq> [] \<and> has_prefix p s) ps = Some p"
  then have "p \<noteq> []" and "has_prefix p s" by (auto simp: find_Some_iff)
  then have "0 < length p" and "length p \<le> length s"
    by (auto simp: has_prefix_iff)
  then have "length (drop (length p) s) < length s" unfolding length_drop by linarith
  then show "((ps, drop (length p) s), ps, s) \<in> measure (\<lambda>(ps, s). length s)" by simp
qed simp

declare strip.simps [simp del]

definition trim_space :: "bytes \<Rightarrow> bytes" where
  "trim_space s = rev (strip (map rev space_runes) (rev (strip space_runes s)))"

lemma strip_suffix: "\<exists>t. s = t @ strip ps s"
proof (induction ps s rule: strip.induct)
  case (1 ps s)
  show ?case
  proof (cases "find (\<lambda>p. p \<noteq> [] \<and> has_prefix p s) ps")
    case None
    then show ?thesis by (subst strip.simps) simp
  next
    case (Some p)
    with "1" obtain t where "drop (length p) s = t @ strip ps (drop (length p) s)" by blast
    then have "s = (take (length p) s @ t) @ strip ps (drop (length p) s)"
      by (metis append.assoc append_take_drop_id)
    moreover from Some have "strip ps s = strip ps (drop (length p) s)"
      by (subst strip.simps) simp
    ultimately show ?thesis by metis
  qed
qed

lemma trim_space_infix: "\<exists>a b. s = a @ trim_space s @ b"
proof -
  obtain a where a: "s = a @ strip space_runes s" using strip_suffix by blast
  obtain t where "rev (strip space_runes s) = t @ strip (map rev space_runes) (rev (strip space_runes s))"
    using strip_suffix by blast
  then have "strip space_runes s = trim_space s @ rev t"
    unfolding trim_space_def by (metis rev_append rev_rev_ident)
  with a show ?thesis by metis
qed

lemma trim_space_length: "length (trim_space s) \<le> length s"
proof -
  obtain a b where "s = a @ trim_space s @ b" using trim_space_infix by blast
  then have "length s = length a + length (trim_space s) + length b"
    by (metis append.assoc length_append)
  then show ?thesis by simp
qed

section \<open>Decimal integers: \<open>strconv.Atoi\<close> and \<open>strconv.Itoa\<close>\<close>

fun digits_value :: "int \<Rightarrow> bytes \<Rightarrow> int" where
  "digits_value acc [] = acc"
| "digits_value acc (c # cs) = digits_value (10 * acc + (int (byte_nat c) - 48)) cs"

definition atoi :: "bytes \<Rightarrow> int64 option" where
  "atoi s =
     (let neg = (s \<noteq> [] \<and> hd s = CHR ''-'');
          ds = (if s \<noteq> [] \<and> (hd s = CHR ''-'' \<or> hd s = CHR ''+'') then tl s else s);
          v = (if neg then - digits_value 0 ds else digits_value 0 ds)
      in if ds = [] \<or> \<not> list_all is_digit ds \<or> v < min_int64 \<or> max_int64 < v then None
         else Some v)"

fun nat_digits :: "nat \<Rightarrow> bytes" where
  "nat_digits n = (if n < 10 then [char_of (48 + n)] else nat_digits (n div 10) @ [char_of (48 + n mod 10)])"

declare nat_digits.simps [simp del]

definition itoa :: "int \<Rightarrow> bytes" where
  "itoa i = (if i < 0 then CHR ''-'' # nat_digits (nat (- i)) else nat_digits (nat i))"

lemma digits_value_append: "digits_value acc (xs @ ys) = digits_value (digits_value acc xs) ys"
  by (induction xs arbitrary: acc) auto

lemma digit_char: "d < 10 \<Longrightarrow> byte_nat (char_of (48 + d)) = 48 + d"
  by (simp add: of_char_of)

lemma nat_digits_value: "digits_value 0 (nat_digits n) = int n"
proof (induction n rule: nat_digits.induct)
  case (1 n)
  show ?case
  proof (cases "n < 10")
    case True
    then show ?thesis by (subst nat_digits.simps) (simp add: digit_char)
  next
    case False
    then have "digits_value 0 (nat_digits n) =
      10 * int (n div 10) + int (n mod 10)"
      using "1" by (subst nat_digits.simps) (simp add: digits_value_append digit_char)
    also have "\<dots> = int n"
      by (metis div_mult_mod_eq mult.commute of_nat_add of_nat_mult of_nat_numeral)
    finally show ?thesis .
  qed
qed

lemma nat_digits_all: "list_all is_digit (nat_digits n)"
proof (induction n rule: nat_digits.induct)
  case (1 n)
  then show ?case
    by (subst nat_digits.simps) (auto simp: digit_char is_digit_def [of "char_of _"])
qed

lemma nat_digits_nonempty: "nat_digits n \<noteq> []"
  by (subst nat_digits.simps) simp

lemma nat_digits_hd: "is_digit (hd (nat_digits n))"
  using nat_digits_all [of n] nat_digits_nonempty [of n] by (cases "nat_digits n") auto

lemma not_digit_sign: "\<not> is_digit (CHR ''-'')" "\<not> is_digit (CHR ''+'')"
  by (simp_all add: is_digit_def)

text \<open>Printing an in-range integer and reading it back gives it again.\<close>

lemma atoi_itoa:
  assumes "min_int64 \<le> i" "i \<le> max_int64"
  shows "atoi (itoa i) = Some i"
proof (cases "i < 0")
  case True
  then have "atoi (itoa i) = (let v = - int (nat (- i)) in if v < min_int64 \<or> max_int64 < v then None else Some v)"
    by (simp add: atoi_def itoa_def nat_digits_value nat_digits_all nat_digits_nonempty Let_def)
  with True assms show ?thesis by (simp add: Let_def)
next
  case False
  have "hd (nat_digits (nat i)) \<noteq> CHR ''-''" "hd (nat_digits (nat i)) \<noteq> CHR ''+''"
    using nat_digits_hd [of "nat i"] not_digit_sign by metis+
  with False assms show ?thesis
    by (simp add: atoi_def itoa_def nat_digits_value nat_digits_all nat_digits_nonempty Let_def)
qed

end
