(* ===== verification/Go_Float.thy ===== *)
theory Go_Float
  imports Gateway_Prelude
begin

text \<open>
  Go's \<open>float64\<close> where the gateway computes with it (the token buckets) or reads it (the
  temperature of a request): a value is the rational it denotes, and every arithmetic
  operation rounds its exact result to the nearest binary64 value, ties to even, with
  gradual underflow. Magnitudes at or above 2 to the 1024 do not arise and are not
  treated specially. The interface clients use is the locale \<open>rounding\<close>: rounding is
  monotone and exact on the integers up to 2 to the 53; \<open>f64\<close> interprets it.
\<close>

section \<open>Rounding to binary64\<close>

fun ilog2 :: "nat \<Rightarrow> nat" where
  "ilog2 n = (if n < 2 then 0 else Suc (ilog2 (n div 2)))"

declare ilog2.simps [simp del]

definition rat_exp :: "rat \<Rightarrow> int" where
  "rat_exp x =
     (case quotient_of x of
        (n, d) \<Rightarrow>
          let e = int (ilog2 (nat n)) - int (ilog2 (nat d))
          in if 2 powi e \<le> x then e else e - 1)"

definition round_even :: "rat \<Rightarrow> int" where
  "round_even q =
     (let f = \<lfloor>q\<rfloor>; r = q - of_int f
      in if r < 1 / 2 then f
         else if 1 / 2 < r then f + 1
         else if even f then f else f + 1)"

definition f64_exp :: "rat \<Rightarrow> int" where
  "f64_exp x = max (rat_exp x) (- 1022)"

definition f64_pos :: "rat \<Rightarrow> rat" where
  "f64_pos x = of_int (round_even (x / 2 powi (f64_exp x - 52))) * 2 powi (f64_exp x - 52)"

definition f64 :: "rat \<Rightarrow> rat" where
  "f64 x = (if x = 0 then 0 else if x < 0 then - f64_pos (- x) else f64_pos x)"

text \<open>\<open>Duration.Seconds\<close>: whole seconds and the fraction are converted apart and added.\<close>

definition duration_Seconds :: "duration \<Rightarrow> rat" where
  "duration_Seconds d =
     (let sec = sgn d * (\<bar>d\<bar> div second);
          nsec = d - sec * second
      in f64 (f64 (of_int sec) + f64 (f64 (of_int nsec) / 1000000000)))"

section \<open>What a rounding promises\<close>

locale rounding =
  fixes rnd :: "rat \<Rightarrow> rat"
  assumes rnd_mono: "x \<le> y \<Longrightarrow> rnd x \<le> rnd y"
    and rnd_int: "\<bar>k\<bar> \<le> 2 ^ 53 \<Longrightarrow> rnd (of_int k) = of_int k"
begin

lemma rnd_le_int: "\<bar>k\<bar> \<le> 2 ^ 53 \<Longrightarrow> x \<le> of_int k \<Longrightarrow> rnd x \<le> of_int k"
  using rnd_mono [of x "of_int k"] by (simp add: rnd_int)

lemma int_le_rnd: "\<bar>k\<bar> \<le> 2 ^ 53 \<Longrightarrow> of_int k \<le> x \<Longrightarrow> of_int k \<le> rnd x"
  using rnd_mono [of "of_int k" x] by (simp add: rnd_int)

lemma rnd_nonneg: "0 \<le> x \<Longrightarrow> 0 \<le> rnd x"
  using int_le_rnd [of 0 x] by simp

end

section \<open>\<open>f64\<close> is such a rounding\<close>

lemma ilog2_bounds: "0 < n \<Longrightarrow> 2 ^ ilog2 n \<le> n \<and> n < 2 ^ Suc (ilog2 n)"
proof (induction n rule: ilog2.induct)
  case (1 n)
  show ?case
  proof (cases "n < 2")
    case True
    with "1.prems" show ?thesis by (subst (1 2) ilog2.simps) simp
  next
    case False
    then have "2 ^ ilog2 (n div 2) \<le> n div 2 \<and> n div 2 < 2 ^ Suc (ilog2 (n div 2))"
      by (intro "1.IH") auto
    moreover have "ilog2 n = Suc (ilog2 (n div 2))" using False by (subst ilog2.simps) simp
    ultimately show ?thesis by (simp only: power_Suc) linarith
  qed
qed

lemma rat_exp_bounds:
  assumes "0 < x"
  shows "2 powi rat_exp x \<le> x" "x < 2 powi (rat_exp x + 1)"
proof -
  obtain n d where q: "quotient_of x = (n, d)" by (cases "quotient_of x") auto
  have d: "0 < d" using quotient_of_denom_pos [OF q] .
  have x: "x = of_int n / of_int d" using quotient_of_div [OF q] .
  have n: "0 < n" using assms d x by (simp add: zero_less_divide_iff)
  define a b where "a = ilog2 (nat n)" and "b = ilog2 (nat d)"
  have "2 ^ a \<le> nat n \<and> nat n < 2 ^ Suc a" "2 ^ b \<le> nat d \<and> nat d < 2 ^ Suc b"
    unfolding a_def b_def using n d by (intro ilog2_bounds; simp)+
  then have "int (2 ^ a) \<le> n \<and> n < int (2 ^ Suc a)" "int (2 ^ b) \<le> d \<and> d < int (2 ^ Suc b)"
    using n d by (metis int_nat_eq less_le of_nat_less_iff zle_int)+
  then have na: "2 ^ a \<le> n" "n < 2 ^ Suc a" and db: "2 ^ b \<le> d" "d < 2 ^ Suc b" by auto
  have nr: "(2::rat) ^ a \<le> of_int n" "of_int n < (2::rat) ^ Suc a"
    and dr: "(2::rat) ^ b \<le> of_int d" "of_int d < (2::rat) ^ Suc b"
    using na db by (metis of_int_le_iff of_int_less_iff of_int_numeral of_int_power)+
  have up: "x < 2 ^ Suc a / 2 ^ b"
    unfolding x using nr dr n d by (intro frac_less) auto
  have lo: "2 ^ a / 2 ^ Suc b < x"
    unfolding x using nr dr n d by (intro frac_less2) auto
  define e where "e = int a - int b"
  have pe: "(2::rat) powi e = 2 ^ a / 2 ^ b"
    unfolding e_def by (simp add: power_int_diff)
  have pe1: "(2::rat) powi (e + 1) = 2 ^ Suc a / 2 ^ b" "(2::rat) powi (e - 1) = 2 ^ a / 2 ^ Suc b"
    by (simp_all add: power_int_add power_int_diff pe)
  have def: "rat_exp x = (if 2 powi e \<le> x then e else e - 1)"
    unfolding rat_exp_def q e_def a_def b_def by (simp add: Let_def)
  show "2 powi rat_exp x \<le> x" using def lo pe1 by (auto split: if_splits)
  show "x < 2 powi (rat_exp x + 1)" using def up pe1 by (auto split: if_splits)
qed

lemma round_even_ge: "of_int k \<le> q \<Longrightarrow> k \<le> round_even q"
proof -
  assume "of_int k \<le> q"
  then have "k \<le> \<lfloor>q\<rfloor>" by (simp add: le_floor_iff)
  then show ?thesis by (auto simp: round_even_def Let_def)
qed

lemma round_even_le:
  assumes "q \<le> of_int k"
  shows "round_even q \<le> k"
proof (cases "\<lfloor>q\<rfloor> = k")
  case True
  then have "q = of_int k" using assms by (metis antisym of_int_floor_le)
  then show ?thesis by (simp add: round_even_def)
next
  case False
  moreover have "\<lfloor>q\<rfloor> \<le> k" using assms by (simp add: floor_le_iff)
  ultimately show ?thesis by (auto simp: round_even_def Let_def)
qed

lemma round_even_mono:
  assumes "p \<le> q"
  shows "round_even p \<le> round_even q"
proof (cases "\<lfloor>p\<rfloor> = \<lfloor>q\<rfloor>")
  case True
  with assms show ?thesis by (auto simp: round_even_def Let_def)
next
  case False
  have "\<lfloor>p\<rfloor> \<le> \<lfloor>q\<rfloor>" using assms by (rule floor_mono)
  with False have "\<lfloor>p\<rfloor> + 1 \<le> \<lfloor>q\<rfloor>" by simp
  moreover have "round_even p \<le> \<lfloor>p\<rfloor> + 1" by (auto simp: round_even_def Let_def)
  moreover have "\<lfloor>q\<rfloor> \<le> round_even q" by (auto simp: round_even_def Let_def)
  ultimately show ?thesis by linarith
qed

lemma f64_exp_bounds:
  assumes "0 < x"
  shows "x < 2 powi (f64_exp x + 1)" "f64_exp x = - 1022 \<or> 2 powi f64_exp x \<le> x" "- 1022 \<le> f64_exp x"
proof -
  have "(2::rat) powi (rat_exp x + 1) \<le> 2 powi (f64_exp x + 1)"
    unfolding f64_exp_def by (intro power_int_increasing) auto
  then show "x < 2 powi (f64_exp x + 1)" using rat_exp_bounds(2) [OF assms] by linarith
  show "f64_exp x = - 1022 \<or> 2 powi f64_exp x \<le> x"
    unfolding f64_exp_def using rat_exp_bounds(1) [OF assms] by (auto simp: max_def)
  show "- 1022 \<le> f64_exp x" by (simp add: f64_exp_def)
qed

text \<open>The unit in the last place divides every integer multiple of itself exactly.\<close>

lemma f64_pos_le_pow:
  assumes "0 < x" "f64_exp x < e"
  shows "f64_pos x \<le> 2 powi e"
proof -
  define u where "u = (2::rat) powi (f64_exp x - 52)"
  have u: "0 < u" by (simp add: u_def)
  have "x \<le> 2 powi e"
  proof -
    have "(2::rat) powi (f64_exp x + 1) \<le> 2 powi e" using assms(2) by (intro power_int_increasing) auto
    then show ?thesis using f64_exp_bounds(1) [OF assms(1)] by linarith
  qed
  moreover have "(2::rat) powi e = of_int (2 ^ nat (e - f64_exp x + 52)) * u"
  proof -
    have "(2::rat) powi e = 2 powi (e - f64_exp x + 52) * u"
      unfolding u_def by (simp flip: power_int_add)
    then show ?thesis using assms(2) by (simp add: power_int_def)
  qed
  ultimately have "x / u \<le> of_int (2 ^ nat (e - f64_exp x + 52))"
    using u by (simp add: pos_divide_le_eq)
  then have "round_even (x / u) \<le> 2 ^ nat (e - f64_exp x + 52)" by (rule round_even_le)
  then have "of_int (round_even (x / u)) * u \<le> of_int (2 ^ nat (e - f64_exp x + 52)) * u"
    using u by (intro mult_right_mono) (auto simp: of_int_le_iff)
  then show ?thesis
    unfolding f64_pos_def using \<open>2 powi e = of_int (2 ^ nat (e - f64_exp x + 52)) * u\<close> u_def by simp
qed

lemma pow_le_f64_pos:
  assumes "0 < x" "2 powi f64_exp x \<le> x"
  shows "2 powi f64_exp x \<le> f64_pos x"
proof -
  define u where "u = (2::rat) powi (f64_exp x - 52)"
  have u: "0 < u" by (simp add: u_def)
  have p: "(2::rat) powi f64_exp x = of_int (2 ^ 52) * u"
  proof -
    have "(2::rat) powi (52 + (f64_exp x - 52)) = 2 powi 52 * u"
      unfolding u_def by (rule power_int_add) simp
    then show ?thesis by simp
  qed
  with assms(2) u have "of_int (2 ^ 52) \<le> x / u" by (simp add: pos_le_divide_eq)
  then have "2 ^ 52 \<le> round_even (x / u)" by (rule round_even_ge)
  then have "of_int (2 ^ 52) * u \<le> of_int (round_even (x / u)) * u"
    using u by (intro mult_right_mono) (auto simp only: of_int_le_iff less_imp_le)
  then show ?thesis unfolding f64_pos_def p by (simp add: u_def)
qed

lemma f64_pos_nonneg: "0 < x \<Longrightarrow> 0 \<le> f64_pos x"
  unfolding f64_pos_def
  by (intro mult_nonneg_nonneg) (auto intro!: round_even_ge simp: divide_nonneg_nonneg)

lemma f64_pos_mono:
  assumes "0 < x" "x \<le> y"
  shows "f64_pos x \<le> f64_pos y"
proof -
  have y: "0 < y" using assms by linarith
  consider (eq) "f64_exp x = f64_exp y" | (lt) "f64_exp x < f64_exp y" | (gt) "f64_exp y < f64_exp x"
    by linarith
  then show ?thesis
  proof cases
    case eq
    have "x / 2 powi (f64_exp y - 52) \<le> y / 2 powi (f64_exp y - 52)"
      using assms(2) by (intro divide_right_mono) auto
    from round_even_mono [OF this] show ?thesis
      unfolding f64_pos_def eq by (intro mult_right_mono) (auto simp: of_int_le_iff)
  next
    case lt
    then have "f64_exp y \<noteq> - 1022" using f64_exp_bounds(3) [OF assms(1)] by linarith
    then have "2 powi f64_exp y \<le> y" using f64_exp_bounds(2) [OF y] by blast
    then show ?thesis using f64_pos_le_pow [OF assms(1) lt] pow_le_f64_pos [OF y] by linarith
  next
    case gt
    then have "f64_exp x \<noteq> - 1022" using f64_exp_bounds(3) [OF y] by linarith
    then have "2 powi f64_exp x \<le> x" using f64_exp_bounds(2) [OF assms(1)] by blast
    moreover have "(2::rat) powi (f64_exp y + 1) \<le> 2 powi f64_exp x"
      using gt by (intro power_int_increasing) auto
    ultimately show ?thesis using assms(2) f64_exp_bounds(1) [OF y] by linarith
  qed
qed

lemma f64_mono: "x \<le> y \<Longrightarrow> f64 x \<le> f64 y"
  using f64_pos_mono [of x y] f64_pos_mono [of "- y" "- x"] f64_pos_nonneg [of y] f64_pos_nonneg [of "- x"]
  by (auto simp: f64_def)

lemma f64_pos_int:
  assumes "0 < k" "k \<le> 2 ^ 53"
  shows "f64_pos (of_int k) = of_int k"
proof -
  define x where "x = (of_int k :: rat)"
  have x: "0 < x" "x \<le> 2 ^ 53" using assms unfolding x_def by (auto simp: of_int_le_iff)
  have "f64_exp x \<le> 53"
  proof (rule ccontr)
    assume "\<not> f64_exp x \<le> 53"
    then have "(2::rat) powi 54 \<le> 2 powi f64_exp x" by (intro power_int_increasing) auto
    moreover have "2 powi f64_exp x \<le> x" using f64_exp_bounds(2) [OF x(1)] \<open>\<not> f64_exp x \<le> 53\<close> by auto
    ultimately show False using x(2) by simp
  qed
  show ?thesis
  proof (cases "f64_exp x = 53")
    case True
    then have "(2::rat) powi 53 \<le> x" using f64_exp_bounds(2) [OF x(1)] by auto
    then have "x = 2 ^ 53" using x(2) by simp
    then show ?thesis unfolding x_def [symmetric] f64_pos_def True
      by (simp add: round_even_def)
  next
    case False
    define u where "u = (2::rat) powi (f64_exp x - 52)"
    have u: "u \<noteq> 0" by (simp add: u_def)
    have "f64_exp x \<le> 52" using False \<open>f64_exp x \<le> 53\<close> by linarith
    then have "1 / u = of_int (2 ^ nat (52 - f64_exp x))"
      unfolding u_def by (simp add: power_int_def field_simps split: if_splits) 
    then have "x * (1 / u) = of_int (k * 2 ^ nat (52 - f64_exp x))" unfolding x_def by simp
    then have "x / u = of_int (k * 2 ^ nat (52 - f64_exp x))" by simp
    then have "of_int (round_even (x / u)) = x / u" by (simp add: round_even_def)
    then show ?thesis unfolding x_def [symmetric] f64_pos_def using u u_def by simp
  qed
qed

lemma f64_int:
  assumes "\<bar>k\<bar> \<le> 2 ^ 53"
  shows "f64 (of_int k) = of_int k"
proof (cases "k < 0")
  case True
  then have "f64_pos (of_int (- k)) = of_int (- k)" using assms by (intro f64_pos_int) auto
  with True show ?thesis by (simp add: f64_def)
next
  case False
  with assms show ?thesis using f64_pos_int [of k] by (auto simp: f64_def)
qed

interpretation f64: rounding f64
  by unfold_locales (auto intro: f64_mono f64_int)

lemma duration_Seconds_nonneg: "0 \<le> d \<Longrightarrow> 0 \<le> duration_Seconds d"
proof -
  assume d: "0 \<le> d"
  define sec nsec where "sec = sgn d * (\<bar>d\<bar> div second)" and "nsec = d - sec * second"
  have "0 \<le> sec" using d by (auto simp: sec_def second_def sgn_if)
  moreover have "0 \<le> nsec"
    using d by (auto simp: nsec_def sec_def second_def sgn_if minus_div_mult_eq_mod)
  ultimately show ?thesis
    unfolding duration_Seconds_def Let_def sec_def [symmetric] nsec_def [symmetric]
    by (intro f64.rnd_nonneg add_nonneg_nonneg) (auto intro!: f64.rnd_nonneg divide_nonneg_nonneg)
qed

lemma duration_Seconds_0: "duration_Seconds 0 = 0"
  by (simp add: duration_Seconds_def f64_def)

end
