(* ===== verification/Json.thy ===== *)
theory Json
  imports Gateway_Prelude
begin

text \<open>
  Go's \<open>encoding/json\<close>, as far as the gateway uses it: a lexer and a stack machine over
  tokens (the shape of the library's own scanner, with its nesting limit of 10000), the
  unquoting of strings with its treatment of escapes and of invalid UTF-8, decoding into
  struct fields (case-folded names, null ignored, integers without fraction or exponent),
  and \<open>json.Marshal\<close>. The main result is the round trip \<open>json_parse_print\<close>: what
  \<open>Marshal\<close> writes for a document whose strings are UTF-8 parses back to that document.
\<close>

section \<open>Documents and tokens\<close>

text \<open>
  Numbers keep their literal text, since decoding looks at it. \<open>JEmptyGap\<close> is an empty
  array with white space between its brackets: a \<open>json.RawMessage\<close> compared with the text
  \<open>[]\<close> tells the two apart.
\<close>

datatype json =
    JNull
  | JBool bool
  | JNum bytes
  | JStr bytes
  | JArr "json list"
  | JEmptyGap
  | JObj "(bytes \<times> json) list"

datatype token =
    TLBrace | TRBrace | TLBrack | TRBrack | TEmptyClose | TColon | TComma
  | TStr bytes | TNum bytes | TBool bool | TNull

section \<open>Strings\<close>

definition replacement :: bytes where
  "replacement = [CHR 0xEF, CHR 0xBF, CHR 0xBD]"

definition cont_byte :: "char \<Rightarrow> bool" where
  "cont_byte c \<longleftrightarrow> 0x80 \<le> byte_nat c \<and> byte_nat c \<le> 0xBF"

text \<open>The length of the well-formed multi-byte UTF-8 sequence at the start of a text, 0 for none.\<close>

definition utf8_len :: "bytes \<Rightarrow> nat" where
  "utf8_len s =
     (case s of
        a # b # r \<Rightarrow>
          (let x = byte_nat a; y = byte_nat b in
           if 0xC2 \<le> x \<and> x \<le> 0xDF then (if cont_byte b then 2 else 0)
           else if 0xE0 \<le> x \<and> x \<le> 0xEF then
             (case r of
                c # _ \<Rightarrow>
                  if (if x = 0xE0 then 0xA0 else 0x80) \<le> y \<and> y \<le> (if x = 0xED then 0x9F else 0xBF) \<and> cont_byte c
                  then 3 else 0
              | [] \<Rightarrow> 0)
           else if 0xF0 \<le> x \<and> x \<le> 0xF4 then
             (case r of
                c # d # _ \<Rightarrow>
                  if (if x = 0xF0 then 0x90 else 0x80) \<le> y \<and> y \<le> (if x = 0xF4 then 0x8F else 0xBF)
                     \<and> cont_byte c \<and> cont_byte d
                  then 4 else 0
              | _ \<Rightarrow> 0)
           else 0)
      | _ \<Rightarrow> 0)"

definition utf8_encode :: "nat \<Rightarrow> bytes" where
  "utf8_encode r =
     (if r < 0x80 then [char_of r]
      else if r < 0x800 then [char_of (0xC0 + r div 64), char_of (0x80 + r mod 64)]
      else if r < 0x10000 then
        [char_of (0xE0 + r div 4096), char_of (0x80 + r div 64 mod 64), char_of (0x80 + r mod 64)]
      else
        [char_of (0xF0 + r div 262144), char_of (0x80 + r div 4096 mod 64),
         char_of (0x80 + r div 64 mod 64), char_of (0x80 + r mod 64)])"

definition hex_digit :: "char \<Rightarrow> nat option" where
  "hex_digit c =
     (let x = byte_nat c in
      if is_digit c then Some (x - 48)
      else if 97 \<le> x \<and> x \<le> 102 then Some (x - 87)
      else if 65 \<le> x \<and> x \<le> 70 then Some (x - 55)
      else None)"

fun hex_value :: "nat \<Rightarrow> bytes \<Rightarrow> nat option" where
  "hex_value acc [] = Some acc"
| "hex_value acc (c # cs) =
     (case hex_digit c of None \<Rightarrow> None | Some d \<Rightarrow> hex_value (16 * acc + d) cs)"

definition hex4 :: "bytes \<Rightarrow> nat option" where
  "hex4 s = (if length s = 4 then hex_value 0 s else None)"

definition simple_escape :: "char \<Rightarrow> char option" where
  "simple_escape e =
     (if e = CHR 0x22 \<or> e = CHR 0x5C \<or> e = CHR 0x2F then Some e
      else if e = CHR ''b'' then Some (CHR 8)
      else if e = CHR ''f'' then Some (CHR 12)
      else if e = CHR ''n'' then Some (CHR 10)
      else if e = CHR ''r'' then Some (CHR 13)
      else if e = CHR ''t'' then Some (CHR 9)
      else None)"

text \<open>The second half of a surrogate pair, written as an escape at the start of the text.\<close>

definition low_surrogate :: "bytes \<Rightarrow> nat option" where
  "low_surrogate s =
     (if take 2 s = [CHR 0x5C, CHR ''u''] then
        (case hex4 (take 4 (drop 2 s)) of
           Some r \<Rightarrow> if 0xDC00 \<le> r \<and> r \<le> 0xDFFF then Some r else None
         | None \<Rightarrow> None)
      else None)"

fun unquote :: "bytes \<Rightarrow> bytes option" where
  "unquote [] = Some []"
| "unquote (c # cs) =
     (if c = CHR 0x5C then
        (case cs of
           [] \<Rightarrow> None
         | e # ds \<Rightarrow>
             (case simple_escape e of
                Some x \<Rightarrow> map_option (Cons x) (unquote (drop 1 cs))
              | None \<Rightarrow>
                  if e \<noteq> CHR ''u'' then None
                  else
                    (case hex4 (take 4 ds) of
                       None \<Rightarrow> None
                     | Some r \<Rightarrow>
                         if 0xD800 \<le> r \<and> r \<le> 0xDFFF then
                           (case (if r \<le> 0xDBFF then low_surrogate (drop 4 ds) else None) of
                              Some r2 \<Rightarrow>
                                map_option ((@) (utf8_encode (0x10000 + (r - 0xD800) * 1024 + (r2 - 0xDC00))))
                                  (unquote (drop 11 cs))
                            | None \<Rightarrow> map_option ((@) replacement) (unquote (drop 5 cs)))
                         else map_option ((@) (utf8_encode r)) (unquote (drop 5 cs)))))
      else if byte_nat c < 0x80 then map_option (Cons c) (unquote cs)
      else if utf8_len (c # cs) = 0 then map_option ((@) replacement) (unquote cs)
      else map_option ((@) (take (utf8_len (c # cs)) (c # cs))) (unquote (drop (utf8_len (c # cs) - 1) cs)))"

definition hex_char :: "nat \<Rightarrow> char" where
  "hex_char d = (if d < 10 then char_of (48 + d) else char_of (87 + d))"

definition u00_escape :: "char \<Rightarrow> bytes" where
  "u00_escape c = [CHR 0x5C, CHR ''u'', CHR ''0'', CHR ''0'', hex_char (byte_nat c div 16), hex_char (byte_nat c mod 16)]"

text \<open>One ASCII byte as \<open>Marshal\<close> writes it inside a string (HTML escaping is on).\<close>

definition escape_char :: "char \<Rightarrow> bytes" where
  "escape_char c =
     (if c = CHR 0x22 \<or> c = CHR 0x5C then [CHR 0x5C, c]
      else if c = CHR 8 then [CHR 0x5C, CHR ''b'']
      else if c = CHR 12 then [CHR 0x5C, CHR ''f'']
      else if c = CHR 10 then [CHR 0x5C, CHR ''n'']
      else if c = CHR 13 then [CHR 0x5C, CHR ''r'']
      else if c = CHR 9 then [CHR 0x5C, CHR ''t'']
      else if byte_nat c < 0x20 \<or> c = CHR 0x3C \<or> c = CHR 0x3E \<or> c = CHR 0x26 then u00_escape c
      else [c])"

fun quote_body :: "bytes \<Rightarrow> bytes" where
  "quote_body [] = []"
| "quote_body (c # cs) =
     (if byte_nat c < 0x80 then escape_char c @ quote_body cs
      else if utf8_len (c # cs) = 0 then [CHR 0x5C] @ ''ufffd'' @ quote_body cs
      else if take 3 (c # cs) = [CHR 0xE2, CHR 0x80, CHR 0xA8] then [CHR 0x5C] @ ''u2028'' @ quote_body (drop 2 cs)
      else if take 3 (c # cs) = [CHR 0xE2, CHR 0x80, CHR 0xA9] then [CHR 0x5C] @ ''u2029'' @ quote_body (drop 2 cs)
      else take (utf8_len (c # cs)) (c # cs) @ quote_body (drop (utf8_len (c # cs) - 1) cs))"

definition quote :: "bytes \<Rightarrow> bytes" where
  "quote s = [CHR 0x22] @ quote_body s @ [CHR 0x22]"

section \<open>Numbers\<close>

definition digits_then :: "bytes \<Rightarrow> bytes \<times> bytes" where
  "digits_then s = (takeWhile is_digit s, dropWhile is_digit s)"

text \<open>The number grammar: sign, integer part without leading zeros, fraction, exponent.\<close>

definition valid_exp :: "bytes \<Rightarrow> bool" where
  "valid_exp s =
     (case s of
        [] \<Rightarrow> True
      | e # r \<Rightarrow>
          (e = CHR ''e'' \<or> e = CHR ''E'') \<and>
          (let d = (case r of [] \<Rightarrow> r | c # r' \<Rightarrow> if c = CHR ''+'' \<or> c = CHR ''-'' then r' else r)
           in d \<noteq> [] \<and> list_all is_digit d))"

definition valid_number :: "bytes \<Rightarrow> bool" where
  "valid_number s =
     (let (ip, rest) = digits_then (if s \<noteq> [] \<and> hd s = CHR ''-'' then tl s else s) in
      ip \<noteq> [] \<and> (hd ip = CHR ''0'' \<longrightarrow> length ip = 1) \<and>
      (case rest of
         [] \<Rightarrow> True
       | c # r \<Rightarrow>
           if c = CHR ''.'' then
             (let (fp, rest') = digits_then r in fp \<noteq> [] \<and> valid_exp rest')
           else valid_exp rest))"

section \<open>The lexer\<close>

datatype lstate = LIdle | LOpen | LStr bytes | LEsc bytes | LWord bytes

definition word_char :: "char \<Rightarrow> bool" where
  "word_char c \<longleftrightarrow> is_alnum c \<or> c = CHR ''-'' \<or> c = CHR ''+'' \<or> c = CHR ''.''"

definition is_ws :: "char \<Rightarrow> bool" where
  "is_ws c \<longleftrightarrow> c = CHR 32 \<or> c = CHR 9 \<or> c = CHR 10 \<or> c = CHR 13"

definition word_token :: "bytes \<Rightarrow> token option" where
  "word_token w =
     (if w = ''true'' then Some (TBool True)
      else if w = ''false'' then Some (TBool False)
      else if w = ''null'' then Some TNull
      else if valid_number w then Some (TNum w)
      else None)"

definition lex_start :: "bool \<Rightarrow> char \<Rightarrow> (token list \<times> lstate) option" where
  "lex_start just_open c =
     (if is_ws c then Some ([], LIdle)
      else if c = CHR ''{'' then Some ([TLBrace], LIdle)
      else if c = CHR ''}'' then Some ([TRBrace], LIdle)
      else if c = CHR ''['' then Some ([TLBrack], LOpen)
      else if c = CHR '']'' then Some ([if just_open then TEmptyClose else TRBrack], LIdle)
      else if c = CHR '':'' then Some ([TColon], LIdle)
      else if c = CHR '','' then Some ([TComma], LIdle)
      else if c = CHR 0x22 then Some ([], LStr [])
      else if word_char c then Some ([], LWord [c])
      else None)"

fun lex_run :: "lstate \<Rightarrow> bytes \<Rightarrow> token list option" where
  "lex_run LIdle [] = Some []"
| "lex_run LOpen [] = Some []"
| "lex_run (LWord w) [] = map_option (\<lambda>t. [t]) (word_token (rev w))"
| "lex_run (LStr _) [] = None"
| "lex_run (LEsc _) [] = None"
| "lex_run LIdle (c # cs) =
     (case lex_start False c of None \<Rightarrow> None
      | Some (ts, st) \<Rightarrow> map_option ((@) ts) (lex_run st cs))"
| "lex_run LOpen (c # cs) =
     (case lex_start True c of None \<Rightarrow> None
      | Some (ts, st) \<Rightarrow> map_option ((@) ts) (lex_run st cs))"
| "lex_run (LWord w) (c # cs) =
     (if word_char c then lex_run (LWord (c # w)) cs
      else
        (case word_token (rev w) of None \<Rightarrow> None
         | Some t \<Rightarrow>
             (case lex_start False c of None \<Rightarrow> None
              | Some (ts, st) \<Rightarrow> map_option (\<lambda>r. t # ts @ r) (lex_run st cs))))"
| "lex_run (LStr a) (c # cs) =
     (if c = CHR 0x22 then
        (case unquote (rev a) of None \<Rightarrow> None
         | Some s \<Rightarrow> map_option (Cons (TStr s)) (lex_run LIdle cs))
      else if c = CHR 0x5C then lex_run (LEsc a) cs
      else if byte_nat c < 0x20 then None
      else lex_run (LStr (c # a)) cs)"
| "lex_run (LEsc a) (c # cs) = lex_run (LStr (c # CHR 0x5C # a)) cs"

section \<open>The parser\<close>

datatype frame = FArr "json list" | FObj "(bytes \<times> json) list" bytes

datatype pmode = MVal | MArr0 | MAfter | MKey | MObj0 | MColon | MDone json

definition max_nesting :: nat where
  "max_nesting = 10000"

fun push_value :: "json \<Rightarrow> frame list \<Rightarrow> frame list \<times> pmode" where
  "push_value v [] = ([], MDone v)"
| "push_value v (FArr xs # st) = (FArr (v # xs) # st, MAfter)"
| "push_value v (FObj kvs k # st) = (FObj ((k, v) # kvs) [] # st, MAfter)"

text \<open>A token where a value is expected.\<close>

definition value_step :: "frame list \<Rightarrow> token \<Rightarrow> (frame list \<times> pmode) option" where
  "value_step st t =
     (case t of
        TStr s \<Rightarrow> Some (push_value (JStr s) st)
      | TNum s \<Rightarrow> Some (push_value (JNum s) st)
      | TBool b \<Rightarrow> Some (push_value (JBool b) st)
      | TNull \<Rightarrow> Some (push_value JNull st)
      | TLBrack \<Rightarrow> if length st < max_nesting then Some (FArr [] # st, MArr0) else None
      | TLBrace \<Rightarrow> if length st < max_nesting then Some (FObj [] [] # st, MObj0) else None
      | _ \<Rightarrow> None)"

fun parse_step :: "frame list \<Rightarrow> pmode \<Rightarrow> token \<Rightarrow> (frame list \<times> pmode) option" where
  "parse_step st MVal t = value_step st t"
| "parse_step (FArr xs # st) MArr0 t =
     (if t = TEmptyClose then Some (push_value (JArr []) st)
      else if t = TRBrack then Some (push_value JEmptyGap st)
      else value_step (FArr xs # st) t)"
| "parse_step (FObj kvs k # st) MObj0 t =
     (case t of
        TRBrace \<Rightarrow> Some (push_value (JObj []) st)
      | TStr s \<Rightarrow> Some (FObj kvs s # st, MColon)
      | _ \<Rightarrow> None)"
| "parse_step (FObj kvs k # st) MKey t =
     (case t of TStr s \<Rightarrow> Some (FObj kvs s # st, MColon) | _ \<Rightarrow> None)"
| "parse_step st MColon t = (if t = TColon then Some (st, MVal) else None)"
| "parse_step (FArr xs # st) MAfter t =
     (if t = TComma then Some (FArr xs # st, MVal)
      else if t = TRBrack then Some (push_value (JArr (rev xs)) st)
      else None)"
| "parse_step (FObj kvs k # st) MAfter t =
     (if t = TComma then Some (FObj kvs k # st, MKey)
      else if t = TRBrace then Some (push_value (JObj (rev kvs)) st)
      else None)"
| "parse_step _ _ _ = None"

fun parse_run :: "frame list \<Rightarrow> pmode \<Rightarrow> token list \<Rightarrow> json option" where
  "parse_run st (MDone j) [] = Some j"
| "parse_run st _ [] = None"
| "parse_run st m (t # ts) =
     (case parse_step st m t of None \<Rightarrow> None | Some (st', m') \<Rightarrow> parse_run st' m' ts)"

text \<open>A whole text as one JSON value: what \<open>json.Unmarshal\<close> accepts, and \<open>strictJSON\<close> too.\<close>

definition json_parse :: "bytes \<Rightarrow> json option" where
  "json_parse b =
     (case lex_run LIdle b of None \<Rightarrow> None | Some ts \<Rightarrow> parse_run [] MVal ts)"

section \<open>\<open>json.Marshal\<close>\<close>

fun intersperse :: "bytes \<Rightarrow> bytes list \<Rightarrow> bytes" where
  "intersperse sep [] = []"
| "intersperse sep [x] = x"
| "intersperse sep (x # y # xs) = x @ sep @ intersperse sep (y # xs)"

fun json_print :: "json \<Rightarrow> bytes" where
  "json_print JNull = ''null''"
| "json_print (JBool b) = (if b then ''true'' else ''false'')"
| "json_print (JNum s) = s"
| "json_print (JStr s) = quote s"
| "json_print (JArr xs) = ''['' @ intersperse '','' (map json_print xs) @ '']''"
| "json_print JEmptyGap = ''[]''"
| "json_print (JObj kvs) =
     ''{'' @ intersperse '','' (map (\<lambda>(k, v). quote k @ '':'' @ json_print v) kvs) @ ''}''"

section \<open>Decoding into struct fields\<close>

text \<open>
  Field names match after case folding; besides ASCII letters, U+212A folds with k and
  U+017F with s.
\<close>

fun fold_name :: "bytes \<Rightarrow> bytes" where
  "fold_name [] = []"
| "fold_name (c # cs) =
     (if c = CHR 0xE2 \<and> take 2 cs = [CHR 0x84, CHR 0xAA] then CHR ''k'' # fold_name (drop 2 cs)
      else if c = CHR 0xC5 \<and> take 1 cs = [CHR 0xBF] then CHR ''s'' # fold_name (drop 1 cs)
      else ascii_lower c # fold_name cs)"

definition key_is :: "bytes \<Rightarrow> bytes \<Rightarrow> bool" where
  "key_is name k \<longleftrightarrow> fold_name k = fold_name name"

text \<open>
  A decoder takes the field's current value and returns the new one, \<open>None\<close> for a type
  error. \<open>null\<close> leaves a string, number, boolean or struct as it was.
\<close>

definition dec_string :: "bytes \<Rightarrow> json \<Rightarrow> bytes option" where
  "dec_string old j = (case j of JStr s \<Rightarrow> Some s | JNull \<Rightarrow> Some old | _ \<Rightarrow> None)"

definition dec_bool :: "bool \<Rightarrow> json \<Rightarrow> bool option" where
  "dec_bool old j = (case j of JBool b \<Rightarrow> Some b | JNull \<Rightarrow> Some old | _ \<Rightarrow> None)"

definition dec_int :: "int64 \<Rightarrow> json \<Rightarrow> int64 option" where
  "dec_int old j = (case j of JNum s \<Rightarrow> atoi s | JNull \<Rightarrow> Some old | _ \<Rightarrow> None)"

definition dec_string_ptr :: "bytes option \<Rightarrow> json \<Rightarrow> bytes option option" where
  "dec_string_ptr old j = (case j of JStr s \<Rightarrow> Some (Some s) | JNull \<Rightarrow> Some None | _ \<Rightarrow> None)"

definition dec_raw :: "json option \<Rightarrow> json \<Rightarrow> json option option" where
  "dec_raw old j = Some (Some j)"

text \<open>A struct: the pairs in order, each given to the struct's field setter.\<close>

fun dec_fields :: "(bytes \<Rightarrow> json \<Rightarrow> 'a \<Rightarrow> 'a option) \<Rightarrow> 'a \<Rightarrow> (bytes \<times> json) list \<Rightarrow> 'a option" where
  "dec_fields f a [] = Some a"
| "dec_fields f a ((k, v) # kvs) =
     (case f k v a of None \<Rightarrow> None | Some a' \<Rightarrow> dec_fields f a' kvs)"

definition dec_struct :: "(bytes \<Rightarrow> json \<Rightarrow> 'a \<Rightarrow> 'a option) \<Rightarrow> 'a \<Rightarrow> json \<Rightarrow> 'a option" where
  "dec_struct f old j = (case j of JObj kvs \<Rightarrow> dec_fields f old kvs | JNull \<Rightarrow> Some old | _ \<Rightarrow> None)"

text \<open>A slice: elements are decoded over the old elements at their positions.\<close>

fun dec_elems :: "('a \<Rightarrow> json \<Rightarrow> 'a option) \<Rightarrow> 'a \<Rightarrow> 'a list \<Rightarrow> json list \<Rightarrow> 'a list option" where
  "dec_elems d zero old [] = Some []"
| "dec_elems d zero old (j # js) =
     (case d (case old of [] \<Rightarrow> zero | o1 # _ \<Rightarrow> o1) j of
        None \<Rightarrow> None
      | Some a \<Rightarrow> map_option (Cons a) (dec_elems d zero (drop 1 old) js))"

definition dec_slice :: "('a \<Rightarrow> json \<Rightarrow> 'a option) \<Rightarrow> 'a \<Rightarrow> 'a list \<Rightarrow> json \<Rightarrow> 'a list option" where
  "dec_slice d zero old j =
     (case j of
        JArr js \<Rightarrow> dec_elems d zero old js
      | JEmptyGap \<Rightarrow> Some []
      | JNull \<Rightarrow> Some []
      | _ \<Rightarrow> None)"

section \<open>Marshal and parse: the round trip\<close>

definition ascii :: "bytes \<Rightarrow> bool" where
  "ascii s \<longleftrightarrow> list_all (\<lambda>c. byte_nat c < 0x80) s"

text \<open>Well-formed UTF-8.\<close>

fun utf8_valid :: "bytes \<Rightarrow> bool" where
  "utf8_valid [] = True"
| "utf8_valid (c # cs) =
     (if byte_nat c < 0x80 then utf8_valid cs
      else utf8_len (c # cs) \<noteq> 0 \<and> utf8_valid (drop (utf8_len (c # cs) - 1) cs))"

text \<open>Documents \<open>Marshal\<close> can have written: strings in UTF-8, number literals of the grammar.\<close>

fun json_ok :: "json \<Rightarrow> bool" where
  "json_ok (JNum s) \<longleftrightarrow> valid_number s"
| "json_ok (JStr s) \<longleftrightarrow> utf8_valid s"
| "json_ok (JArr xs) \<longleftrightarrow> (\<forall>x \<in> set xs. json_ok x)"
| "json_ok JEmptyGap \<longleftrightarrow> False"
| "json_ok (JObj kvs) \<longleftrightarrow> (\<forall>(k, v) \<in> set kvs. utf8_valid k \<and> json_ok v)"
| "json_ok _ \<longleftrightarrow> True"

fun json_depth :: "json \<Rightarrow> nat" where
  "json_depth (JArr xs) = Suc (Max (insert 0 (set (map json_depth xs))))"
| "json_depth JEmptyGap = 1"
| "json_depth (JObj kvs) = Suc (Max (insert 0 (set (map (\<lambda>(k, v). json_depth v) kvs))))"
| "json_depth _ = 0"

subsection \<open>Strings\<close>

lemma hex_digit_hex_char: "d < 16 \<Longrightarrow> hex_digit (hex_char d) = Some d"
  by (auto simp: hex_digit_def hex_char_def is_digit_def Let_def)

lemma hex4_u00:
  assumes "byte_nat c < 256"
  shows "hex4 [CHR ''0'', CHR ''0'', hex_char (byte_nat c div 16), hex_char (byte_nat c mod 16)] = Some (byte_nat c)"
proof -
  have "hex_digit (CHR ''0'') = Some 0" by (simp add: hex_digit_def is_digit_def)
  moreover have "byte_nat c div 16 < 16" using assms by linarith
  ultimately show ?thesis by (simp add: hex4_def hex_digit_hex_char)
qed

lemma simple_escape_u: "simple_escape (CHR ''u'') = None"
  by (simp add: simple_escape_def)

lemma unquote_u00:
  assumes "byte_nat c < 0x80"
  shows "unquote (u00_escape c @ r) = map_option (Cons c) (unquote r)"
proof -
  have "hex4 [CHR ''0'', CHR ''0'', hex_char (byte_nat c div 16), hex_char (byte_nat c mod 16)] = Some (byte_nat c)"
    using assms by (intro hex4_u00) simp
  moreover have "utf8_encode (byte_nat c) = [c]" using assms by (simp add: utf8_encode_def)
  moreover have "(@) [c] = Cons c" by auto
  ultimately show ?thesis
    using assms by (simp add: u00_escape_def simple_escape_u)
qed

lemma unquote_escape_char:
  assumes "byte_nat c < 0x80"
  shows "unquote (escape_char c @ r) = map_option (Cons c) (unquote r)"
proof (cases "byte_nat c < 0x20 \<or> c = CHR 0x3C \<or> c = CHR 0x3E \<or> c = CHR 0x26")
  case True
  then show ?thesis
    using assms unquote_u00 [OF assms] by (simp add: escape_char_def simple_escape_def)
next
  case False
  then show ?thesis using assms by (auto simp: escape_char_def simple_escape_def)
qed

lemma utf8_len_cases:
  assumes "utf8_len s \<noteq> 0"
  obtains (two) a b r where "s = a # b # r" "utf8_len s = 2" "0xC2 \<le> byte_nat a" "0x80 \<le> byte_nat b"
      "\<And>r'. utf8_len (a # b # r') = 2"
  | (three) a b c r where "s = a # b # c # r" "utf8_len s = 3" "0xC2 \<le> byte_nat a" "0x80 \<le> byte_nat b" "0x80 \<le> byte_nat c"
      "\<And>r'. utf8_len (a # b # c # r') = 3"
  | (four) a b c d r where "s = a # b # c # d # r" "utf8_len s = 4" "0xC2 \<le> byte_nat a" "0x80 \<le> byte_nat b"
      "0x80 \<le> byte_nat c" "0x80 \<le> byte_nat d" "\<And>r'. utf8_len (a # b # c # d # r') = 4"
proof -
  obtain a b r where s: "s = a # b # r"
    using assms by (auto simp: utf8_len_def split: list.splits)
  consider "0xC2 \<le> byte_nat a \<and> byte_nat a \<le> 0xDF" | "0xE0 \<le> byte_nat a \<and> byte_nat a \<le> 0xEF"
    | "0xF0 \<le> byte_nat a \<and> byte_nat a \<le> 0xF4"
    using assms by (auto simp: s utf8_len_def Let_def split: if_splits)
  then show thesis
  proof cases
    case 1
    then have "cont_byte b" using assms by (simp add: s utf8_len_def Let_def split: if_splits)
    with 1 show ?thesis by (intro two [of a b r]) (auto simp: s utf8_len_def cont_byte_def)
  next
    case 2
    then obtain c r' where r: "r = c # r'"
      and ok: "(if byte_nat a = 0xE0 then 0xA0 else 0x80) \<le> byte_nat b" "byte_nat b \<le> (if byte_nat a = 0xED then 0x9F else 0xBF)" "cont_byte c"
      using assms by (auto simp: s utf8_len_def Let_def split: list.splits if_splits)
    have "0x80 \<le> byte_nat b" using ok(1) by (auto split: if_splits)
    with 2 ok show ?thesis by (intro three [of a b c r']) (auto simp: s r utf8_len_def cont_byte_def)
  next
    case 3
    then obtain c d r' where r: "r = c # d # r'"
      and ok: "(if byte_nat a = 0xF0 then 0x90 else 0x80) \<le> byte_nat b" "byte_nat b \<le> (if byte_nat a = 0xF4 then 0x8F else 0xBF)"
        "cont_byte c" "cont_byte d"
      using assms by (auto simp: s utf8_len_def Let_def split: list.splits if_splits)
    have "0x80 \<le> byte_nat b" using ok(1) by (auto split: if_splits)
    with 3 ok show ?thesis by (intro four [of a b c d r']) (auto simp: s r utf8_len_def cont_byte_def)
  qed
qed

text \<open>The sequence at the start of a text stands alone: what follows does not matter.\<close>

lemma utf8_seq:
  assumes "utf8_len s \<noteq> 0"
  shows "utf8_len (take (utf8_len s) s @ r) = utf8_len s" "list_all (\<lambda>c. 0x80 \<le> byte_nat c) (take (utf8_len s) s)"
    "length (take (utf8_len s) s) = utf8_len s"
  using assms by (cases rule: utf8_len_cases; simp)+

lemma not_escape: "0x80 \<le> byte_nat c \<Longrightarrow> c \<noteq> CHR 0x5C \<and> c \<noteq> CHR 0x22"
  by auto

lemma unquote_seq:
  assumes "utf8_len s \<noteq> 0"
  shows "unquote (take (utf8_len s) s @ r) = map_option ((@) (take (utf8_len s) s)) (unquote r)"
proof -
  let ?q = "take (utf8_len s) s"
  note q = utf8_seq [OF assms]
  obtain c cs where c: "?q = c # cs" using q(3) assms by (cases ?q) auto
  have b: "0x80 \<le> byte_nat c" using q(2) by (simp add: c)
  have l: "utf8_len (c # cs @ r) = Suc (length cs)" using q(1) [of r] q(3) by (simp add: c)
  show ?thesis using b l not_escape [OF b] assms by (simp add: c)
qed

lemma escape_lines:
  "unquote ([CHR 0x5C] @ ''u2028'' @ r) = map_option ((@) [CHR 0xE2, CHR 0x80, CHR 0xA8]) (unquote r)"
  "unquote ([CHR 0x5C] @ ''u2029'' @ r) = map_option ((@) [CHR 0xE2, CHR 0x80, CHR 0xA9]) (unquote r)"
proof -
  have "char_of (226::nat) = CHR 0xE2" "char_of (128::nat) = CHR 0x80" "char_of (168::nat) = CHR 0xA8" "char_of (169::nat) = CHR 0xA9"
    by (simp_all add: char_of_eq)
  then show "unquote ([CHR 0x5C] @ ''u2028'' @ r) = map_option ((@) [CHR 0xE2, CHR 0x80, CHR 0xA8]) (unquote r)"
    "unquote ([CHR 0x5C] @ ''u2029'' @ r) = map_option ((@) [CHR 0xE2, CHR 0x80, CHR 0xA9]) (unquote r)"
    by (simp_all add: simple_escape_u hex4_def hex_digit_def is_digit_def utf8_encode_def)
qed

lemma ascii_utf8_valid: "ascii s \<Longrightarrow> utf8_valid s"
  by (induction s) (simp_all add: ascii_def)

lemma take_seq: "take n (c # cs) @ drop (n - 1) cs = c # cs" if "n \<noteq> 0"
  using that by (cases n) simp_all

lemma line_seps:
  "take 3 s = [CHR 0xE2, CHR 0x80, x] \<Longrightarrow> 0x80 \<le> byte_nat x \<Longrightarrow> byte_nat x \<le> 0xBF \<Longrightarrow> utf8_len s = 3"
  by (cases s; cases "tl s"; cases "tl (tl s)") (auto simp: utf8_len_def cont_byte_def)

lemma lex_esc: "lex_run (LStr a) (CHR 0x5C # e # r) = lex_run (LStr (e # CHR 0x5C # a)) r"
  by simp

lemma lex_plain:
  "c \<noteq> CHR 0x22 \<Longrightarrow> c \<noteq> CHR 0x5C \<Longrightarrow> 0x20 \<le> byte_nat c \<Longrightarrow>
   lex_run (LStr a) (c # r) = lex_run (LStr (c # a)) r"
  by simp

lemma hex_char_plain:
  assumes "d < 16"
  shows "hex_char d \<noteq> CHR 0x22" "hex_char d \<noteq> CHR 0x5C" "0x20 \<le> byte_nat (hex_char d)"
proof -
  have "48 \<le> byte_nat (hex_char d)" "byte_nat (hex_char d) \<noteq> 0x5C"
    using assms by (auto simp: hex_char_def)
  then show "hex_char d \<noteq> CHR 0x22" "hex_char d \<noteq> CHR 0x5C" "0x20 \<le> byte_nat (hex_char d)"
    by auto
qed

lemma lex_u00:
  assumes "byte_nat c < 0x80"
  shows "lex_run (LStr a) (u00_escape c @ r) = lex_run (LStr (rev (u00_escape c) @ a)) r"
proof -
  have d: "byte_nat c div 16 < 16" "byte_nat c mod 16 < 16" using assms by linarith+
  have z: "lex_run (LStr b) (CHR ''0'' # q) = lex_run (LStr (CHR ''0'' # b)) q" for b q
    by (rule lex_plain) simp_all
  show ?thesis
    unfolding u00_escape_def append.simps rev.simps lex_esc z
      lex_plain [OF hex_char_plain [OF d(1)]] lex_plain [OF hex_char_plain [OF d(2)]] ..
qed

lemma escape_char_cases:
  "escape_char c = u00_escape c \<or> (\<exists>e. escape_char c = [CHR 0x5C, e]) \<or>
   escape_char c = [c] \<and> c \<noteq> CHR 0x22 \<and> c \<noteq> CHR 0x5C \<and> 0x20 \<le> byte_nat c"
  by (simp add: escape_char_def not_less)

lemma lex_escape_char:
  assumes "byte_nat c < 0x80"
  shows "lex_run (LStr a) (escape_char c @ r) = lex_run (LStr (rev (escape_char c) @ a)) r"
proof -
  consider (u00) "escape_char c = u00_escape c" | (esc) e where "escape_char c = [CHR 0x5C, e]"
    | (plain) "escape_char c = [c]" "c \<noteq> CHR 0x22" "c \<noteq> CHR 0x5C" "0x20 \<le> byte_nat c"
    using escape_char_cases by blast
  then show ?thesis
  proof cases
    case u00
    then show ?thesis using lex_u00 [OF assms] by simp
  next
    case esc
    then show ?thesis using lex_esc by simp
  next
    case plain
    then show ?thesis using lex_plain by simp
  qed
qed

lemma lex_seq:
  "list_all (\<lambda>c. 0x80 \<le> byte_nat c) q \<Longrightarrow> lex_run (LStr a) (q @ r) = lex_run (LStr (rev q @ a)) r"
proof (induction q arbitrary: a)
  case (Cons c q)
  then have "lex_run (LStr a) (c # q @ r) = lex_run (LStr (c # a)) (q @ r)"
    using not_escape [of c] by (intro lex_plain) auto
  then show ?case using Cons by simp
qed simp

lemma lex_lines:
  "lex_run (LStr a) (([CHR 0x5C] @ ''u2028'') @ r) = lex_run (LStr (rev ([CHR 0x5C] @ ''u2028'') @ a)) r"
  "lex_run (LStr a) (([CHR 0x5C] @ ''u2029'') @ r) = lex_run (LStr (rev ([CHR 0x5C] @ ''u2029'') @ a)) r"
  by simp_all

text \<open>How one multi-byte sequence is written, and that the writing is read back.\<close>

lemma quote_body_seq:
  assumes "\<not> byte_nat c < 0x80" "utf8_len (c # cs) \<noteq> 0"
  obtains q where "quote_body (c # cs) = q @ quote_body (drop (utf8_len (c # cs) - 1) cs)"
    "\<And>r. unquote (q @ r) = map_option ((@) (take (utf8_len (c # cs)) (c # cs))) (unquote r)"
    "\<And>a r. lex_run (LStr a) (q @ r) = lex_run (LStr (rev q @ a)) r"
proof -
  let ?t = "take 3 (c # cs)"
  have two: "3 - 1 = (2::nat)" by simp
  consider (ls) "?t = [CHR 0xE2, CHR 0x80, CHR 0xA8]" | (ps) "?t = [CHR 0xE2, CHR 0x80, CHR 0xA9]"
    | (plain) "?t \<noteq> [CHR 0xE2, CHR 0x80, CHR 0xA8]" "?t \<noteq> [CHR 0xE2, CHR 0x80, CHR 0xA9]" by blast
  then show thesis
  proof cases
    case ls
    then have n: "utf8_len (c # cs) = 3" using line_seps [OF ls] by simp
    have "quote_body (c # cs) = ([CHR 0x5C] @ ''u2028'') @ quote_body (drop 2 cs)"
      unfolding quote_body.simps using assms ls by (simp del: take_Suc_Cons take_Cons_numeral)
    then show thesis
      using escape_lines(1) lex_lines(1)
      by (intro that [of "[CHR 0x5C] @ ''u2028''"]) (simp_all only: n ls append_assoc two)
  next
    case ps
    then have n: "utf8_len (c # cs) = 3" using line_seps [OF ps] by simp
    have "quote_body (c # cs) = ([CHR 0x5C] @ ''u2029'') @ quote_body (drop 2 cs)"
      unfolding quote_body.simps using assms ps by (simp del: take_Suc_Cons take_Cons_numeral)
    then show thesis
      using escape_lines(2) lex_lines(2)
      by (intro that [of "[CHR 0x5C] @ ''u2029''"]) (simp_all only: n ps append_assoc two)
  next
    case plain
    have "quote_body (c # cs) = take (utf8_len (c # cs)) (c # cs) @ quote_body (drop (utf8_len (c # cs) - 1) cs)"
      unfolding quote_body.simps using assms plain by (simp del: take_Suc_Cons take_Cons_numeral)
    then show thesis
      using unquote_seq [OF assms(2)] lex_seq [OF utf8_seq(2) [OF assms(2)]] by (intro that)
  qed
qed

lemma unquote_quote_body: "utf8_valid s \<Longrightarrow> unquote (quote_body s) = Some s"
proof (induction s rule: utf8_valid.induct)
  case (2 c cs)
  show ?case
  proof (cases "byte_nat c < 0x80")
    case True
    then show ?thesis using 2 by (simp add: unquote_escape_char)
  next
    case False
    let ?n = "utf8_len (c # cs)"
    have v: "?n \<noteq> 0" "utf8_valid (drop (?n - 1) cs)" using "2.prems" False by simp_all
    obtain q where q: "quote_body (c # cs) = q @ quote_body (drop (?n - 1) cs)"
      "\<And>r. unquote (q @ r) = map_option ((@) (take ?n (c # cs))) (unquote r)"
      using quote_body_seq [OF False v(1)] by metis
    show ?thesis
      unfolding q(1) q(2) using "2.IH"(2) [OF False v(2)] take_seq [OF v(1), of c cs] by simp
  qed
qed simp

lemma lex_quote_body:
  "utf8_valid s \<Longrightarrow> lex_run (LStr a) (quote_body s @ r) = lex_run (LStr (rev (quote_body s) @ a)) r"
proof (induction s arbitrary: a rule: utf8_valid.induct)
  case (2 c cs)
  show ?case
  proof (cases "byte_nat c < 0x80")
    case True
    then show ?thesis using 2 by (simp add: lex_escape_char)
  next
    case False
    let ?n = "utf8_len (c # cs)"
    have v: "?n \<noteq> 0" "utf8_valid (drop (?n - 1) cs)" using "2.prems" False by simp_all
    obtain q where q: "quote_body (c # cs) = q @ quote_body (drop (?n - 1) cs)"
      "\<And>a r. lex_run (LStr a) (q @ r) = lex_run (LStr (rev q @ a)) r"
      using quote_body_seq [OF False v(1)] by metis
    show ?thesis
      unfolding q(1) append_assoc q(2) using "2.IH"(2) [OF False v(2)] by simp
  qed
qed simp

lemma lex_quote:
  assumes "utf8_valid s"
  shows "lex_run LIdle (quote s @ r) = map_option (Cons (TStr s)) (lex_run LIdle r)"
    and "lex_run LOpen (quote s @ r) = map_option (Cons (TStr s)) (lex_run LIdle r)"
proof -
  have "lex_run (LStr []) (quote_body s @ CHR 0x22 # r) = map_option (Cons (TStr s)) (lex_run LIdle r)"
    using assms by (simp add: lex_quote_body unquote_quote_body)
  then show "lex_run LIdle (quote s @ r) = map_option (Cons (TStr s)) (lex_run LIdle r)"
    and "lex_run LOpen (quote s @ r) = map_option (Cons (TStr s)) (lex_run LIdle r)"
    by (simp_all add: quote_def lex_start_def is_ws_def option.map_id0 [unfolded id_def] map_option_case split: option.splits)
qed

subsection \<open>Words\<close>

definition delim :: "bytes \<Rightarrow> bool" where
  "delim r \<longleftrightarrow> r = [] \<or> \<not> word_char (hd r)"

lemma lex_word_chars:
  "list_all word_char ds \<Longrightarrow> lex_run (LWord w) (ds @ r) = lex_run (LWord (rev ds @ w)) r"
  by (induction ds arbitrary: w) auto

lemma lex_word_end:
  "delim r \<Longrightarrow> lex_run (LWord w) r =
     (case word_token (rev w) of None \<Rightarrow> None | Some t \<Rightarrow> map_option (Cons t) (lex_run LIdle r))"
  by (cases r) (auto simp: delim_def map_option_case split: option.splits)

lemma word_char_start:
  assumes "word_char c"
  shows "lex_start b c = Some ([], LWord [c])"
proof -
  have "45 = byte_nat c \<or> 43 = byte_nat c \<or> 46 = byte_nat c \<or> 48 \<le> byte_nat c \<and> byte_nat c \<le> 57
      \<or> 65 \<le> byte_nat c \<and> byte_nat c \<le> 90 \<or> 97 \<le> byte_nat c \<and> byte_nat c \<le> 122"
    using assms unfolding word_char_def is_alnum_def is_digit_def is_upper_def is_lower_def by auto
  then have "\<not> is_ws c" "c \<noteq> CHR ''{''" "c \<noteq> CHR ''}''" "c \<noteq> CHR ''[''" "c \<noteq> CHR '']''"
    "c \<noteq> CHR '':''" "c \<noteq> CHR '',''" "c \<noteq> CHR 0x22"
    unfolding is_ws_def by auto
  with assms show ?thesis by (simp add: lex_start_def)
qed

lemma lex_word:
  assumes "list_all word_char w" "w \<noteq> []" "word_token w = Some t" "delim r" "st \<in> {LIdle, LOpen}"
  shows "lex_run st (w @ r) = map_option (Cons t) (lex_run LIdle r)"
proof -
  obtain c cs where w: "w = c # cs" using assms(2) by (cases w) auto
  with assms(1) have "word_char c" "list_all word_char cs" by auto
  moreover from this have "lex_run (LWord [c]) (cs @ r) = map_option (Cons t) (lex_run LIdle r)"
    using assms(3,4) w by (simp add: lex_word_chars lex_word_end)
  ultimately show ?thesis
    using assms(5) w by (auto simp: word_char_start map_option_case split: option.splits)
qed

lemma digits_word_chars: "list_all is_digit ds \<Longrightarrow> list_all word_char ds"
  by (induction ds) (auto simp: word_char_def is_alnum_def)

lemma digits_thenD:
  assumes "digits_then s = (a, b)"
  shows "s = a @ b" "list_all word_char a" "list_all is_digit a"
proof -
  show "s = a @ b" using assms by (auto simp: digits_then_def)
  show "list_all is_digit a" using assms by (auto simp: digits_then_def list_all_iff dest: set_takeWhileD)
  then show "list_all word_char a" by (rule digits_word_chars)
qed

lemma valid_exp_word_chars:
  assumes "valid_exp s"
  shows "list_all word_char s"
proof (cases s)
  case (Cons e r)
  then have e: "word_char e"
    using assms by (auto simp: valid_exp_def word_char_def is_alnum_def is_lower_def is_upper_def)
  have "list_all word_char r"
  proof (cases r)
    case (Cons c r')
    show ?thesis
    proof (cases "c = CHR ''+'' \<or> c = CHR ''-''")
      case True
      then have "word_char c" by (auto simp: word_char_def)
      moreover have "list_all word_char r'"
        using True assms \<open>s = e # r\<close> Cons by (intro digits_word_chars) (simp add: valid_exp_def)
      ultimately show ?thesis using Cons by simp
    next
      case False
      then show ?thesis
        using assms \<open>s = e # r\<close> Cons by (intro digits_word_chars) (simp add: valid_exp_def)
    qed
  qed simp
  with e Cons show ?thesis by simp
qed simp

lemma valid_number_word:
  assumes "valid_number w"
  shows "list_all word_char w" "w \<noteq> []" "word_token w = Some (TNum w)"
proof -
  obtain ip rest where d: "digits_then (if w \<noteq> [] \<and> hd w = CHR ''-'' then tl w else w) = (ip, rest)"
    by (cases "digits_then (if w \<noteq> [] \<and> hd w = CHR ''-'' then tl w else w)") auto
  note body = digits_thenD [OF d]
  have ne: "ip \<noteq> []" using assms d by (simp add: valid_number_def)
  have "list_all word_char rest"
  proof (cases rest)
    case (Cons c r)
    show ?thesis
    proof (cases "c = CHR ''.''")
      case True
      obtain fp rest' where f: "digits_then r = (fp, rest')" by (cases "digits_then r") auto
      with assms d Cons True have "valid_exp rest'" by (simp add: valid_number_def)
      then have "list_all word_char r"
        using digits_thenD [OF f] valid_exp_word_chars by simp
      with Cons True show ?thesis by (simp add: word_char_def)
    next
      case False
      with assms d Cons show ?thesis by (intro valid_exp_word_chars) (simp add: valid_number_def)
    qed
  qed simp
  then have "list_all word_char (ip @ rest)" using body by simp
  then have "list_all word_char (if w \<noteq> [] \<and> hd w = CHR ''-'' then tl w else w)"
    by (simp only: body(1))
  moreover have "word_char (CHR ''-'')" by (simp add: word_char_def)
  ultimately show "list_all word_char w" by (cases w) (auto split: if_splits)
  show nonempty: "w \<noteq> []" using body(1) ne by auto
  have "is_digit (hd ip)" using body(3) ne by (cases ip) auto
  then have "hd w = CHR ''-'' \<or> is_digit (hd w)" using body(1) ne by (auto split: if_splits)
  then have "w \<noteq> ''true''" "w \<noteq> ''false''" "w \<noteq> ''null''" by (auto simp: is_digit_def)
  then show "word_token w = Some (TNum w)" using assms by (simp add: word_token_def)
qed

subsection \<open>Documents\<close>

fun json_tokens :: "json \<Rightarrow> token list" where
  "json_tokens JNull = [TNull]"
| "json_tokens (JBool b) = [TBool b]"
| "json_tokens (JNum s) = [TNum s]"
| "json_tokens (JStr s) = [TStr s]"
| "json_tokens (JArr xs) =
     (case map json_tokens xs of
        [] \<Rightarrow> [TLBrack, TEmptyClose]
      | t # ts \<Rightarrow> TLBrack # t @ concat (map (Cons TComma) ts) @ [TRBrack])"
| "json_tokens JEmptyGap = [TLBrack, TRBrack]"
| "json_tokens (JObj kvs) =
     (case map (\<lambda>(k, v). TStr k # TColon # json_tokens v) kvs of
        [] \<Rightarrow> [TLBrace, TRBrace]
      | t # ts \<Rightarrow> TLBrace # t @ concat (map (Cons TComma) ts) @ [TRBrace])"

definition lexes_as :: "bytes \<Rightarrow> token list \<Rightarrow> bool" where
  "lexes_as s ts \<longleftrightarrow>
     (\<forall>st r. st \<in> {LIdle, LOpen} \<longrightarrow> delim r \<longrightarrow> lex_run st (s @ r) = map_option ((@) ts) (lex_run LIdle r))"

lemma lexes_asD:
  "lexes_as s ts \<Longrightarrow> st \<in> {LIdle, LOpen} \<Longrightarrow> delim r \<Longrightarrow> lex_run st (s @ r) = map_option ((@) ts) (lex_run LIdle r)"
  unfolding lexes_as_def by blast

lemma lexes_as_word:
  "list_all word_char w \<Longrightarrow> w \<noteq> [] \<Longrightarrow> word_token w = Some t \<Longrightarrow> lexes_as w [t]"
  unfolding lexes_as_def by (auto simp: lex_word map_option_case split: option.splits)

lemma delim_simps [simp]:
  "delim (CHR '','' # r)" "delim (CHR '']'' # r)" "delim (CHR ''}'' # r)" "delim (CHR '':'' # r)" "delim []"
  by (auto simp: delim_def word_char_def is_alnum_def is_digit_def is_upper_def is_lower_def)

lemma lex_structural:
  "lex_run LIdle (CHR '','' # r) = map_option (Cons TComma) (lex_run LIdle r)"
  "lex_run LIdle (CHR '':'' # r) = map_option (Cons TColon) (lex_run LIdle r)"
  "lex_run LIdle (CHR '']'' # r) = map_option (Cons TRBrack) (lex_run LIdle r)"
  "lex_run LOpen (CHR '']'' # r) = map_option (Cons TEmptyClose) (lex_run LIdle r)"
  "lex_run LIdle (CHR ''}'' # r) = map_option (Cons TRBrace) (lex_run LIdle r)"
  "st \<in> {LIdle, LOpen} \<Longrightarrow> lex_run st (CHR ''['' # r) = map_option (Cons TLBrack) (lex_run LOpen r)"
  "st \<in> {LIdle, LOpen} \<Longrightarrow> lex_run st (CHR ''{'' # r) = map_option (Cons TLBrace) (lex_run LIdle r)"
  by (auto simp: lex_start_def is_ws_def map_option_case split: option.splits)

lemma map_option_append_comp:
  "map_option ((@) a) (map_option ((@) b) x) = map_option ((@) (a @ b)) x"
  "map_option ((@) a) (map_option (Cons t) x) = map_option ((@) (a @ [t])) x"
  "map_option (Cons t) (map_option ((@) a) x) = map_option ((@) (t # a)) x"
  "map_option (Cons t) (map_option (Cons u) x) = map_option ((@) [t, u]) x"
  by (cases x; simp)+

lemma lex_members:
  assumes "list_all2 lexes_as (p # ps) (t # ts)" "st \<in> {LIdle, LOpen}" "delim r"
  shows "lex_run st (intersperse '','' (p # ps) @ r) =
    map_option ((@) (t @ concat (map (Cons TComma) ts))) (lex_run LIdle r)"
  using assms
proof (induction ps arbitrary: p t ts st)
  case Nil
  then show ?case by (auto dest: lexes_asD)
next
  case (Cons q ps)
  then obtain u us where ts: "ts = u # us" by (cases ts) auto
  with Cons.prems have h: "lexes_as p t" "list_all2 lexes_as (q # ps) (u # us)" by auto
  have "lex_run st (intersperse '','' (p # q # ps) @ r) =
      map_option ((@) t) (map_option (Cons TComma) (lex_run LIdle (intersperse '','' (q # ps) @ r)))"
    using lexes_asD [OF h(1) Cons.prems(2), of "CHR '','' # intersperse '','' (q # ps) @ r"]
    by (simp add: lex_structural(1) del: lex_run.simps)
  also have "\<dots> = map_option ((@) (t @ concat (map (Cons TComma) (u # us)))) (lex_run LIdle r)"
    using Cons.IH [OF h(2), of LIdle] Cons.prems(3) by (cases "lex_run LIdle r") auto
  finally show ?case unfolding ts .
qed

lemma lexes_as_array:
  assumes "list_all2 lexes_as ps ts"
  shows "lexes_as (''['' @ intersperse '','' ps @ '']'')
    (case ts of [] \<Rightarrow> [TLBrack, TEmptyClose]
     | t # us \<Rightarrow> TLBrack # t @ concat (map (Cons TComma) us) @ [TRBrack])"
proof (cases ts)
  case Nil
  with assms show ?thesis
    unfolding lexes_as_def by (auto simp: lex_structural map_option_append_comp simp del: lex_run.simps)
next
  case (Cons t us)
  with assms obtain p qs where ps: "ps = p # qs" by (cases ps) auto
  have "lex_run LOpen (intersperse '','' (p # qs) @ CHR '']'' # r) =
      map_option ((@) (t @ concat (map (Cons TComma) us))) (map_option (Cons TRBrack) (lex_run LIdle r))" for r
    using assms Cons ps lex_members [of p qs t us LOpen "CHR '']'' # r"]
    by (simp add: lex_structural del: lex_run.simps)
  then show ?thesis
    unfolding lexes_as_def ps Cons
    by (auto simp: lex_structural map_option_append_comp simp del: lex_run.simps intersperse.simps)
qed

lemma lexes_as_object:
  assumes "list_all2 lexes_as ps ts"
  shows "lexes_as (''{'' @ intersperse '','' ps @ ''}'')
    (case ts of [] \<Rightarrow> [TLBrace, TRBrace]
     | t # us \<Rightarrow> TLBrace # t @ concat (map (Cons TComma) us) @ [TRBrace])"
proof (cases ts)
  case Nil
  with assms show ?thesis
    unfolding lexes_as_def by (auto simp: lex_structural map_option_append_comp simp del: lex_run.simps)
next
  case (Cons t us)
  with assms obtain p qs where ps: "ps = p # qs" by (cases ps) auto
  have "lex_run LIdle (intersperse '','' (p # qs) @ CHR ''}'' # r) =
      map_option ((@) (t @ concat (map (Cons TComma) us))) (map_option (Cons TRBrace) (lex_run LIdle r))" for r
    using assms Cons ps lex_members [of p qs t us LIdle "CHR ''}'' # r"]
    by (simp add: lex_structural del: lex_run.simps)
  then show ?thesis
    unfolding lexes_as_def ps Cons
    by (auto simp: lex_structural map_option_append_comp simp del: lex_run.simps intersperse.simps)
qed

lemma lexes_as_quote: "utf8_valid s \<Longrightarrow> lexes_as (quote s) [TStr s]"
  unfolding lexes_as_def by (auto simp: lex_quote map_option_case split: option.splits)

lemma lexes_as_pair:
  assumes "utf8_valid k" "lexes_as s ts"
  shows "lexes_as (quote k @ '':'' @ s) (TStr k # TColon # ts)"
  unfolding lexes_as_def
proof (intro allI impI)
  fix st r
  assume st: "st \<in> {LIdle, LOpen}" and r: "delim r"
  have "lex_run st ((quote k @ '':'' @ s) @ r) = map_option (Cons (TStr k)) (lex_run LIdle (CHR '':'' # s @ r))"
    using lexes_asD [OF lexes_as_quote [OF assms(1)] st, of "CHR '':'' # s @ r"]
    by (cases "lex_run LIdle (CHR '':'' # s @ r)") (simp_all del: lex_run.simps)
  also have "\<dots> = map_option ((@) (TStr k # TColon # ts)) (lex_run LIdle r)"
    using lexes_asD [OF assms(2) _ r, of LIdle]
    by (simp add: lex_structural map_option_append_comp del: lex_run.simps)
  finally show "lex_run st ((quote k @ '':'' @ s) @ r) = map_option ((@) (TStr k # TColon # ts)) (lex_run LIdle r)" .
qed

lemma lexes_as_print: "json_ok j \<Longrightarrow> lexes_as (json_print j) (json_tokens j)"
proof (induction j)
  case JNull
  show ?case by (simp, rule lexes_as_word) (simp_all add: word_token_def word_char_def is_alnum_def is_lower_def)
next
  case (JBool b)
  show ?case
    by (cases b; simp, intro lexes_as_word)
      (simp_all add: word_token_def word_char_def is_alnum_def is_lower_def)
next
  case (JNum s)
  then show ?case by (simp add: lexes_as_word valid_number_word)
next
  case (JStr s)
  then show ?case by (simp add: lexes_as_quote)
next
  case (JArr xs)
  then have "list_all2 lexes_as (map json_print xs) (map json_tokens xs)"
    by (auto simp: list_all2_map1 list_all2_map2 intro!: list_all2_all_nthI)
  from lexes_as_array [OF this] show ?case by simp
next
  case JEmptyGap
  then show ?case by simp
next
  case (JObj kvs)
  then have "lexes_as (quote k @ '':'' @ json_print v) (TStr k # TColon # json_tokens v)"
    if "(k, v) \<in> set kvs" for k v
    using that by (intro lexes_as_pair) (auto simp: snds.simps)
  then have "list_all2 lexes_as (map (\<lambda>(k, v). quote k @ '':'' @ json_print v) kvs)
      (map (\<lambda>(k, v). TStr k # TColon # json_tokens v) kvs)"
    by (auto simp: list_all2_map1 list_all2_map2 list_all2_same split: prod.splits)
  from lexes_as_object [OF this] show ?case by simp
qed

lemma json_tokens_hd:
  "json_tokens j = hd (json_tokens j) # tl (json_tokens j)
   \<and> hd (json_tokens j) \<noteq> TEmptyClose \<and> hd (json_tokens j) \<noteq> TRBrack"
  by (cases j) (auto split: list.splits)

lemma parse_first_element:
  "parse_run (FArr xs # st) MArr0 (json_tokens j @ ts) = parse_run (FArr xs # st) MVal (json_tokens j @ ts)"
proof -
  obtain t us where t: "json_tokens j = t # us" "t \<noteq> TEmptyClose" "t \<noteq> TRBrack"
    using json_tokens_hd [of j] by metis
  then show ?thesis by simp
qed

definition parses_as :: "json \<Rightarrow> bool" where
  "parses_as j \<longleftrightarrow> (\<forall>st ts. length st + json_depth j \<le> max_nesting \<longrightarrow>
     parse_run st MVal (json_tokens j @ ts) = (case push_value j st of (st', m) \<Rightarrow> parse_run st' m ts))"

lemma parses_asD:
  "parses_as j \<Longrightarrow> length st + json_depth j \<le> max_nesting \<Longrightarrow>
   parse_run st MVal (json_tokens j @ ts) = (case push_value j st of (st', m) \<Rightarrow> parse_run st' m ts)"
  unfolding parses_as_def by blast

lemma parse_array_rest:
  assumes "\<forall>j \<in> set js. parses_as j \<and> Suc (length st) + json_depth j \<le> max_nesting"
  shows "parse_run (FArr acc # st) MAfter (concat (map (Cons TComma) (map json_tokens js)) @ TRBrack # ts)
    = (case push_value (JArr (rev acc @ js)) st of (st', m) \<Rightarrow> parse_run st' m ts)"
  using assms
proof (induction js arbitrary: acc)
  case (Cons j js)
  then have "parse_run (FArr acc # st) MVal (json_tokens j @ u) = parse_run (FArr (j # acc) # st) MAfter u" for u
    using parses_asD [of j "FArr acc # st"] by simp
  then show ?case using Cons by (simp add: o_def)
qed simp

lemma parse_object_rest:
  assumes "\<forall>(k, j) \<in> set kvs. parses_as j \<and> Suc (length st) + json_depth j \<le> max_nesting"
  shows "parse_run (FObj acc [] # st) MAfter
      (concat (map (Cons TComma) (map (\<lambda>(k, v). TStr k # TColon # json_tokens v) kvs)) @ TRBrace # ts)
    = (case push_value (JObj (rev acc @ kvs)) st of (st', m) \<Rightarrow> parse_run st' m ts)"
  using assms
proof (induction kvs arbitrary: acc)
  case (Cons kv kvs)
  obtain k j where kv: "kv = (k, j)" by (cases kv)
  with Cons.prems have "parse_run (FObj acc k # st) MVal (json_tokens j @ u) = parse_run (FObj ((k, j) # acc) [] # st) MAfter u" for u
    using parses_asD [of j "FObj acc k # st"] by simp
  then show ?case using Cons kv by (simp add: o_def)
qed simp

lemma depth_members:
  "x \<in> set xs \<Longrightarrow> json_depth x < json_depth (JArr xs)"
  "(k, v) \<in> set kvs \<Longrightarrow> json_depth v < json_depth (JObj kvs)"
  by (auto simp: less_Suc_eq_le intro!: Max_ge)

lemma json_parses_as: "json_ok j \<Longrightarrow> parses_as j"
proof (induction j)
  case (JArr xs)
  show ?case unfolding parses_as_def
  proof (intro allI impI)
    fix st :: "frame list" and ts assume d: "length st + json_depth (JArr xs) \<le> max_nesting"
    have each: "\<forall>j \<in> set xs. parses_as j \<and> Suc (length st) + json_depth j \<le> max_nesting"
      using JArr d depth_members(1) by fastforce
    show "parse_run st MVal (json_tokens (JArr xs) @ ts) =
        (case push_value (JArr xs) st of (st', m) \<Rightarrow> parse_run st' m ts)"
    proof (cases xs)
      case Nil
      with d show ?thesis by (simp add: value_step_def split: prod.splits)
    next
      case (Cons j js)
      have "parse_run (FArr [] # st) MArr0 (json_tokens j @ u) = parse_run (FArr [j] # st) MAfter u" for u
        using each Cons parses_asD [of j "FArr [] # st"] by (simp add: parse_first_element)
      then show ?thesis
        using d each Cons parse_array_rest [of js st "[j]" ts] by (simp add: value_step_def)
    qed
  qed
next
  case (JObj kvs)
  show ?case unfolding parses_as_def
  proof (intro allI impI)
    fix st :: "frame list" and ts assume d: "length st + json_depth (JObj kvs) \<le> max_nesting"
    have each: "\<forall>(k, j) \<in> set kvs. parses_as j \<and> Suc (length st) + json_depth j \<le> max_nesting"
      using JObj d depth_members(2) by (fastforce simp: snds.simps)
    show "parse_run st MVal (json_tokens (JObj kvs) @ ts) =
        (case push_value (JObj kvs) st of (st', m) \<Rightarrow> parse_run st' m ts)"
    proof (cases kvs)
      case Nil
      with d show ?thesis by (simp add: value_step_def split: prod.splits)
    next
      case (Cons kv rest)
      obtain k j where kv: "kv = (k, j)" by (cases kv)
      have "parse_run (FObj [] k # st) MVal (json_tokens j @ u) = parse_run (FObj [(k, j)] [] # st) MAfter u" for u
        using each Cons kv parses_asD [of j "FObj [] k # st"] by simp
      then show ?thesis
        using d each Cons kv parse_object_rest [of rest st "[(k, j)]" ts] by (simp add: value_step_def)
    qed
  qed
qed (auto simp: parses_as_def value_step_def split: prod.splits)

lemma json_parse_print:
  assumes "json_ok j" "json_depth j \<le> max_nesting"
  shows "json_parse (json_print j) = Some j"
proof -
  have "lex_run LIdle (json_print j) = Some (json_tokens j)"
    using lexes_asD [OF lexes_as_print [OF assms(1)], of LIdle "[]"] by simp
  moreover have "parse_run [] MVal (json_tokens j) = Some j"
    using parses_asD [OF json_parses_as [OF assms(1)], of "[]" "[]"] assms(2) by simp
  ultimately show ?thesis by (simp add: json_parse_def)
qed

end
