(* ===== verification/Circuit.thy ===== *)
theory Circuit
  imports Go_Float Fault
begin

unbundle bit_operations_syntax

text \<open>
  The admission controls of \<open>server.go\<close>: the token bucket behind the rate limit and the
  retry budget, the circuit breaker kept per provider, and the reading of a provider's
  \<open>Retry-After\<close>. A reading of the clock is an argument of the operation that makes it.
  The breaker is related to a specification over the list of outcomes it has seen
  (\<open>breaker\<close>); its clients use it through the locale \<open>gate\<close>.
\<close>

section \<open>The token bucket\<close>

record bucket =
  tokens :: rat
  last_fill :: instant
  rate :: rat
  burst :: rat

definition newBucket :: "instant \<Rightarrow> int \<Rightarrow> int \<Rightarrow> bucket" where
  "newBucket now r b =
     \<lparr>tokens = f64 (of_int b), last_fill = now, rate = f64 (of_int r), burst = f64 (of_int b)\<rparr>"

definition bucket_allow :: "instant \<Rightarrow> bucket \<Rightarrow> bool \<times> bucket" where
  "bucket_allow now b =
     (let t = min (burst b)
                (f64 (tokens b + f64 (duration_Seconds (time_sub now (last_fill b)) * rate b)));
          b = b\<lparr>tokens := t, last_fill := now\<rparr>
      in if t < 1 then (False, b)
         else (True, b\<lparr>tokens := f64 (t - 1)\<rparr>))"

section \<open>The circuit breaker\<close>

text \<open>\<open>until\<close> is \<open>None\<close> for Go's zero time.\<close>

record circuit =
  failures :: int
  until :: "instant option"
  probe :: bool
  recent :: "32 word"
  seen :: int

definition new_circuit :: circuit where
  "new_circuit = \<lparr>failures = 0, until = None, probe = False, recent = 0, seen = 0\<rparr>"

definition flapWindow :: nat where
  "flapWindow = 20"

definition flapFailures :: nat where
  "flapFailures = 8"

definition circuit_allow :: "instant \<Rightarrow> circuit \<Rightarrow> bool \<times> circuit" where
  "circuit_allow now c =
     (case until c of
        None \<Rightarrow> (True, c)
      | Some u \<Rightarrow>
          if now < u \<or> probe c then (False, c)
          else (True, c\<lparr>probe := True\<rparr>))"

definition circuit_wouldAllow :: "instant \<Rightarrow> circuit \<Rightarrow> bool" where
  "circuit_wouldAllow now c =
     (case until c of None \<Rightarrow> True | Some u \<Rightarrow> \<not> now < u \<and> \<not> probe c)"

definition OnesCount32 :: "32 word \<Rightarrow> nat" where
  "OnesCount32 w = length (filter (bit w) [0..<32])"

definition flapping :: "circuit \<Rightarrow> bool" where
  "flapping c =
     (if seen c < int flapWindow then False
      else flapFailures \<le> OnesCount32 (recent c AND (push_bit flapWindow 1 - 1)))"

definition circuit_result :: "instant \<Rightarrow> bool \<Rightarrow> circuit \<Rightarrow> circuit" where
  "circuit_result now failed c =
     (let recovered = probe c;
          c = c\<lparr>probe := False\<rparr>
      in if \<not> failed then
           (let c = c\<lparr>failures := 0, until := None\<rparr>
            in if recovered then c\<lparr>recent := 0, seen := 0\<rparr>
               else
                 (let c = c\<lparr>recent := push_bit 1 (recent c)\<rparr>
                  in if seen c < int flapWindow then c\<lparr>seen := seen c + 1\<rparr> else c))
         else
           (let c = c\<lparr>failures := failures c + 1\<rparr>;
                c = c\<lparr>recent := push_bit 1 (recent c) OR 1\<rparr>;
                c = (if seen c < int flapWindow then c\<lparr>seen := seen c + 1\<rparr> else c)
            in if 3 \<le> failures c \<or> flapping c then c\<lparr>until := Some (now + 15 * second)\<rparr> else c))"

definition circuit_release :: "circuit \<Rightarrow> circuit" where
  "circuit_release c = c\<lparr>probe := False\<rparr>"

definition circuit_cooldown :: "instant \<Rightarrow> duration \<Rightarrow> circuit \<Rightarrow> circuit" where
  "circuit_cooldown now d c =
     (let c = c\<lparr>probe := False\<rparr>;
          u = now + d
      in if (case until c of None \<Rightarrow> True | Some v \<Rightarrow> v < u) then c\<lparr>until := Some u\<rparr> else c)"

definition accountCooldown :: duration where
  "accountCooldown = 60 * second"

definition maxCooldown :: duration where
  "maxCooldown = 5 * minute"

section \<open>Retry-After\<close>

text \<open>\<open>parse_time\<close> stands for \<open>http.ParseTime\<close>.\<close>

definition retryAfter :: "(bytes \<Rightarrow> instant option) \<Rightarrow> instant \<Rightarrow> bytes \<Rightarrow> duration" where
  "retryAfter parse_time now h =
     (if h = [] then 0
      else
        case atoi (trim_space h) of
          Some n \<Rightarrow> if n \<le> 0 then 0 else min (wrap64 (n * second)) maxCooldown
        | None \<Rightarrow>
            (case parse_time h of
               Some t \<Rightarrow>
                 let d = time_sub t now
                 in if 0 < d then min d maxCooldown else 0
             | None \<Rightarrow> 0))"

section \<open>Lemmas: the bucket\<close>

definition bucket_ok :: "bucket \<Rightarrow> bool" where
  "bucket_ok b \<longleftrightarrow>
     0 \<le> tokens b \<and> tokens b \<le> burst b \<and> 0 \<le> rate b \<and>
     (\<exists>n. 1 \<le> n \<and> n \<le> 2 ^ 53 \<and> burst b = of_int n)"

lemma newBucket_ok:
  "0 \<le> r \<Longrightarrow> r \<le> 2 ^ 53 \<Longrightarrow> 1 \<le> b \<Longrightarrow> b \<le> 2 ^ 53 \<Longrightarrow> bucket_ok (newBucket now r b)"
  by (auto simp: bucket_ok_def newBucket_def f64_int)

text \<open>The level after the refill, before a token is taken.\<close>

definition refilled :: "instant \<Rightarrow> bucket \<Rightarrow> rat" where
  "refilled now b = min (burst b)
     (f64 (tokens b + f64 (duration_Seconds (time_sub now (last_fill b)) * rate b)))"

lemma bucket_allow_alt:
  "bucket_allow now b =
     (if refilled now b < 1 then (False, b\<lparr>tokens := refilled now b, last_fill := now\<rparr>)
      else (True, b\<lparr>tokens := f64 (refilled now b - 1), last_fill := now\<rparr>))"
  by (simp add: bucket_allow_def refilled_def Let_def)

lemma bucket_allow_frame:
  "rate (snd (bucket_allow now b)) = rate b" "burst (snd (bucket_allow now b)) = burst b"
  "last_fill (snd (bucket_allow now b)) = now"
  by (simp_all add: bucket_allow_alt)

lemma refilled_bounds:
  assumes "bucket_ok b" "last_fill b \<le> now"
  shows "0 \<le> refilled now b" "refilled now b \<le> burst b"
proof -
  have "0 \<le> time_sub now (last_fill b)"
    using assms(2) by (simp add: time_sub_def min_int64_def max_int64_def)
  then have "0 \<le> duration_Seconds (time_sub now (last_fill b))" by (rule duration_Seconds_nonneg)
  then have "0 \<le> tokens b + f64 (duration_Seconds (time_sub now (last_fill b)) * rate b)"
    using assms(1) by (auto simp: bucket_ok_def intro!: f64.rnd_nonneg add_nonneg_nonneg)
  then show "0 \<le> refilled now b"
    using assms(1) f64.rnd_nonneg by (auto simp: refilled_def bucket_ok_def)
  show "refilled now b \<le> burst b" by (simp add: refilled_def)
qed

lemma bucket_allow_ok [store_inv]:
  assumes "bucket_ok b" "last_fill b \<le> now"
  shows "bucket_ok (snd (bucket_allow now b))"
proof -
  note r = refilled_bounds [OF assms]
  obtain n where n: "1 \<le> n" "n \<le> 2 ^ 53" "burst b = of_int n" using assms(1) by (auto simp: bucket_ok_def)
  have "f64 (refilled now b - 1) \<le> of_int n"
    using r n by (intro f64.rnd_le_int) auto
  moreover have "0 \<le> f64 (refilled now b - 1)" if "1 \<le> refilled now b"
    using that by (intro f64.rnd_nonneg) simp
  ultimately show ?thesis
    using assms(1) r n by (auto simp: bucket_ok_def bucket_allow_alt)
qed

text \<open>A run of calls at given readings of the clock: how many were admitted.\<close>

fun bucket_admits :: "instant list \<Rightarrow> bucket \<Rightarrow> nat" where
  "bucket_admits [] b = 0"
| "bucket_admits (t # ts) b =
     (let (ok, b') = bucket_allow t b in (if ok then 1 else 0) + bucket_admits ts b')"

lemma refilled_same_instant:
  assumes "bucket_ok b" "tokens b \<le> of_int k" "0 \<le> k" "k \<le> 2 ^ 53" "last_fill b = t"
  shows "refilled t b \<le> of_int k"
proof -
  have "f64 (tokens b + f64 (duration_Seconds (time_sub t (last_fill b)) * rate b)) = f64 (tokens b)"
    using assms(5) by (simp add: time_sub_def min_int64_def max_int64_def duration_Seconds_0 f64_def)
  also have "\<dots> \<le> of_int k" using assms(2-4) by (intro f64.rnd_le_int) auto
  finally show ?thesis by (auto simp: refilled_def)
qed

lemma bucket_admits_instant:
  assumes "bucket_ok b" "tokens b \<le> of_int k" "0 \<le> k" "k \<le> 2 ^ 53" "last_fill b = t"
  shows "int (bucket_admits (replicate m t) b) \<le> k"
  using assms
proof (induction m arbitrary: b k)
  case (Suc m)
  let ?b = "snd (bucket_allow t b)"
  note r = refilled_same_instant [OF Suc.prems]
  have ok: "bucket_ok ?b" using Suc.prems by (intro bucket_allow_ok) auto
  have last: "last_fill ?b = t" by (simp add: bucket_allow_frame)
  show ?case
  proof (cases "refilled t b < 1")
    case True
    then have "tokens ?b \<le> of_int k" using r by (simp add: bucket_allow_alt)
    then have "int (bucket_admits (replicate m t) ?b) \<le> k" using Suc ok last by blast
    with True show ?thesis by (simp add: bucket_allow_alt)
  next
    case False
    then have "(1::rat) \<le> of_int k" using r by linarith
    then have k: "1 \<le> k" by simp
    have "f64 (refilled t b - 1) \<le> of_int (k - 1)"
      using r k Suc.prems(4) by (intro f64.rnd_le_int) auto
    then have "tokens ?b \<le> of_int (k - 1)" using False by (simp add: bucket_allow_alt)
    then have "int (bucket_admits (replicate m t) ?b) \<le> k - 1"
      using Suc.IH [OF ok, of "k - 1"] k Suc.prems(4) last by simp
    with False show ?thesis by (simp add: bucket_allow_alt)
  qed
qed simp

lemma refilled_after_second:
  assumes "bucket_ok b" "1 \<le> rate b" "last_fill b + second \<le> now" "now \<le> last_fill b + max_int64"
  shows "1 \<le> refilled now b"
proof -
  define d where "d = time_sub now (last_fill b)"
  have d: "second \<le> d" "d \<le> max_int64" using assms(3,4) by (auto simp: d_def time_sub_def go_time_defs)
  define sec nsec where "sec = sgn d * (\<bar>d\<bar> div second)" and "nsec = d - sec * second"
  have pos: "0 < d" using d(1) by (simp add: second_def)
  then have sec: "sec = d div second" by (simp add: sec_def)
  have "1 \<le> sec" "sec \<le> 2 ^ 53" unfolding sec using d by (simp_all add: go_time_defs)
  moreover have "0 \<le> nsec" unfolding nsec_def sec by (simp add: second_def minus_div_mult_eq_mod)
  ultimately have "1 \<le> f64 (of_int sec) + f64 (f64 (of_int nsec) / 1000000000)"
    using f64_int [of sec] by (intro add_increasing2) (auto intro!: f64.rnd_nonneg divide_nonneg_nonneg)
  then have "1 \<le> duration_Seconds d"
    unfolding duration_Seconds_def Let_def sec_def [symmetric] nsec_def [symmetric]
    using f64.int_le_rnd [of 1] by simp
  then have "1 \<le> duration_Seconds d * rate b"
    using assms(2) mult_mono [of 1 "duration_Seconds d" 1 "rate b"] by simp
  then have "1 \<le> f64 (duration_Seconds d * rate b)" using f64.int_le_rnd [of 1] by simp
  then have "1 \<le> tokens b + f64 (duration_Seconds d * rate b)"
    using assms(1) by (auto simp: bucket_ok_def)
  then have "1 \<le> f64 (tokens b + f64 (duration_Seconds d * rate b))"
    using f64.int_le_rnd [of 1] by simp
  then show ?thesis using assms(1) by (auto simp: refilled_def d_def bucket_ok_def)
qed

section \<open>Lemmas: the breaker as a gate\<close>

text \<open>
  What the routing loop relies on. \<open>pending\<close> says that a half-open probe is out,
  \<open>blocked\<close> is the instant an open circuit waits for.
\<close>

locale gate =
  fixes allow :: "instant \<Rightarrow> 'g \<Rightarrow> bool \<times> 'g"
    and would :: "instant \<Rightarrow> 'g \<Rightarrow> bool"
    and result :: "instant \<Rightarrow> bool \<Rightarrow> 'g \<Rightarrow> 'g"
    and release :: "'g \<Rightarrow> 'g"
    and cooldown :: "instant \<Rightarrow> duration \<Rightarrow> 'g \<Rightarrow> 'g"
    and pending :: "'g \<Rightarrow> bool"
    and blocked :: "'g \<Rightarrow> instant option"
  assumes would_allow: "would now g = fst (allow now g)"
    and allow_blocked: "blocked (snd (allow now g)) = blocked g"
    and allow_pending: "pending (snd (allow now g)) \<longleftrightarrow> pending g \<or> fst (allow now g) \<and> blocked g \<noteq> None"
    and allow_refused: "\<not> fst (allow now g) \<Longrightarrow> snd (allow now g) = g"
    and admits_iff: "fst (allow now g) \<longleftrightarrow>
      (case blocked g of None \<Rightarrow> True | Some u \<Rightarrow> u \<le> now \<and> \<not> pending g)"
    and report_pending: "\<not> pending (result now f g)" "\<not> pending (release g)" "\<not> pending (cooldown now d g)"
    and success_closes: "blocked (result now False g) = None"
    and release_blocked: "blocked (release g) = blocked g"
    and cooldown_blocked: "blocked (cooldown now d g) =
      Some (case blocked g of None \<Rightarrow> now + d | Some u \<Rightarrow> max u (now + d))"
begin

fun answers :: "instant list \<Rightarrow> 'g \<Rightarrow> bool list" where
  "answers [] g = []"
| "answers (t # ts) g = fst (allow t g) # answers ts (snd (allow t g))"

lemma pending_refuses_all:
  "pending g \<Longrightarrow> blocked g \<noteq> None \<Longrightarrow> answers ts g = replicate (length ts) False"
proof (induction ts arbitrary: g)
  case (Cons t ts)
  then have no: "\<not> fst (allow t g)" by (auto simp: admits_iff)
  with Cons show ?case by (simp add: allow_refused [OF no])
qed simp

text \<open>An open gate lets at most one request through until that request has reported.\<close>

lemma half_open_single:
  assumes "blocked g \<noteq> None"
  shows "length (filter id (answers ts g)) \<le> 1"
  using assms
proof (induction ts arbitrary: g)
  case (Cons t ts)
  show ?case
  proof (cases "fst (allow t g)")
    case True
    then have "pending (snd (allow t g))" "blocked (snd (allow t g)) \<noteq> None"
      using Cons.prems by (auto simp: allow_pending allow_blocked)
    then show ?thesis using True by (simp add: pending_refuses_all)
  next
    case False
    then show ?thesis using Cons by (simp add: allow_refused)
  qed
qed simp

lemma reopens: "\<not> pending g \<Longrightarrow> \<exists>t. \<forall>now \<ge> t. fst (allow now g)"
  by (cases "blocked g") (auto simp: admits_iff)

lemma allow_pending_admitted: "pending (snd (allow now g)) \<Longrightarrow> pending g \<or> fst (allow now g)"
  by (auto simp: allow_pending)

end

lemma circuit_wouldAllow_eq: "circuit_wouldAllow now c = fst (circuit_allow now c)"
  by (auto simp: circuit_wouldAllow_def circuit_allow_def split: option.splits)

lemma circuit_result_fields:
  "probe (circuit_result now f c) = False"
  "until (circuit_result now False c) = None"
  "until (circuit_result now True c) = Some (now + 15 * second) \<or>
   until (circuit_result now True c) = until c"
  by (auto simp: circuit_result_def Let_def)

lemma circuit_cooldown_fields:
  "probe (circuit_cooldown now d c) = False"
  "failures (circuit_cooldown now d c) = failures c"
  "recent (circuit_cooldown now d c) = recent c"
  "seen (circuit_cooldown now d c) = seen c"
  "until (circuit_cooldown now d c) =
     Some (case until c of None \<Rightarrow> now + d | Some u \<Rightarrow> max u (now + d))"
  by (auto simp: circuit_cooldown_def Let_def max_def split: option.splits)

interpretation circuit: gate circuit_allow circuit_wouldAllow circuit_result circuit_release circuit_cooldown probe until
  by unfold_locales
    (auto simp: circuit_wouldAllow_eq circuit_allow_def circuit_release_def
      circuit_result_fields circuit_cooldown_fields split: option.splits)

section \<open>Lemmas: the breaker against its specification\<close>

text \<open>
  The specification remembers the outcomes themselves, newest first, instead of a counter
  and a bit window. An outcome is \<open>True\<close> for a failure.
\<close>

record breaker =
  hist :: "bool list"
  open_until :: "instant option"
  probing :: bool

definition tripped :: "bool list \<Rightarrow> bool" where
  "tripped h \<longleftrightarrow> 3 \<le> length (takeWhile id h) \<or>
     flapWindow \<le> length h \<and> flapFailures \<le> length (filter id (take flapWindow h))"

definition breaker_allow :: "instant \<Rightarrow> breaker \<Rightarrow> bool \<times> breaker" where
  "breaker_allow now s =
     (case open_until s of
        None \<Rightarrow> (True, s)
      | Some u \<Rightarrow> if u \<le> now \<and> \<not> probing s then (True, s\<lparr>probing := True\<rparr>) else (False, s))"

definition breaker_result :: "instant \<Rightarrow> bool \<Rightarrow> breaker \<Rightarrow> breaker" where
  "breaker_result now failed s =
     (if failed then
        \<lparr>hist = True # hist s,
         open_until = (if tripped (True # hist s) then Some (now + 15 * second) else open_until s),
         probing = False\<rparr>
      else \<lparr>hist = (if probing s then [] else False # hist s), open_until = None, probing = False\<rparr>)"

definition breaker_release :: "breaker \<Rightarrow> breaker" where
  "breaker_release s = s\<lparr>probing := False\<rparr>"

definition breaker_cooldown :: "instant \<Rightarrow> duration \<Rightarrow> breaker \<Rightarrow> breaker" where
  "breaker_cooldown now d s =
     s\<lparr>probing := False,
       open_until := Some (case open_until s of None \<Rightarrow> now + d | Some u \<Rightarrow> max u (now + d))\<rparr>"

interpretation breaker: gate breaker_allow "\<lambda>now s. fst (breaker_allow now s)" breaker_result
    breaker_release breaker_cooldown probing open_until
  by unfold_locales
    (auto simp: breaker_allow_def breaker_result_def breaker_release_def breaker_cooldown_def
      split: option.splits)

definition represents :: "circuit \<Rightarrow> breaker \<Rightarrow> bool" where
  "represents c s \<longleftrightarrow>
     until c = open_until s \<and> probe c = probing s \<and>
     failures c = int (length (takeWhile id (hist s))) \<and>
     seen c = int (min flapWindow (length (hist s))) \<and>
     (\<forall>i < flapWindow. bit (recent c) i \<longleftrightarrow> i < length (hist s) \<and> hist s ! i)"

lemma bit_window_mask:
  "i < 32 \<Longrightarrow> bit ((w::32 word) AND (push_bit flapWindow 1 - 1)) i \<longleftrightarrow> i < flapWindow \<and> bit w i"
proof -
  assume "i < 32"
  have "(push_bit flapWindow 1 - 1 :: 32 word) = mask flapWindow"
    by (simp add: mask_eq_exp_minus_1 push_bit_eq_mult)
  then show ?thesis using \<open>i < 32\<close> by (auto simp only: bit_and_iff bit_mask_iff) simp
qed

lemma window_le: "flapWindow \<le> 32"
  by (simp add: flapWindow_def)

lemma count_window:
  assumes "flapWindow \<le> length h" "\<forall>i < flapWindow. bit (w::32 word) i \<longleftrightarrow> h ! i"
  shows "OnesCount32 (w AND (push_bit flapWindow 1 - 1)) = length (filter id (take flapWindow h))"
proof -
  have split: "[0..<32] = [0..<flapWindow] @ [flapWindow..<32]"
    using upt_add_eq_append [of 0 flapWindow 12] by (simp add: flapWindow_def)
  have "filter (bit (w AND (push_bit flapWindow 1 - 1))) [0..<32] = filter (\<lambda>i. h ! i) [0..<flapWindow]"
  proof -
    have "filter (bit (w AND (push_bit flapWindow 1 - 1))) [0..<flapWindow] = filter (\<lambda>i. h ! i) [0..<flapWindow]"
      using assms(2) less_le_trans [OF _ window_le] by (intro filter_cong) (auto simp only: bit_window_mask set_upt atLeastLessThan_iff)
    moreover have "filter (bit (w AND (push_bit flapWindow 1 - 1))) [flapWindow..<32] = []"
      by (auto simp only: filter_empty_conv bit_window_mask set_upt atLeastLessThan_iff)
    ultimately show ?thesis by (simp add: split)
  qed
  moreover have "take flapWindow h = map ((!) h) [0..<flapWindow]"
    using assms(1) by (intro nth_equalityI) auto
  ultimately show ?thesis by (simp add: OnesCount32_def filter_map o_def)
qed

lemma represents_flapping:
  assumes "represents c s"
  shows "flapping c \<longleftrightarrow> flapWindow \<le> length (hist s) \<and> flapFailures \<le> length (filter id (take flapWindow (hist s)))"
proof (cases "flapWindow \<le> length (hist s)")
  case True
  then have "seen c = int flapWindow" "\<forall>i < flapWindow. bit (recent c) i \<longleftrightarrow> hist s ! i"
    using assms by (auto simp: represents_def)
  with True show ?thesis
    unfolding flapping_def by (simp only: count_window if_False less_irrefl simp_thms)
next
  case False
  with assms show ?thesis by (auto simp: represents_def flapping_def)
qed

lemma bit_shift_in:
  assumes "i < flapWindow"
  shows "bit (push_bit 1 (w::32 word)) i \<longleftrightarrow> (case i of 0 \<Rightarrow> False | Suc j \<Rightarrow> bit w j)"
    "bit (push_bit 1 (w::32 word) OR 1) i \<longleftrightarrow> (case i of 0 \<Rightarrow> True | Suc j \<Rightarrow> bit w j)"
proof -
  have "i < 32" using assms by (simp add: flapWindow_def)
  then show "bit (push_bit 1 w) i \<longleftrightarrow> (case i of 0 \<Rightarrow> False | Suc j \<Rightarrow> bit w j)"
    by (cases i) (simp_all only: bit_push_bit_iff nat.case, simp_all)
  with \<open>i < 32\<close> show "bit (push_bit 1 w OR 1) i \<longleftrightarrow> (case i of 0 \<Rightarrow> True | Suc j \<Rightarrow> bit w j)"
    by (cases i) (simp_all only: bit_or_iff bit_1_iff nat.case, simp_all)
qed

lemma window_shift:
  assumes "\<forall>i < flapWindow. bit (w::32 word) i \<longleftrightarrow> i < length h \<and> h ! i"
  shows "\<forall>i < flapWindow. bit (push_bit 1 w) i \<longleftrightarrow> i < length (False # h) \<and> (False # h) ! i"
    "\<forall>i < flapWindow. bit (push_bit 1 w OR 1) i \<longleftrightarrow> i < length (True # h) \<and> (True # h) ! i"
  using assms by (auto simp only: bit_shift_in split: nat.splits) (auto simp: Suc_lessD)

definition fail_counted :: "circuit \<Rightarrow> circuit" where
  "fail_counted c =
     c\<lparr>probe := False, failures := failures c + 1, recent := push_bit 1 (recent c) OR 1,
       seen := (if seen c < int flapWindow then seen c + 1 else seen c)\<rparr>"

lemma circuit_result_failed:
  "circuit_result now True c =
     (if 3 \<le> failures (fail_counted c) \<or> flapping (fail_counted c)
      then (fail_counted c)\<lparr>until := Some (now + 15 * second)\<rparr> else fail_counted c)"
  by (simp add: circuit_result_def fail_counted_def Let_def)

lemma represents_fail_counted:
  assumes "represents c s"
  shows "represents (fail_counted c) (s\<lparr>hist := True # hist s, probing := False\<rparr>)"
  using assms window_shift(2) [of "recent c" "hist s"]
  by (auto simp: represents_def fail_counted_def)

lemma sim_result:
  assumes "represents c s"
  shows "represents (circuit_result now failed c) (breaker_result now failed s)"
proof (cases failed)
  case True
  let ?s = "s\<lparr>hist := True # hist s, probing := False\<rparr>"
  note rep = represents_fail_counted [OF assms]
  have "(3 \<le> failures (fail_counted c) \<or> flapping (fail_counted c)) = tripped (True # hist s)"
    using rep represents_flapping [OF rep] by (simp add: tripped_def represents_def)
  with True rep show ?thesis
    by (auto simp: circuit_result_failed breaker_result_def represents_def)
next
  case False
  then show ?thesis
    using assms window_shift(1) [of "recent c" "hist s"]
    by (auto simp: circuit_result_def breaker_result_def represents_def Let_def flapWindow_def)
qed

lemma sim_allow:
  assumes "represents c s"
  shows "fst (circuit_allow now c) = fst (breaker_allow now s)"
    "represents (snd (circuit_allow now c)) (snd (breaker_allow now s))"
  using assms by (auto simp: represents_def circuit_allow_def breaker_allow_def split: option.splits)

lemma sim_release: "represents c s \<Longrightarrow> represents (circuit_release c) (breaker_release s)"
  by (simp add: represents_def circuit_release_def breaker_release_def)

lemma sim_cooldown: "represents c s \<Longrightarrow> represents (circuit_cooldown now d c) (breaker_cooldown now d s)"
  by (auto simp: represents_def circuit_cooldown_fields breaker_cooldown_def)

text \<open>A history of calls on one breaker, and the answers \<open>allow\<close> gave along it.\<close>

datatype gate_call = CAllow instant | CResult instant bool | CRelease | CCooldown instant duration

fun circuit_answers :: "gate_call list \<Rightarrow> circuit \<Rightarrow> bool list" where
  "circuit_answers [] c = []"
| "circuit_answers (CAllow now # cs) c = fst (circuit_allow now c) # circuit_answers cs (snd (circuit_allow now c))"
| "circuit_answers (CResult now f # cs) c = circuit_answers cs (circuit_result now f c)"
| "circuit_answers (CRelease # cs) c = circuit_answers cs (circuit_release c)"
| "circuit_answers (CCooldown now d # cs) c = circuit_answers cs (circuit_cooldown now d c)"

fun breaker_answers :: "gate_call list \<Rightarrow> breaker \<Rightarrow> bool list" where
  "breaker_answers [] s = []"
| "breaker_answers (CAllow now # cs) s = fst (breaker_allow now s) # breaker_answers cs (snd (breaker_allow now s))"
| "breaker_answers (CResult now f # cs) s = breaker_answers cs (breaker_result now f s)"
| "breaker_answers (CRelease # cs) s = breaker_answers cs (breaker_release s)"
| "breaker_answers (CCooldown now d # cs) s = breaker_answers cs (breaker_cooldown now d s)"

lemma circuit_answers_allow: "circuit_answers (map CAllow ts) c = circuit.answers ts c"
  by (induction ts arbitrary: c) simp_all

lemma answers_represent: "represents c s \<Longrightarrow> circuit_answers cs c = breaker_answers cs s"
proof (induction cs arbitrary: c s)
  case (Cons x cs)
  then show ?case
    by (cases x) (auto simp: sim_allow sim_result sim_release sim_cooldown)
qed simp

lemma represents_new: "represents new_circuit \<lparr>hist = [], open_until = None, probing = False\<rparr>"
  by (simp add: represents_def new_circuit_def)

lemma three_failures_open:
  assumes "0 \<le> failures c"
  shows "until (circuit_result t3 True (circuit_result t2 True (circuit_result t1 True c))) = Some (t3 + 15 * second)"
proof -
  have "failures (circuit_result t True d) = failures d + 1" for t d
    by (simp add: circuit_result_failed fail_counted_def)
  then have "3 \<le> failures (fail_counted (circuit_result t2 True (circuit_result t1 True c)))"
    using assms by (simp add: fail_counted_def)
  then show ?thesis by (subst circuit_result_failed) simp
qed

section \<open>Lemmas: Retry-After\<close>

lemma retryAfter_le: "retryAfter pt now h \<le> maxCooldown"
  by (auto simp: retryAfter_def maxCooldown_def go_time_defs Let_def split: option.splits)

lemma retryAfter_seconds:
  assumes "atoi (trim_space h) = Some n" "0 < n" "n \<le> 9223372036"
  shows "retryAfter pt now h = min (n * second) maxCooldown"
proof -
  have "trim_space [] = []" using trim_space_length [of "[]"] by simp
  then have "h \<noteq> []" using assms(1) by (auto simp: atoi_def)
  moreover have "wrap64 (n * second) = n * second"
    using assms by (intro wrap64_id) (auto simp: go_time_defs)
  ultimately show ?thesis using assms by (simp add: retryAfter_def)
qed

lemma retryAfter_overflow: "retryAfter pt now ''9223372037'' < 0"
proof -
  have "atoi (trim_space ''9223372037'') = Some 9223372037" by code_simp
  then show ?thesis by (simp add: retryAfter_def wrap64_def go_time_defs maxCooldown_def)
qed

end
