(* ===== verification/Encoding.thy ===== *)
theory Encoding
  imports Gateway_Prelude
begin

text \<open>
  The name patterns the gateway compiles (\<open>identifier\<close> in \<open>policy.go\<close>, \<open>headerName\<close> in
  \<open>config.go\<close>, \<open>productCodePattern\<close> in \<open>marketplace.go\<close>, \<open>requestID\<close> in
  \<open>capture.go\<close>), hexadecimal text, and \<open>base64.StdEncoding\<close> with and without
  \<open>Strict\<close>. The decoder follows the library: carriage returns and line feeds are skipped
  anywhere, a failing quantum ends the output before it. Strict decoding accepts exactly
  the encoder's output, up to those skipped bytes.
\<close>

section \<open>Patterns\<close>

definition identifier_char :: "char \<Rightarrow> bool" where
  "identifier_char c \<longleftrightarrow> is_alnum c \<or> c \<in> set ''_.:-''"

definition identifier_matches :: "bytes \<Rightarrow> bool" where
  "identifier_matches s = (case s of [] \<Rightarrow> False | c # cs \<Rightarrow> is_alnum c \<and> length cs \<le> 127 \<and> list_all identifier_char cs)"

definition headerName :: "bytes \<Rightarrow> bool" where
  "headerName s \<longleftrightarrow> s \<noteq> [] \<and>
     list_all (\<lambda>c. is_alnum c \<or> c \<in> set (''!#$%&*+-.^_|~'' @ [CHR 0x27, CHR 0x60])) s"

definition productCodePattern :: "bytes \<Rightarrow> bool" where
  "productCodePattern s \<longleftrightarrow> 1 \<le> length s \<and> length s \<le> 255 \<and>
     list_all (\<lambda>c. is_alnum c \<or> c \<in> set ''-/=:_.@'') s"

definition requestID :: "bytes \<Rightarrow> bool" where
  "requestID s \<longleftrightarrow> length s = 32 \<and>
     list_all (\<lambda>c. is_digit c \<or> 97 \<le> byte_nat c \<and> byte_nat c \<le> 102) s"

section \<open>Hexadecimal\<close>

definition hex_nibble :: "nat \<Rightarrow> char" where
  "hex_nibble n = (if n < 10 then char_of (48 + n) else char_of (87 + n))"

text \<open>\<open>hex.EncodeToString\<close>.\<close>

definition hex_encode :: "bytes \<Rightarrow> bytes" where
  "hex_encode b = concat (map (\<lambda>c. [hex_nibble (byte_nat c div 16), hex_nibble (byte_nat c mod 16)]) b)"

section \<open>Base64\<close>

definition b64_char :: "nat \<Rightarrow> char" where
  "b64_char v =
     (if v < 26 then char_of (65 + v) else if v < 52 then char_of (71 + v)
      else if v < 62 then char_of (v - 4) else if v = 62 then CHR ''+'' else CHR ''/'')"

definition b64_val :: "char \<Rightarrow> nat option" where
  "b64_val c =
     (let x = byte_nat c in
      if is_upper c then Some (x - 65) else if is_lower c then Some (x - 71)
      else if is_digit c then Some (x + 4)
      else if c = CHR ''+'' then Some 62 else if c = CHR ''/'' then Some 63 else None)"

fun b64_encode :: "bytes \<Rightarrow> bytes" where
  "b64_encode [] = []"
| "b64_encode [x] =
     [b64_char (byte_nat x div 4), b64_char (byte_nat x mod 4 * 16), CHR ''='', CHR ''='']"
| "b64_encode [x, y] =
     [b64_char (byte_nat x div 4), b64_char (byte_nat x mod 4 * 16 + byte_nat y div 16),
      b64_char (byte_nat y mod 16 * 4), CHR ''='']"
| "b64_encode (x # y # z # r) =
     b64_char (byte_nat x div 4) # b64_char (byte_nat x mod 4 * 16 + byte_nat y div 16) #
     b64_char (byte_nat y mod 16 * 4 + byte_nat z div 64) # b64_char (byte_nat z mod 64) # b64_encode r"

text \<open>The decoded bytes and whether the whole text was decoded.\<close>

fun b64_quanta :: "bool \<Rightarrow> bytes \<Rightarrow> bytes \<times> bool" where
  "b64_quanta strict [] = ([], True)"
| "b64_quanta strict (c1 # c2 # c3 # c4 # r) =
     (case (b64_val c1, b64_val c2) of
        (Some a, Some b) \<Rightarrow>
          (case b64_val c3 of
             Some c \<Rightarrow>
               (case b64_val c4 of
                  Some d \<Rightarrow>
                    (let (out, ok) = b64_quanta strict r
                     in (char_of (a * 4 + b div 16) # char_of (b mod 16 * 16 + c div 4) #
                         char_of (c mod 4 * 64 + d) # out, ok))
                | None \<Rightarrow>
                    if c4 = CHR ''='' \<and> \<not> (strict \<and> c mod 4 \<noteq> 0)
                    then ([char_of (a * 4 + b div 16), char_of (b mod 16 * 16 + c div 4)], r = [])
                    else ([], False))
           | None \<Rightarrow>
               if c3 = CHR ''='' \<and> c4 = CHR ''='' \<and> \<not> (strict \<and> b mod 16 \<noteq> 0)
               then ([char_of (a * 4 + b div 16)], r = [])
               else ([], False))
      | _ \<Rightarrow> ([], False))"
| "b64_quanta strict _ = ([], False)"

definition b64_decode :: "bool \<Rightarrow> bytes \<Rightarrow> bytes \<times> bool" where
  "b64_decode strict s = b64_quanta strict (filter (\<lambda>c. c \<noteq> CHR 10 \<and> c \<noteq> CHR 13) s)"

definition b64_strict :: "bytes \<Rightarrow> bytes option" where
  "b64_strict s = (let (out, ok) = b64_decode True s in if ok then Some out else None)"

section \<open>Lemmas\<close>

lemma byte_parts: "byte_nat c div 4 < 64" "byte_nat c div 16 < 16" "byte_nat c div 64 < 4"
  using byte_lt [of c] by (simp_all add: less_mult_imp_div_less)

lemma b64_val_char: "v < 64 \<Longrightarrow> b64_val (b64_char v) = Some v"
  by (auto simp: b64_char_def b64_val_def is_upper_def is_lower_def is_digit_def Let_def char_of_eq)

lemma b64_val_lt: "b64_val c = Some v \<Longrightarrow> v < 64"
  by (auto simp: b64_val_def is_upper_def is_lower_def is_digit_def Let_def split: if_splits)

lemma b64_char_val: "b64_val c = Some v \<Longrightarrow> b64_char v = c"
  by (auto simp: b64_val_def b64_char_def is_upper_def is_lower_def is_digit_def Let_def split: if_splits)

lemma b64_val_pad: "b64_val (CHR ''='') = None"
  by (simp add: b64_val_def is_upper_def is_lower_def is_digit_def)

lemma b64_val_newline: "b64_val c = Some v \<Longrightarrow> c \<noteq> CHR 10 \<and> c \<noteq> CHR 13"
  by (auto simp: b64_val_def is_upper_def is_lower_def is_digit_def Let_def split: if_splits)

text \<open>What the sextets of the bytes \<open>x\<close>, \<open>y\<close>, \<open>z\<close> join to.\<close>

lemma join_first: "(x::nat) < 256 \<Longrightarrow> y < 256 \<Longrightarrow> x div 4 * 4 + (x mod 4 * 16 + y div 16) div 16 = x"
  by (simp add: div_mult_mod_eq)

lemma join_second: "(y::nat) < 256 \<Longrightarrow> z < 256 \<Longrightarrow> (x mod 4 * 16 + y div 16) mod 16 * 16 + (y mod 16 * 4 + z div 64) div 4 = y"
  by (simp add: div_mult_mod_eq)

lemma join_third: "(z::nat) < 256 \<Longrightarrow> (y mod 16 * 4 + z div 64) mod 4 * 64 + z mod 64 = z"
  by (simp add: div_mult_mod_eq)

lemma sextets:
  "byte_nat x mod 4 * 16 + byte_nat y div 16 < 64" "byte_nat y mod 16 * 4 + byte_nat z div 64 < 64"
  "byte_nat x mod 4 * 16 < 64" "byte_nat y mod 16 * 4 < 64" "byte_nat z mod 64 < 64"
proof -
  have "byte_nat x mod 4 \<le> 3" "byte_nat y mod 16 \<le> 15" by simp_all
  with byte_parts(2) [of y] byte_parts(3) [of z]
  show "byte_nat x mod 4 * 16 + byte_nat y div 16 < 64" "byte_nat y mod 16 * 4 + byte_nat z div 64 < 64"
    "byte_nat x mod 4 * 16 < 64" "byte_nat y mod 16 * 4 < 64" "byte_nat z mod 64 < 64" by linarith+
qed

lemma b64_roundtrip: "b64_quanta strict (b64_encode b) = (b, True)"
proof (induction b rule: b64_encode.induct)
  case (2 x)
  then show ?case by (simp add: b64_val_char b64_val_pad byte_parts sextets)
next
  case (3 x y)
  then show ?case
    using join_first [of "byte_nat x" "byte_nat y"] join_second [of "byte_nat y" 0 "byte_nat x"]
    by (simp add: b64_val_char b64_val_pad byte_parts sextets byte_lt del: div_mult_self1 mod_mult_self1)
next
  case (4 x y z r)
  then show ?case
    using join_first [of "byte_nat x" "byte_nat y"] join_second [of "byte_nat y" "byte_nat z" "byte_nat x"]
      join_third [of "byte_nat z" "byte_nat y"]
    by (simp add: b64_val_char byte_parts sextets byte_lt)
qed simp

text \<open>And back: which sextets the joined bytes split into.\<close>

lemma split_sextets:
  assumes "a < 64" "b < 64" "c < 64" "d < (64::nat)"
  shows "a * 4 + b div 16 < 256" "(a * 4 + b div 16) div 4 = a" "(a * 4 + b div 16) mod 4 * 16 = b div 16 * 16"
    "b mod 16 * 16 + c div 4 < 256" "(b mod 16 * 16 + c div 4) div 16 = b mod 16"
    "(b mod 16 * 16 + c div 4) mod 16 * 4 = c div 4 * 4"
    "c mod 4 * 64 + d < 256" "(c mod 4 * 64 + d) div 64 = c mod 4" "(c mod 4 * 64 + d) mod 64 = d"
proof -
  have "b div 16 < 4" "c div 4 < 16" using assms by (simp_all add: less_mult_imp_div_less)
  moreover have "b mod 16 \<le> 15" "c mod 4 \<le> 3" by simp_all
  ultimately show "a * 4 + b div 16 < 256" "(a * 4 + b div 16) div 4 = a"
    "(a * 4 + b div 16) mod 4 * 16 = b div 16 * 16"
    "b mod 16 * 16 + c div 4 < 256" "(b mod 16 * 16 + c div 4) div 16 = b mod 16"
    "(b mod 16 * 16 + c div 4) mod 16 * 4 = c div 4 * 4"
    "c mod 4 * 64 + d < 256" "(c mod 4 * 64 + d) div 64 = c mod 4" "(c mod 4 * 64 + d) mod 64 = d"
    using assms by simp_all
qed

lemma b64_quanta_encode: "b64_quanta True s = (out, True) \<Longrightarrow> s = b64_encode out"
proof (induction True s arbitrary: out rule: b64_quanta.induct)
  case (2 c1 c2 c3 c4 r)
  then obtain a b where ab: "b64_val c1 = Some a" "b64_val c2 = Some b"
    by (auto split: option.splits)
  note cc = b64_char_val [OF ab(1)] b64_char_val [OF ab(2)]
  note lt = b64_val_lt [OF ab(1)] b64_val_lt [OF ab(2)]
  show ?case
  proof (cases "b64_val c3")
    case None
    with "2.prems" ab have "c3 = CHR ''=''" "c4 = CHR ''=''" "b mod 16 = 0" "r = []"
      "out = [char_of (a * 4 + b div 16)]" by (auto split: if_splits)
    then show ?thesis using cc split_sextets(1-3) [OF lt, of 0 0] div_mult_mod_eq [of b 16] by simp
  next
    case (Some c)
    note c = b64_char_val [OF Some] b64_val_lt [OF Some]
    show ?thesis
    proof (cases "b64_val c4")
      case None
      with "2.prems" ab Some have "c4 = CHR ''=''" "c mod 4 = 0" "r = []"
        "out = [char_of (a * 4 + b div 16), char_of (b mod 16 * 16 + c div 4)]" by (auto split: if_splits)
      then show ?thesis
        using cc c split_sextets(1-6) [OF lt c(2), of 0] div_mult_mod_eq [of b 16] div_mult_mod_eq [of c 4] by simp
    next
      case (Some d)
      note d = b64_char_val [OF Some] b64_val_lt [OF Some]
      obtain out' ok where q: "b64_quanta True r = (out', ok)" by fastforce
      with "2.prems" ab \<open>b64_val c3 = Some c\<close> Some have ok: "ok"
        and out: "out = char_of (a * 4 + b div 16) # char_of (b mod 16 * 16 + c div 4) # char_of (c mod 4 * 64 + d) # out'"
        by auto
      have "r = b64_encode out'" using "2.hyps" ab \<open>b64_val c3 = Some c\<close> Some q ok by simp
      then show ?thesis
        using out cc c d split_sextets [OF lt c(2) d(2)] div_mult_mod_eq [of b 16] div_mult_mod_eq [of c 4] by simp
    qed
  qed
qed auto

lemma b64_char_plain: "b64_char v \<noteq> CHR 10 \<and> b64_char v \<noteq> CHR 13"
  by (auto simp: b64_char_def char_of_eq)

lemma b64_encode_plain: "list_all (\<lambda>c. c \<noteq> CHR 10 \<and> c \<noteq> CHR 13) (b64_encode b)"
  by (induction b rule: b64_encode.induct) (simp_all add: b64_char_plain)

text \<open>Strict decoding accepts one text per value, up to line breaks.\<close>

lemma b64_strict_iff:
  "b64_strict s = Some b \<longleftrightarrow> filter (\<lambda>c. c \<noteq> CHR 10 \<and> c \<noteq> CHR 13) s = b64_encode b"
proof -
  have out: "(let (out, ok) = q in if ok then Some out else None) = Some b \<longleftrightarrow> q = (b, True)"
    for q :: "bytes \<times> bool" by (cases q) auto
  have "b64_quanta True t = (b, True) \<longleftrightarrow> t = b64_encode b" for t
    using b64_roundtrip b64_quanta_encode by blast
  then show ?thesis unfolding b64_strict_def b64_decode_def out .
qed

lemma b64_strict_encode: "b64_strict (b64_encode b) = Some b"
  using b64_encode_plain [of b] unfolding b64_strict_iff filter_id_conv list_all_iff .

end
