(* ===== verification/Config.thy ===== *)
theory Config
  imports Encoding
begin

text \<open>
  The operator's configuration (\<open>config.go\<close>, \<open>marketplace.go\<close>) and its validation. What
  the validation asks of the host is a record of functions: the environment, the free
  space, and the parsers of package \<open>net\<close>. A Go map is an association list in the order
  an iteration visits it. \<open>Validate_ok\<close> says exactly which configurations are accepted.
\<close>

section \<open>Definitions\<close>

record ProviderConfig =
  URL :: bytes
  KeyEnv :: bytes
  Region :: bytes

record MarketplaceConfig =
  ProductCode :: bytes
  PublicKeyVersion :: int

record Config =
  Listen :: bytes
  cfg_Tenant :: bytes
  DataDir :: bytes
  ControlURL :: bytes
  ControlTokenEnv :: bytes
  LocalTokenEnv :: bytes
  TrustedKeys :: "(bytes \<times> bytes) list"
  Providers :: "(bytes \<times> ProviderConfig) list"
  Concurrency :: int
  Rate :: int
  Burst :: int
  RetryRate :: int
  MaxAttempts :: int
  TimeoutSeconds :: int
  QueueSize :: int
  SpoolBytes :: int64
  OTLPURL :: bytes
  OTLPMetricsURL :: bytes
  OTLPHeaders :: "(bytes \<times> bytes) list"
  Marketplace :: "MarketplaceConfig option"
  AllowLocalHTTP :: bool
  ProviderCheckStrict :: bool
  EnablePprof :: bool
  IdempotencyTTLSeconds :: int
  IdempotencyBytes :: int64
  PromptCaching :: bool
  RateLimitRetryMaxMs :: int
  FleetHealth :: bool
  CaptureTTLSeconds :: int
  CaptureBytes :: int64

definition captureRecordLimit :: int64 where
  "captureRecordLimit = 8 * 2 ^ 20"

text \<open>The parts of a parsed URL that are looked at.\<close>

record url =
  Scheme :: bytes
  Host :: bytes
  Hostname :: bytes
  has_User :: bool
  RawQuery :: bytes
  Fragment :: bytes

record host =
  Getenv :: "bytes \<Rightarrow> bytes"
  url_Parse :: "bytes \<Rightarrow> url option"
  ParseIP_IsLoopback :: "bytes \<Rightarrow> bool"
  SplitHostPort :: "bytes \<Rightarrow> bytes option"
  freeBytes :: "bytes \<Rightarrow> int64 option"

definition secureURL :: "host \<Rightarrow> bytes \<Rightarrow> bool \<Rightarrow> bool" where
  "secureURL h s local =
     (case url_Parse h s of
        None \<Rightarrow> False
      | Some u \<Rightarrow>
          if Host u = [] \<or> has_User u \<or> RawQuery u \<noteq> [] \<or> Fragment u \<noteq> [] then False
          else Scheme u = ''https'' \<or>
            (local \<and> Scheme u = ''http'' \<and>
             (Hostname u = ''localhost'' \<or> ParseIP_IsLoopback h (Hostname u))))"

datatype config_error =
    ListenNotLoopback | BadTenant | NoDataDir | LimitOutOfRange bytes
  | BadIdempotencyTTL | BadCaptureTTL | BadCaptureBytes | VolumeTooSmall | BadIdempotencyBytes
  | BadControlURL | ControlTokenShort | ControlTokenWithoutURL | BadOTLPURL | BadOTLPMetricsURL
  | BadHeaderName bytes | ReservedHeader bytes | HeaderEnvMissing bytes | HeaderEnvEmpty bytes
  | LocalTokenShort | EmptyTrustStore | BadTrustKeyId bytes | BadTrustKeyText bytes | BadTrustKeySize bytes
  | UnknownProvider bytes | BadProviderURL bytes | NoBedrockRegion | NoKeyEnv bytes | KeyEnvEmpty bytes
  | NoProviders | BadProductCode | BadPublicKeyVersion

text \<open>The first error of a list of checks, in order: Go's early returns.\<close>

fun first_error :: "'e option list \<Rightarrow> 'e option" where
  "first_error [] = None"
| "first_error (Some e # es) = Some e"
| "first_error (None # es) = first_error es"

definition check :: "bool \<Rightarrow> 'e \<Rightarrow> 'e option" where
  "check bad e = (if bad then Some e else None)"

definition limit_checks :: "Config \<Rightarrow> config_error option list" where
  "limit_checks c =
     map (\<lambda>(name, v, lo, hi). check (v < lo \<or> hi < v) (LimitOutOfRange name))
       [(''concurrency'', Concurrency c, 1, 4096),
        (''rate'', Rate c, 1, 100000),
        (''burst'', Burst c, 1, 100000),
        (''retry_rate'', RetryRate c, 1, 10000),
        (''max_attempts'', MaxAttempts c, 1, 3),
        (''timeout_seconds'', TimeoutSeconds c, 1, 90),
        (''queue_size'', QueueSize c, 1, 65536),
        (''spool_bytes'', SpoolBytes c, 2 ^ 20, 10 * 2 ^ 30)]"

definition store_checks :: "host \<Rightarrow> Config \<Rightarrow> config_error option list" where
  "store_checks h c =
     [check (IdempotencyTTLSeconds c < 0 \<or> 86400 < IdempotencyTTLSeconds c) BadIdempotencyTTL,
      check (CaptureTTLSeconds c < 0 \<or> 604800 < CaptureTTLSeconds c) BadCaptureTTL,
      check (0 < CaptureTTLSeconds c \<and> (CaptureBytes c < 2 ^ 20 \<or> 100 * 2 ^ 30 < CaptureBytes c)) BadCaptureBytes,
      check (case freeBytes h (DataDir c) of
               None \<Rightarrow> False
             | Some free \<Rightarrow>
                 0 < free \<and> free < wrap64 (wrap64 (SpoolBytes c + IdempotencyBytes c) + CaptureBytes c))
        VolumeTooSmall,
      check (0 < IdempotencyTTLSeconds c \<and> (IdempotencyBytes c < 2 ^ 20 \<or> 10 * 2 ^ 30 < IdempotencyBytes c))
        BadIdempotencyBytes]"

definition control_checks :: "host \<Rightarrow> Config \<Rightarrow> config_error option list" where
  "control_checks h c =
     (if ControlURL c \<noteq> [] then
        [check (\<not> secureURL h (ControlURL c) (AllowLocalHTTP c)) BadControlURL,
         check (length (Getenv h (ControlTokenEnv c)) < 32) ControlTokenShort]
      else [check (ControlTokenEnv c \<noteq> []) ControlTokenWithoutURL])"

definition header_checks :: "host \<Rightarrow> bytes \<times> bytes \<Rightarrow> config_error option list" where
  "header_checks h ne =
     (let (name, env) = ne in
      [check (\<not> headerName name) (BadHeaderName name),
       check (go_to_lower name \<in> set [''content-type'', ''authorization'', ''host'', ''content-length'']) (ReservedHeader name),
       check (env = []) (HeaderEnvMissing name),
       check (Getenv h env = []) (HeaderEnvEmpty name)])"

definition trust_checks :: "bytes \<times> bytes \<Rightarrow> config_error option list" where
  "trust_checks kv =
     (let (k, v) = kv in
      [check (\<not> identifier_matches k) (BadTrustKeyId k),
       check (b64_strict v = None) (BadTrustKeyText k),
       check (case b64_strict v of None \<Rightarrow> False | Some b \<Rightarrow> length b \<noteq> 32) (BadTrustKeySize k)])"

definition provider_checks :: "host \<Rightarrow> bool \<Rightarrow> bytes \<times> ProviderConfig \<Rightarrow> config_error option list" where
  "provider_checks h local np =
     (let (name, p) = np in
      [check (name \<notin> set [''openai'', ''anthropic'', ''gemini'', ''bedrock'']) (UnknownProvider name),
       check (\<not> secureURL h (URL p) local) (BadProviderURL name)]
      @ (if name = ''bedrock'' then [check (\<not> identifier_matches (Region p)) NoBedrockRegion]
         else [check (KeyEnv p = []) (NoKeyEnv name), check (Getenv h (KeyEnv p) = []) (KeyEnvEmpty name)]))"

definition MarketplaceConfig_Validate :: "MarketplaceConfig option \<Rightarrow> config_error option" where
  "MarketplaceConfig_Validate m =
     (case m of
        None \<Rightarrow> None
      | Some m \<Rightarrow>
          if \<not> productCodePattern (ProductCode m) then Some BadProductCode
          else if PublicKeyVersion m < 1 then Some BadPublicKeyVersion
          else None)"

definition Config_Validate :: "host \<Rightarrow> Config \<Rightarrow> config_error option" where
  "Config_Validate h c =
     first_error
       ([check (case SplitHostPort h (Listen c) of None \<Rightarrow> True | Some hp \<Rightarrow> \<not> ParseIP_IsLoopback h hp) ListenNotLoopback,
         check (\<not> identifier_matches (cfg_Tenant c)) BadTenant,
         check (DataDir c = []) NoDataDir]
        @ limit_checks c
        @ store_checks h c
        @ control_checks h c
        @ [check (OTLPURL c \<noteq> [] \<and> \<not> secureURL h (OTLPURL c) (AllowLocalHTTP c)) BadOTLPURL,
           check (OTLPMetricsURL c \<noteq> [] \<and> \<not> secureURL h (OTLPMetricsURL c) (AllowLocalHTTP c)) BadOTLPMetricsURL]
        @ concat (map (header_checks h) (OTLPHeaders c))
        @ [check (length (Getenv h (LocalTokenEnv c)) < 32) LocalTokenShort,
           check (TrustedKeys c = []) EmptyTrustStore]
        @ concat (map trust_checks (TrustedKeys c))
        @ concat (map (provider_checks h (AllowLocalHTTP c)) (Providers c))
        @ [check (Providers c = []) NoProviders,
           MarketplaceConfig_Validate (Marketplace c)])"

definition UncollectedMetricsWarning :: "Config \<Rightarrow> bytes" where
  "UncollectedMetricsWarning c =
     (if OTLPMetricsURL c \<noteq> [] then []
      else ''no metrics are being collected; /metrics is loopback only. '' @
           ''Set otlp_metrics_url to an OTLP/HTTP metrics endpoint, or run the collector '' @
           ''sidecar from deploy/collector.yaml. See docs/DEPLOYMENT.md.'')"

section \<open>Lemmas\<close>

lemma first_error_None [simp]: "first_error es = None \<longleftrightarrow> (\<forall>e \<in> set es. e = None)"
  by (induction es rule: first_error.induct) auto

lemma check_None [simp]: "check bad e = None \<longleftrightarrow> \<not> bad"
  by (simp add: check_def)

lemma first_error_append: "first_error (xs @ ys) = (case first_error xs of Some e \<Rightarrow> Some e | None \<Rightarrow> first_error ys)"
  by (induction xs rule: first_error.induct) auto

lemmas config_checks = limit_checks_def store_checks_def control_checks_def header_checks_def trust_checks_def
  provider_checks_def

text \<open>What an accepted configuration promises the rest of the program.\<close>

definition limits_ok :: "Config \<Rightarrow> bool" where
  "limits_ok c \<longleftrightarrow>
     1 \<le> Concurrency c \<and> Concurrency c \<le> 4096 \<and> 1 \<le> Rate c \<and> Rate c \<le> 100000 \<and>
     1 \<le> Burst c \<and> Burst c \<le> 100000 \<and> 1 \<le> RetryRate c \<and> RetryRate c \<le> 10000 \<and>
     1 \<le> MaxAttempts c \<and> MaxAttempts c \<le> 3 \<and> 1 \<le> TimeoutSeconds c \<and> TimeoutSeconds c \<le> 90 \<and>
     1 \<le> QueueSize c \<and> QueueSize c \<le> 65536 \<and> 2 ^ 20 \<le> SpoolBytes c \<and> SpoolBytes c \<le> 10 * 2 ^ 30"

lemma limit_checks_ok: "(\<forall>e \<in> set (limit_checks c). e = None) \<longleftrightarrow> limits_ok c"
  by (auto simp: limit_checks_def limits_ok_def)

lemma Validate_parts:
  assumes "Config_Validate h c = None"
  shows "limits_ok c" "\<forall>e \<in> set (store_checks h c). e = None" "\<forall>e \<in> set (control_checks h c). e = None"
    "\<forall>kv \<in> set (TrustedKeys c). \<forall>e \<in> set (trust_checks kv). e = None"
    "\<forall>np \<in> set (Providers c). \<forall>e \<in> set (provider_checks h (AllowLocalHTTP c) np). e = None"
    "TrustedKeys c \<noteq> []" "Providers c \<noteq> []" "32 \<le> length (Getenv h (LocalTokenEnv c))"
    "identifier_matches (cfg_Tenant c)"
  using assms unfolding Config_Validate_def first_error_None limit_checks_ok [symmetric] by auto

text \<open>Where an URL check passes, prompts and keys cannot leave in clear text off the host.\<close>

lemma secureURL_https:
  assumes "secureURL h s local"
  obtains u where "url_Parse h s = Some u" "\<not> has_User u"
    "Scheme u = ''https'' \<or> local \<and> (Hostname u = ''localhost'' \<or> ParseIP_IsLoopback h (Hostname u))"
  using assms by (auto simp: secureURL_def split: option.splits if_splits)

lemma store_budgets_fit:
  assumes "Config_Validate h c = None" "freeBytes h (DataDir c) = Some free" "0 < free"
    "0 < IdempotencyTTLSeconds c" "0 < CaptureTTLSeconds c"
  shows "SpoolBytes c + IdempotencyBytes c + CaptureBytes c \<le> free"
proof -
  note parts = Validate_parts [OF assms(1)]
  have "SpoolBytes c \<le> 10 * 2 ^ 30" "2 ^ 20 \<le> SpoolBytes c" using parts(1) by (auto simp: limits_ok_def)
  moreover have "2 ^ 20 \<le> IdempotencyBytes c" "IdempotencyBytes c \<le> 10 * 2 ^ 30"
    "2 ^ 20 \<le> CaptureBytes c" "CaptureBytes c \<le> 100 * 2 ^ 30"
    using parts(2) assms(4,5) by (auto simp: store_checks_def)
  moreover have "wrap64 (wrap64 (SpoolBytes c + IdempotencyBytes c) + CaptureBytes c) \<le> free"
    using parts(2) assms(2,3) by (auto simp: store_checks_def)
  ultimately show ?thesis by (simp add: wrap64_id min_int64_def max_int64_def)
qed

lemma Validate_providers:
  assumes "Config_Validate h c = None"
  shows "\<forall>(name, p) \<in> set (Providers c). name \<in> {''openai'', ''anthropic'', ''gemini'', ''bedrock''} \<and> secureURL h (URL p) (AllowLocalHTTP c)"
  using Validate_parts(5) [OF assms] by (fastforce simp: provider_checks_def)

lemma Validate_keys:
  assumes "Config_Validate h c = None"
  shows "\<forall>(k, v) \<in> set (TrustedKeys c). \<exists>key. b64_strict v = Some key \<and> length key = 32"
  using Validate_parts(4) [OF assms] by (fastforce simp: trust_checks_def)

end
