(* ===== verification/Learned.thy ===== *)
theory Learned
  imports Config "HOL-Library.Mapping"
begin

text \<open>
  What the gateway learns about models, prompts and providers and forgets again:
  \<open>budget.go\<close>, the table of \<open>temperature.go\<close>, \<open>promptcache.go\<close> and the hints of
  \<open>fleet.go\<close>. The first three share a contract, the locale \<open>learned\<close>: bounded, and no
  answer rests on an observation older than the time to live. A nil pointer is \<open>None\<close>.
\<close>

section \<open>Budget-aware routing\<close>

type_synonym budgetKey = "bytes \<times> bytes"

record budgetFact =
  emptyAt :: int
  okAt :: int
  fact_seen :: instant

record budgetTable =
  facts :: "(budgetKey, budgetFact) mapping"
  budget_ttl :: duration
  budget_limit :: nat

definition newBudgetTable :: budgetTable where
  "newBudgetTable = \<lparr>facts = Mapping.empty, budget_ttl = 6 * hour, budget_limit = 256\<rparr>"

definition budget_skip :: "instant \<Rightarrow> bytes \<Rightarrow> bytes \<Rightarrow> int \<Rightarrow> budgetTable \<Rightarrow> bool" where
  "budget_skip now provider model budget b =
     (case Mapping.lookup (facts b) (provider, model) of
        None \<Rightarrow> False
      | Some f \<Rightarrow>
          if time_sub now (fact_seen f) > budget_ttl b then False
          else if budget > emptyAt f then False
          else okAt f = 0 \<or> budget < okAt f)"

definition budget_observe :: "instant \<Rightarrow> bytes \<Rightarrow> bytes \<Rightarrow> int \<Rightarrow> bool \<Rightarrow> budgetTable \<Rightarrow> budgetTable" where
  "budget_observe now provider model budget producedText b =
     (if budget \<le> 0 then b
      else
        let k = (provider, model);
            stale = (case Mapping.lookup (facts b) k of
                       None \<Rightarrow> True
                     | Some f \<Rightarrow> time_sub now (fact_seen f) > budget_ttl b);
            f = (case Mapping.lookup (facts b) k of
                   Some f \<Rightarrow> if stale then \<lparr>emptyAt = 0, okAt = 0, fact_seen = 0\<rparr> else f
                 | None \<Rightarrow> \<lparr>emptyAt = 0, okAt = 0, fact_seen = 0\<rparr>);
            m = (if stale \<and> Mapping.size (facts b) \<ge> budget_limit b then Mapping.empty else facts b);
            f = (if producedText then
                   (if okAt f = 0 \<or> budget < okAt f then f\<lparr>okAt := budget\<rparr> else f)
                 else if budget > emptyAt f then f\<lparr>emptyAt := budget\<rparr>
                 else f);
            f = f\<lparr>fact_seen := now\<rparr>
        in b\<lparr>facts := Mapping.update k f m\<rparr>)"

definition budget_observeOutcome ::
  "instant \<Rightarrow> bytes \<Rightarrow> bytes \<Rightarrow> int \<Rightarrow> bytes \<Rightarrow> bytes \<Rightarrow> budgetTable \<Rightarrow> budgetTable" where
  "budget_observeOutcome now provider model budget finish text b =
     (if text \<noteq> [] then budget_observe now provider model budget True b
      else if finish = ''length'' then budget_observe now provider model budget False b
      else b)"

section \<open>Models that refuse a temperature\<close>

record temperatureTable =
  temp_seen :: "(budgetKey, instant) mapping"
  temp_ttl :: duration
  temp_limit :: nat
  temp_always :: bool

definition newTemperatureTable :: temperatureTable where
  "newTemperatureTable =
     \<lparr>temp_seen = Mapping.empty, temp_ttl = 6 * hour, temp_limit = 256, temp_always = False\<rparr>"

definition temperature_omit :: "instant \<Rightarrow> bytes \<Rightarrow> bytes \<Rightarrow> temperatureTable \<Rightarrow> bool \<times> temperatureTable" where
  "temperature_omit now provider model t =
     (if temp_always t then (True, t)
      else
        case Mapping.lookup (temp_seen t) (provider, model) of
          None \<Rightarrow> (False, t)
        | Some seen_at \<Rightarrow>
            if time_sub now seen_at > temp_ttl t
            then (False, t\<lparr>temp_seen := Mapping.delete (provider, model) (temp_seen t)\<rparr>)
            else (True, t))"

definition temperature_observe :: "instant \<Rightarrow> bytes \<Rightarrow> bytes \<Rightarrow> temperatureTable \<Rightarrow> temperatureTable" where
  "temperature_observe now provider model t =
     (let m = (if Mapping.size (temp_seen t) \<ge> temp_limit t then Mapping.empty else temp_seen t)
      in t\<lparr>temp_seen := Mapping.update (provider, model) now m\<rparr>)"

section \<open>Prompt caching\<close>

record prefixCache =
  prefix_seen :: "(bytes, instant) mapping"
  prefix_ttl :: duration
  prefix_max :: nat

definition promptCacheTTL :: duration where
  "promptCacheTTL = 5 * minute"

definition promptCacheMaxTracked :: nat where
  "promptCacheMaxTracked = 4096"

definition promptCacheMinBytes :: nat where
  "promptCacheMinBytes = 6000"

definition newPrefixCache :: prefixCache where
  "newPrefixCache =
     \<lparr>prefix_seen = Mapping.empty, prefix_ttl = promptCacheTTL, prefix_max = promptCacheMaxTracked\<rparr>"

text \<open>\<open>sha\<close> stands for \<open>sha256.Sum256\<close>.\<close>

definition worthCaching :: "(bytes \<Rightarrow> bytes) \<Rightarrow> instant \<Rightarrow> bytes \<Rightarrow> prefixCache \<Rightarrow> bool \<times> prefixCache" where
  "worthCaching sha now system p =
     (if length system < promptCacheMinBytes then (False, p)
      else
        let key = sha system;
            m = (if Mapping.size (prefix_seen p) \<ge> prefix_max p then Mapping.empty else prefix_seen p)
        in (case Mapping.lookup m key of None \<Rightarrow> False | Some prev \<Rightarrow> time_sub now prev < prefix_ttl p,
            p\<lparr>prefix_seen := Mapping.update key now m\<rparr>))"

definition promptCacheFor :: "Config \<Rightarrow> prefixCache option" where
  "promptCacheFor c = (if \<not> PromptCaching c then None else Some newPrefixCache)"

section \<open>Fleet hints\<close>

type_synonym fleetHealth = "(bytes, instant) mapping"

definition newFleetHealth :: fleetHealth where
  "newFleetHealth = Mapping.empty"

definition fleet_apply :: "instant \<Rightarrow> (bytes, duration) mapping \<Rightarrow> duration \<Rightarrow> fleetHealth \<Rightarrow> fleetHealth" where
  "fleet_apply now reports mx f = Mapping.map_values (\<lambda>provider d. now + min d mx) reports"

definition fleet_unhealthy :: "instant \<Rightarrow> bytes \<Rightarrow> fleetHealth option \<Rightarrow> bool" where
  "fleet_unhealthy now provider f =
     (case f of
        None \<Rightarrow> False
      | Some m \<Rightarrow> (case Mapping.lookup m provider of None \<Rightarrow> False | Some u \<Rightarrow> now < u))"

definition fleetHintMax :: duration where
  "fleetHintMax = 45 * second"

definition fleetFor :: "Config \<Rightarrow> fleetHealth option" where
  "fleetFor c = (if \<not> FleetHealth c then None else Some newFleetHealth)"

text \<open>The answer's entries, in order: a provider named twice keeps its last entry.\<close>

record fleet_entry =
  fe_provider :: bytes
  fe_fault :: bytes
  fe_seconds :: int

definition fleet_reports :: "fleet_entry list \<Rightarrow> (bytes, duration) mapping" where
  "fleet_reports us =
     fold (\<lambda>u m. if fe_seconds u \<le> 0 then m
                 else Mapping.update (fe_provider u) (wrap64 (fe_seconds u * second)) m) us Mapping.empty"

section \<open>The contract of a learned table\<close>

text \<open>
  \<open>observe\<close> records an observation \<open>q\<close> under the key \<open>key_of q\<close>; \<open>ask\<close> answers a
  query, and may drop an expired entry. \<open>stamp\<close> reads when a key was last recorded.
\<close>

datatype 'q learn_event = Note instant 'q | Ask instant 'q

locale learned =
  fixes observe :: "instant \<Rightarrow> 'q \<Rightarrow> 't \<Rightarrow> 't"
    and ask :: "instant \<Rightarrow> 'q \<Rightarrow> 't \<Rightarrow> bool \<times> 't"
    and key_of :: "'q \<Rightarrow> 'k"
    and stamp :: "'t \<Rightarrow> 'k \<Rightarrow> instant option"
    and valid :: "'t \<Rightarrow> bool"
    and limit :: nat
    and ttl :: duration
  assumes limit_pos: "0 < limit"
    and note_valid: "valid t \<Longrightarrow> valid (observe now q t)"
    and ask_valid: "valid t \<Longrightarrow> valid (snd (ask now q t))"
    and note_other: "valid t \<Longrightarrow> k \<noteq> key_of q \<Longrightarrow> stamp (observe now q t) k \<in> {None, stamp t k}"
    and note_own: "valid t \<Longrightarrow> stamp (observe now q t) (key_of q) \<in> {stamp t (key_of q), Some now}"
    and note_room: "valid t \<Longrightarrow> finite (dom (stamp t)) \<Longrightarrow>
      dom (stamp (observe now q t)) \<subseteq> dom (stamp t) \<or> card (dom (stamp t)) < limit \<or>
      dom (stamp (observe now q t)) \<subseteq> {key_of q}"
    and ask_stamp: "valid t \<Longrightarrow> stamp (snd (ask now q t)) k \<in> {None, stamp t k}"
    and ask_fresh: "valid t \<Longrightarrow> fst (ask now q t) \<Longrightarrow>
      \<exists>s. stamp t (key_of q) = Some s \<and> now - s \<le> ttl"
begin

definition step :: "'q learn_event \<Rightarrow> 't \<Rightarrow> 't" where
  "step e t = (case e of Note now q \<Rightarrow> observe now q t | Ask now q \<Rightarrow> snd (ask now q t))"

definition bounded :: "'t \<Rightarrow> bool" where
  "bounded t \<longleftrightarrow> valid t \<and> finite (dom (stamp t)) \<and> card (dom (stamp t)) \<le> limit"

lemma note_dom: "valid t \<Longrightarrow> dom (stamp (observe now q t)) \<subseteq> insert (key_of q) (dom (stamp t))"
proof (rule subsetI, rule ccontr)
  fix k
  assume "valid t" "k \<in> dom (stamp (observe now q t))" "k \<notin> insert (key_of q) (dom (stamp t))"
  then show False using note_other [of t k q now] by (auto simp: domIff)
qed

lemma note_bounded:
  assumes "bounded t"
  shows "bounded (observe now q t)"
proof -
  let ?D = "dom (stamp t)" and ?E = "dom (stamp (observe now q t))"
  have v: "valid t" and f: "finite ?D" and c: "card ?D \<le> limit" using assms by (auto simp: bounded_def)
  have sub: "?E \<subseteq> insert (key_of q) ?D" using note_dom [OF v] .
  then have fin: "finite ?E" using f finite_subset by blast
  consider "?E \<subseteq> ?D" | "card ?D < limit" | "?E \<subseteq> {key_of q}" using note_room [OF v f] by blast
  then have "card ?E \<le> limit"
  proof cases
    case 1
    then show ?thesis using c card_mono [OF f, of ?E] by simp
  next
    case 2
    then show ?thesis
      using card_mono [OF _ sub] f card_insert_le_m1 [of limit ?D "key_of q"] limit_pos by force
  next
    case 3
    then show ?thesis using card_mono [of "{key_of q}" ?E] limit_pos by simp
  qed
  then show ?thesis using fin note_valid [OF v] by (simp add: bounded_def)
qed

lemma ask_bounded:
  assumes "bounded t"
  shows "bounded (snd (ask now q t))"
proof -
  have "dom (stamp (snd (ask now q t))) \<subseteq> dom (stamp t)"
    using ask_stamp [of t now q] assms by (auto simp: bounded_def domIff) (metis option.distinct(1))
  then show ?thesis
    using assms ask_valid card_mono finite_subset unfolding bounded_def by (meson le_trans)
qed

lemma step_bounded: "bounded t \<Longrightarrow> bounded (step e t)"
  by (simp add: step_def note_bounded ask_bounded split: learn_event.split)

lemma run_bounded: "bounded t \<Longrightarrow> bounded (fold step es t)"
  by (induction es arbitrary: t) (simp_all add: step_bounded)

lemma notes_bounded: "bounded t \<Longrightarrow> bounded (fold (\<lambda>(now, q). observe now q) qs t)"
  by (induction qs arbitrary: t) (auto simp: note_bounded)

lemma step_stamp:
  assumes "valid t" "stamp (step e t) k = Some s"
  shows "stamp t k = Some s \<or> (\<exists>q. e = Note s q \<and> key_of q = k)"
proof (cases e)
  case (Note now q)
  with assms show ?thesis
    using note_own [of t now q] note_other [of t k q now] by (cases "k = key_of q") (auto simp: step_def)
next
  case (Ask now q)
  with assms show ?thesis using ask_stamp [of t now q k] by (auto simp: step_def)
qed

lemma step_valid: "valid t \<Longrightarrow> valid (step e t)"
  by (simp add: step_def note_valid ask_valid split: learn_event.split)

text \<open>Every stamp was put there by an observation of the run, or was there before.\<close>

lemma run_stamp:
  "valid t \<Longrightarrow> stamp (fold step es t) k = Some s \<Longrightarrow>
   stamp t k = Some s \<or> (\<exists>q. Note s q \<in> set es \<and> key_of q = k)"
proof (induction es arbitrary: t)
  case (Cons e es)
  then have "stamp (step e t) k = Some s \<or> (\<exists>q. Note s q \<in> set es \<and> key_of q = k)"
    using step_valid by simp
  then show ?case using step_stamp [OF Cons.prems(1)] by (metis list.set_intros)
qed simp

text \<open>An answer rests on an observation of the same key no older than the time to live.\<close>

lemma run_fresh:
  assumes "valid t" "dom (stamp t) = {}" "fst (ask now q (fold step es t))"
  obtains s q' where "Note s q' \<in> set es" "key_of q' = key_of q" "now - s \<le> ttl"
proof -
  have "valid (fold step es t)" using assms(1) by (induction es arbitrary: t) (simp_all add: step_valid)
  then obtain s where s: "stamp (fold step es t) (key_of q) = Some s" "now - s \<le> ttl"
    using ask_fresh assms(3) by blast
  with run_stamp [OF assms(1)] assms(2) that show thesis by (metis domIff empty_iff option.distinct(1))
qed

end

section \<open>The tables meet the contract\<close>

lemma mapping_finite: "finite (Mapping.keys m) \<Longrightarrow> finite (dom (Mapping.lookup m))"
  by (simp add: keys_dom_lookup)

lemma mapping_size: "Mapping.size m = card (dom (Mapping.lookup m))"
  by (simp add: Mapping.size_def keys_dom_lookup)

lemma lookup_delete': "Mapping.lookup (Mapping.delete k m) k' = (if k' = k then None else Mapping.lookup m k')"
  by (cases "k' = k") (simp_all add: lookup_delete lookup_delete_neq)

lemmas mapping_lookup = lookup_empty lookup_update' lookup_delete'

definition budget_valid :: "budgetTable \<Rightarrow> bool" where
  "budget_valid b \<longleftrightarrow> budget_ttl b = 6 * hour \<and> budget_limit b = 256"

definition budget_stamp :: "budgetTable \<Rightarrow> budgetKey \<Rightarrow> instant option" where
  "budget_stamp b k = map_option fact_seen (Mapping.lookup (facts b) k)"

lemma budget_stamp_dom: "dom (budget_stamp b) = dom (Mapping.lookup (facts b))"
  by (auto simp: budget_stamp_def)

text \<open>The fact an observation starts from, and the fact it leaves.\<close>

definition budget_base :: "instant \<Rightarrow> budgetTable \<Rightarrow> budgetKey \<Rightarrow> budgetFact option" where
  "budget_base now b k =
     (case Mapping.lookup (facts b) k of
        Some f \<Rightarrow> if time_sub now (fact_seen f) > budget_ttl b then None else Some f
      | None \<Rightarrow> None)"

definition budget_next :: "instant \<Rightarrow> int \<Rightarrow> bool \<Rightarrow> budgetFact option \<Rightarrow> budgetFact" where
  "budget_next now budget producedText fo =
     (let e = (case fo of None \<Rightarrow> 0 | Some f \<Rightarrow> emptyAt f);
          k = (case fo of None \<Rightarrow> 0 | Some f \<Rightarrow> okAt f)
      in \<lparr>emptyAt = (if \<not> producedText \<and> budget > e then budget else e),
          okAt = (if producedText \<and> (k = 0 \<or> budget < k) then budget else k),
          fact_seen = now\<rparr>)"

lemma budget_observe_alt:
  "0 < budget \<Longrightarrow> budget_observe now p m budget ok b =
     b\<lparr>facts := Mapping.update (p, m) (budget_next now budget ok (budget_base now b (p, m)))
        (if budget_base now b (p, m) = None \<and> budget_limit b \<le> Mapping.size (facts b)
         then Mapping.empty else facts b)\<rparr>"
proof (cases "Mapping.lookup (facts b) (p, m)")
  case None
  then show "0 < budget \<Longrightarrow> ?thesis"
    by (simp add: budget_observe_def budget_next_def budget_base_def)
next
  case (Some f)
  then show "0 < budget \<Longrightarrow> ?thesis"
    by (cases f) (simp add: budget_observe_def budget_next_def budget_base_def)
qed

lemma budget_skip_alt:
  "budget_skip now p m budget b \<longleftrightarrow>
     (case budget_base now b (p, m) of
        None \<Rightarrow> False
      | Some f \<Rightarrow> budget \<le> emptyAt f \<and> (okAt f = 0 \<or> budget < okAt f))"
  by (auto simp: budget_skip_def budget_base_def split: option.splits)

type_synonym budget_obs = "bytes \<times> bytes \<times> int \<times> bool"

definition budget_note :: "instant \<Rightarrow> budget_obs \<Rightarrow> budgetTable \<Rightarrow> budgetTable" where
  "budget_note now q b = (case q of (p, m, n, ok) \<Rightarrow> budget_observe now p m n ok b)"

definition budget_ask :: "instant \<Rightarrow> budget_obs \<Rightarrow> budgetTable \<Rightarrow> bool \<times> budgetTable" where
  "budget_ask now q b = (case q of (p, m, n, ok) \<Rightarrow> (budget_skip now p m n b, b))"

definition budget_key :: "budget_obs \<Rightarrow> budgetKey" where
  "budget_key q = (case q of (p, m, n, ok) \<Rightarrow> (p, m))"

lemma budget_note_lookup:
  "Mapping.lookup (facts (budget_note now (p, m, n, ok) b)) k =
     (if n \<le> 0 then Mapping.lookup (facts b) k
      else if k = (p, m) then Some (budget_next now n ok (budget_base now b (p, m)))
      else if budget_base now b (p, m) = None \<and> budget_limit b \<le> Mapping.size (facts b) then None
      else Mapping.lookup (facts b) k)"
proof (cases "n \<le> 0")
  case True
  then show ?thesis by (simp add: budget_note_def budget_observe_def)
next
  case False
  then show ?thesis
    by (auto simp: budget_note_def budget_observe_alt mapping_lookup)
qed

lemma budget_note_frame:
  "budget_ttl (budget_note now q b) = budget_ttl b" "budget_limit (budget_note now q b) = budget_limit b"
  by (auto simp: budget_note_def budget_observe_def Let_def split: prod.splits)

lemma budget_base_none: "budget_base now b k \<noteq> None \<Longrightarrow> k \<in> dom (Mapping.lookup (facts b))"
  by (auto simp: budget_base_def split: option.splits)

interpretation budget: learned budget_note budget_ask budget_key budget_stamp budget_valid 256 "6 * hour"
proof
  fix t :: budgetTable and now :: instant and q :: budget_obs and k :: budgetKey
  obtain p m n ok where q: "q = (p, m, n, ok)" by (cases q)
  assume v: "budget_valid t"
  show "budget_valid (budget_note now q t)" "budget_valid (snd (budget_ask now q t))"
    using v q by (auto simp: budget_valid_def budget_note_frame budget_ask_def)
  show "k \<noteq> budget_key q \<Longrightarrow> budget_stamp (budget_note now q t) k \<in> {None, budget_stamp t k}"
    by (auto simp: q budget_key_def budget_stamp_def budget_note_lookup)
  show "budget_stamp (budget_note now q t) (budget_key q) \<in> {budget_stamp t (budget_key q), Some now}"
    by (auto simp: q budget_key_def budget_stamp_def budget_note_lookup budget_next_def Let_def)
  show "dom (budget_stamp (budget_note now q t)) \<subseteq> dom (budget_stamp t) \<or> card (dom (budget_stamp t)) < 256 \<or>
      dom (budget_stamp (budget_note now q t)) \<subseteq> {budget_key q}"
  proof (cases "n \<le> 0 \<or> budget_base now t (p, m) \<noteq> None")
    case True
    then show ?thesis
      using budget_base_none [of now t "(p, m)"]
      by (auto simp: q budget_stamp_dom budget_note_lookup domIff split: if_splits)
  next
    case False
    then show ?thesis
      using v by (auto simp: q budget_key_def budget_stamp_dom budget_note_lookup budget_valid_def mapping_size split: if_splits)
  qed
  show "budget_stamp (snd (budget_ask now q t)) k \<in> {None, budget_stamp t k}"
    by (simp add: q budget_ask_def)
  show "fst (budget_ask now q t) \<Longrightarrow> \<exists>s. budget_stamp t (budget_key q) = Some s \<and> now - s \<le> 6 * hour"
    using v by (auto simp: q budget_ask_def budget_skip_def budget_stamp_def budget_key_def budget_valid_def
        time_sub_gt_iff go_time_defs split: option.splits if_splits)
qed simp

definition temperature_valid :: "temperatureTable \<Rightarrow> bool" where
  "temperature_valid t \<longleftrightarrow> temp_ttl t = 6 * hour \<and> temp_limit t = 256 \<and> \<not> temp_always t"

interpretation temperature: learned
  "\<lambda>now (p, m). temperature_observe now p m" "\<lambda>now (p, m). temperature_omit now p m" id
  "\<lambda>t. Mapping.lookup (temp_seen t)" temperature_valid 256 "6 * hour"
  by unfold_locales
    (auto simp: temperature_valid_def temperature_observe_def temperature_omit_def mapping_lookup mapping_size
      time_sub_gt_iff go_time_defs Let_def domIff split: option.splits if_splits prod.splits)

definition prefix_valid :: "prefixCache \<Rightarrow> bool" where
  "prefix_valid p \<longleftrightarrow> prefix_ttl p = promptCacheTTL \<and> prefix_max p = promptCacheMaxTracked"

interpretation prefix: learned
  "\<lambda>now system p. snd (worthCaching sha now system p)" "\<lambda>now system p. (fst (worthCaching sha now system p), p)"
  sha "\<lambda>p. Mapping.lookup (prefix_seen p)" prefix_valid promptCacheMaxTracked promptCacheTTL
  for sha :: "bytes \<Rightarrow> bytes"
proof
  fix t :: prefixCache and now :: instant and q k :: bytes
  assume v: "prefix_valid t"
  show "prefix_valid (snd (worthCaching sha now q t))"
    using v by (simp add: worthCaching_def prefix_valid_def Let_def)
  show "prefix_valid (snd (fst (worthCaching sha now q t), t))" using v by simp
  show "k \<noteq> sha q \<Longrightarrow> Mapping.lookup (prefix_seen (snd (worthCaching sha now q t))) k
      \<in> {None, Mapping.lookup (prefix_seen t) k}"
    by (auto simp: worthCaching_def mapping_lookup Let_def)
  show "Mapping.lookup (prefix_seen (snd (worthCaching sha now q t))) (sha q)
      \<in> {Mapping.lookup (prefix_seen t) (sha q), Some now}"
    by (auto simp: worthCaching_def mapping_lookup Let_def)
  show "dom (Mapping.lookup (prefix_seen (snd (worthCaching sha now q t)))) \<subseteq> dom (Mapping.lookup (prefix_seen t)) \<or>
      card (dom (Mapping.lookup (prefix_seen t))) < promptCacheMaxTracked \<or>
      dom (Mapping.lookup (prefix_seen (snd (worthCaching sha now q t)))) \<subseteq> {sha q}"
    using v by (auto simp: worthCaching_def mapping_lookup mapping_size Let_def domIff prefix_valid_def split: if_splits)
  show "Mapping.lookup (prefix_seen (snd (fst (worthCaching sha now q t), t))) k \<in> {None, Mapping.lookup (prefix_seen t) k}"
    by simp
  show "fst (fst (worthCaching sha now q t), t) \<Longrightarrow>
      \<exists>s. Mapping.lookup (prefix_seen t) (sha q) = Some s \<and> now - s \<le> promptCacheTTL"
    using v by (auto simp: worthCaching_def mapping_lookup Let_def prefix_valid_def promptCacheTTL_def
        time_sub_def go_time_defs split: option.splits if_splits)
qed (simp add: promptCacheMaxTracked_def)

section \<open>What the budget table answers\<close>

text \<open>Observations of a run: the reading of the clock with the observation.\<close>

type_synonym timed_obs = "instant \<times> budget_obs"

definition budget_run :: "timed_obs list \<Rightarrow> budgetTable" where
  "budget_run obs = fold (\<lambda>(t, q). budget_note t q) obs newBudgetTable"

definition emptied_at :: "timed_obs list \<Rightarrow> budgetKey \<Rightarrow> int \<Rightarrow> bool" where
  "emptied_at obs k b \<longleftrightarrow> (\<exists>(t, p, m, n, ok) \<in> set obs. (p, m) = k \<and> \<not> ok \<and> b \<le> n)"

definition answered_at :: "timed_obs list \<Rightarrow> budgetKey \<Rightarrow> int \<Rightarrow> bool" where
  "answered_at obs k b \<longleftrightarrow> (\<exists>(t, p, m, n, ok) \<in> set obs. (p, m) = k \<and> ok \<and> 0 < n \<and> n \<le> b)"

definition obs_keys :: "timed_obs list \<Rightarrow> budgetKey set" where
  "obs_keys obs = (\<lambda>(t, q). budget_key q) ` set obs"

definition fact_tracks :: "instant \<Rightarrow> timed_obs list \<Rightarrow> budgetKey \<Rightarrow> budgetFact option \<Rightarrow> bool" where
  "fact_tracks T obs k fo \<longleftrightarrow>
     (case fo of
        None \<Rightarrow> \<forall>b > 0. \<not> emptied_at obs k b \<and> \<not> answered_at obs k b
      | Some f \<Rightarrow> k \<in> obs_keys obs \<and> T \<le> fact_seen f \<and> fact_seen f \<le> T + 6 * hour \<and>
          (\<forall>b > 0. (b \<le> emptyAt f \<longleftrightarrow> emptied_at obs k b) \<and>
                   (okAt f \<noteq> 0 \<and> okAt f \<le> b \<longleftrightarrow> answered_at obs k b)))"

lemma obs_snoc:
  "emptied_at (obs @ [(t, p, m, n, ok)]) k b \<longleftrightarrow> emptied_at obs k b \<or> (p, m) = k \<and> \<not> ok \<and> b \<le> n"
  "answered_at (obs @ [(t, p, m, n, ok)]) k b \<longleftrightarrow> answered_at obs k b \<or> (p, m) = k \<and> ok \<and> 0 < n \<and> n \<le> b"
  "obs_keys (obs @ [(t, p, m, n, ok)]) = insert (p, m) (obs_keys obs)"
  by (auto simp: emptied_at_def answered_at_def obs_keys_def budget_key_def)

lemma fact_tracks_other:
  "k \<noteq> (p, m) \<Longrightarrow> fact_tracks T obs k fo \<Longrightarrow> fact_tracks T (obs @ [(t, p, m, n, ok)]) k fo"
  by (auto simp: fact_tracks_def obs_snoc split: option.splits)

lemma fact_tracks_next:
  "0 < n \<Longrightarrow> T \<le> t \<Longrightarrow> t \<le> T + 6 * hour \<Longrightarrow> fact_tracks T obs (p, m) fo \<Longrightarrow>
   fact_tracks T (obs @ [(t, p, m, n, ok)]) (p, m) (Some (budget_next t n ok fo))"
  by (cases fo) (auto simp: fact_tracks_def obs_snoc budget_next_def Let_def)

lemma fact_tracks_void:
  "n \<le> 0 \<Longrightarrow> fact_tracks T obs k fo \<Longrightarrow> fact_tracks T (obs @ [(t, p, m, n, ok)]) k fo"
  by (auto simp: fact_tracks_def obs_snoc split: option.splits)

lemma fact_tracks_fresh:
  assumes "budget_valid b" "fact_tracks T obs k (Mapping.lookup (facts b) k)" "T \<le> now" "now \<le> T + 6 * hour"
  shows "budget_base now b k = Mapping.lookup (facts b) k"
  using assms by (auto simp: budget_base_def budget_valid_def fact_tracks_def time_sub_gt_iff go_time_defs split: option.splits)

lemma budget_run_tracks:
  assumes "\<forall>(t, q) \<in> set obs. T \<le> t \<and> t \<le> T + 6 * hour" "card (obs_keys obs) \<le> 256"
  shows "budget_valid (budget_run obs) \<and> (\<forall>k. fact_tracks T obs k (Mapping.lookup (facts (budget_run obs)) k))"
  using assms
proof (induction obs rule: rev_induct)
  case Nil
  then show ?case
    by (simp add: budget_run_def newBudgetTable_def budget_valid_def fact_tracks_def lookup_empty emptied_at_def answered_at_def)
next
  case (snoc x obs)
  obtain t p m n ok where x: "x = (t, p, m, n, ok)" by (cases x)
  have fin: "finite (obs_keys obs)" by (simp add: obs_keys_def)
  have le: "card (obs_keys obs) \<le> 256"
    using snoc.prems(2) card_insert_le [of "obs_keys obs" "(p, m)"] by (simp add: x obs_snoc)
  let ?b = "budget_run obs"
  have v: "budget_valid ?b" and tr: "\<And>k. fact_tracks T obs k (Mapping.lookup (facts ?b) k)"
    using snoc le by auto
  have t: "T \<le> t" "t \<le> T + 6 * hour" using snoc.prems(1) by (auto simp: x)
  have base: "budget_base t ?b (p, m) = Mapping.lookup (facts ?b) (p, m)"
    using fact_tracks_fresh [OF v tr t] .
  have room: "Mapping.size (facts ?b) < 256" if "Mapping.lookup (facts ?b) (p, m) = None"
  proof -
    have "dom (Mapping.lookup (facts ?b)) \<subseteq> obs_keys obs - {(p, m)}"
      using tr that by (fastforce simp: fact_tracks_def split: option.splits)
    then have "Mapping.size (facts ?b) \<le> card (obs_keys obs - {(p, m)})"
      unfolding mapping_size using fin by (intro card_mono) auto
    also have "\<dots> < card (insert (p, m) (obs_keys obs))" using fin by (simp add: card.insert_remove)
    also have "\<dots> \<le> 256" using snoc.prems(2) by (simp add: x obs_snoc)
    finally show ?thesis .
  qed
  have run: "budget_run (obs @ [x]) = budget_note t (p, m, n, ok) ?b" by (simp add: budget_run_def x)
  have "fact_tracks T (obs @ [x]) k (Mapping.lookup (facts (budget_run (obs @ [x]))) k)" for k
    using tr [of k] room v base t unfolding run unfolding budget_note_lookup x
    by (auto simp: budget_valid_def fact_tracks_void fact_tracks_next fact_tracks_other)
  then show ?case using budget.note_valid [OF v] run by simp
qed

lemma budget_run_skip:
  assumes "\<forall>(t, q) \<in> set obs. T \<le> t \<and> t \<le> T + 6 * hour" "card (obs_keys obs) \<le> 256"
    and "T \<le> now" "now \<le> T + 6 * hour" "0 < b"
  shows "budget_skip now p m b (budget_run obs) \<longleftrightarrow> emptied_at obs (p, m) b \<and> \<not> answered_at obs (p, m) b"
proof -
  note tr = budget_run_tracks [OF assms(1,2)]
  then have "budget_base now (budget_run obs) (p, m) = Mapping.lookup (facts (budget_run obs)) (p, m)"
    using fact_tracks_fresh assms(3,4) by blast
  moreover have "fact_tracks T obs (p, m) (Mapping.lookup (facts (budget_run obs)) (p, m))" using tr by blast
  ultimately show ?thesis
    using assms(5) by (cases "Mapping.lookup (facts (budget_run obs)) (p, m)")
      (auto simp: budget_skip_alt fact_tracks_def not_le)
qed

section \<open>Prompt marking and fleet hints\<close>

lemma worthCaching_again:
  assumes "promptCacheMinBytes \<le> length system" "Mapping.size (prefix_seen p) < prefix_max p"
    and "Mapping.size (Mapping.update (sha system) t1 (prefix_seen p)) < prefix_max p"
  shows "fst (worthCaching sha t2 system (snd (worthCaching sha t1 system p))) \<longleftrightarrow> time_sub t2 t1 < prefix_ttl p"
  using assms by (simp add: worthCaching_def Let_def mapping_lookup)

lemma fleet_unhealthy_apply:
  "fleet_unhealthy now p (Some (fleet_apply t r mx f)) \<longleftrightarrow>
     (\<exists>d. Mapping.lookup r p = Some d \<and> now < t + min d mx)"
  by (auto simp: fleet_unhealthy_def fleet_apply_def lookup_map_values split: option.splits)

lemma fleet_reports_snoc:
  "Mapping.lookup (fleet_reports (us @ [u])) p =
     (if 0 < fe_seconds u \<and> fe_provider u = p then Some (wrap64 (fe_seconds u * second))
      else Mapping.lookup (fleet_reports us) p)"
  by (auto simp: fleet_reports_def mapping_lookup)

lemma fleet_reports_lookup:
  "Mapping.lookup (fleet_reports us) p = Some d \<Longrightarrow>
     \<exists>u \<in> set us. fe_provider u = p \<and> 0 < fe_seconds u \<and> d = wrap64 (fe_seconds u * second)"
proof (induction us arbitrary: d rule: rev_induct)
  case Nil
  then show ?case by (simp add: fleet_reports_def mapping_lookup)
next
  case (snoc u us)
  then show ?case by (auto simp: fleet_reports_snoc split: if_splits)
qed

section \<open>The tables stay small\<close>

lemma dom_lookup_empty [simp]: "dom (Mapping.lookup Mapping.empty) = {}"
  by (auto simp: lookup_empty)

lemma budget_table_bounded:
  "Mapping.size (facts (fold (\<lambda>(t, p, m, n, ok). budget_observe t p m n ok) obs newBudgetTable)) \<le> 256"
proof -
  have "(\<lambda>(t, p, m, n, ok). budget_observe t p m n ok) = (\<lambda>(t, q). budget_note t q)"
    by (auto simp: budget_note_def fun_eq_iff)
  moreover have "budget.bounded newBudgetTable"
    by (simp add: budget.bounded_def budget_valid_def budget_stamp_dom newBudgetTable_def mapping_lookup)
  ultimately show ?thesis
    using budget.notes_bounded [of newBudgetTable obs] by (simp add: budget.bounded_def mapping_size budget_stamp_dom)
qed

lemma temperature_table_bounded:
  "Mapping.size (temp_seen (fold (\<lambda>(t, p, m). temperature_observe t p m) refusals newTemperatureTable)) \<le> 256"
proof -
  have "temperature.bounded newTemperatureTable"
    by (simp add: temperature.bounded_def temperature_valid_def newTemperatureTable_def mapping_lookup)
  then show ?thesis
    using temperature.notes_bounded [of newTemperatureTable refusals] by (simp add: temperature.bounded_def mapping_size)
qed

lemma prefix_table_bounded:
  "Mapping.size (prefix_seen (fold (\<lambda>(t, system) c. snd (worthCaching sha t system c)) prompts newPrefixCache)) \<le> 4096"
proof -
  have "prefix.bounded newPrefixCache"
    by (simp add: prefix.bounded_def prefix_valid_def newPrefixCache_def mapping_lookup)
  then show ?thesis
    using prefix.notes_bounded [of newPrefixCache sha prompts] unfolding prefix.bounded_def mapping_size
    by (simp add: promptCacheMaxTracked_def)
qed

end
