(* ===== verification/Policy.thy ===== *)
theory Policy
  imports Json Encoding
begin

text \<open>
  The signed routing policy (\<open>policy.go\<close>): the canonical document, the verification of
  an envelope, and the store that keeps the newest verified policy and its file.
  \<open>ed_verify\<close> stands for \<open>ed25519.Verify\<close>; the lemmas hold for every such function.
  Shown: a canonical document decodes to the policy it was made from; what is accepted was
  signed under a trusted key and obeys every constraint; the version never goes back and a
  version never changes its content; a persisted policy survives a restart; the file is
  replaced atomically.
\<close>

section \<open>Documents\<close>

record Route =
  Provider :: bytes
  Model :: bytes

record Policy =
  Schema :: int
  Tenant :: bytes
  Version :: int64
  IssuedAt :: int64
  ExpiresAt :: int64
  Routes :: "Route list"

record Envelope =
  KeyID :: bytes
  Payload :: bytes
  Signature :: bytes

definition empty_Policy :: Policy where
  "empty_Policy = \<lparr>Schema = 0, Tenant = [], Version = 0, IssuedAt = 0, ExpiresAt = 0, Routes = []\<rparr>"

text \<open>\<open>strictJSON\<close>: one value, nothing after it, no unknown field. A setter refuses the names it does not know.\<close>

definition strictJSON :: "(bytes \<Rightarrow> json \<Rightarrow> 'a \<Rightarrow> 'a option) \<Rightarrow> 'a \<Rightarrow> bytes \<Rightarrow> 'a option" where
  "strictJSON f zero b = Option.bind (json_parse b) (dec_struct f zero)"

definition Envelope_field :: "bytes \<Rightarrow> json \<Rightarrow> Envelope \<Rightarrow> Envelope option" where
  "Envelope_field k v e =
     (if key_is ''key_id'' k then map_option (\<lambda>s. e\<lparr>KeyID := s\<rparr>) (dec_string (KeyID e) v)
      else if key_is ''payload'' k then map_option (\<lambda>s. e\<lparr>Payload := s\<rparr>) (dec_string (Payload e) v)
      else if key_is ''signature'' k then map_option (\<lambda>s. e\<lparr>Signature := s\<rparr>) (dec_string (Signature e) v)
      else None)"

definition Route_field :: "bytes \<Rightarrow> json \<Rightarrow> Route \<Rightarrow> Route option" where
  "Route_field k v r =
     (if key_is ''provider'' k then map_option (\<lambda>s. r\<lparr>Provider := s\<rparr>) (dec_string (Provider r) v)
      else if key_is ''model'' k then map_option (\<lambda>s. r\<lparr>Model := s\<rparr>) (dec_string (Model r) v)
      else None)"

definition Policy_field :: "bytes \<Rightarrow> json \<Rightarrow> Policy \<Rightarrow> Policy option" where
  "Policy_field k v p =
     (if key_is ''schema'' k then map_option (\<lambda>n. p\<lparr>Schema := n\<rparr>) (dec_int (Schema p) v)
      else if key_is ''tenant'' k then map_option (\<lambda>s. p\<lparr>Tenant := s\<rparr>) (dec_string (Tenant p) v)
      else if key_is ''version'' k then map_option (\<lambda>n. p\<lparr>Version := n\<rparr>) (dec_int (Version p) v)
      else if key_is ''issued_at'' k then map_option (\<lambda>n. p\<lparr>IssuedAt := n\<rparr>) (dec_int (IssuedAt p) v)
      else if key_is ''expires_at'' k then map_option (\<lambda>n. p\<lparr>ExpiresAt := n\<rparr>) (dec_int (ExpiresAt p) v)
      else if key_is ''routes'' k then
        map_option (\<lambda>rs. p\<lparr>Routes := rs\<rparr>)
          (dec_slice (dec_struct Route_field) \<lparr>Provider = [], Model = []\<rparr> (Routes p) v)
      else None)"

text \<open>\<open>Marshal\<close> writes a map's keys in sorted order.\<close>

definition route_json :: "Route \<Rightarrow> json" where
  "route_json r = JObj [(''model'', JStr (Model r)), (''provider'', JStr (Provider r))]"

definition Canonical :: "Policy \<Rightarrow> bytes" where
  "Canonical p =
     json_print (JObj
       [(''expires_at'', JNum (itoa (ExpiresAt p))),
        (''issued_at'', JNum (itoa (IssuedAt p))),
        (''routes'', JArr (map route_json (Routes p))),
        (''schema'', JNum (itoa (Schema p))),
        (''tenant'', JStr (Tenant p)),
        (''version'', JNum (itoa (Version p)))])"

section \<open>Verification\<close>

datatype policy_error =
    InvalidEnvelope | UntrustedKey | BadBase64 | InvalidSignature | NoncanonicalPolicy
  | InvalidConstraints | InvalidRoute | PolicyRollback | VersionEquivocation | WriteFailed

definition policySchema :: int where
  "policySchema = 1"

definition schemaSupported :: "int \<Rightarrow> int \<Rightarrow> bool" where
  "schemaSupported n most \<longleftrightarrow> n \<ge> 1 \<and> n \<le> most"

fun routes_valid :: "bytes set \<Rightarrow> Route list \<Rightarrow> bool" where
  "routes_valid seen [] = True"
| "routes_valid seen (r # rs) =
     (if (Provider r \<noteq> ''openai'' \<and> Provider r \<noteq> ''anthropic'' \<and> Provider r \<noteq> ''gemini'' \<and> Provider r \<noteq> ''bedrock'')
         \<or> \<not> identifier_matches (Model r) \<or> Provider r \<in> seen
      then False else routes_valid (insert (Provider r) seen) rs)"

text \<open>The constraints of \<open>verify\<close>, in the order of its condition.\<close>

definition constraints_broken :: "bytes \<Rightarrow> instant \<Rightarrow> bool \<Rightarrow> Policy \<Rightarrow> bool" where
  "constraints_broken tenant now allowExpired p \<longleftrightarrow>
     \<not> schemaSupported (Schema p) policySchema \<or> Tenant p \<noteq> tenant \<or> \<not> identifier_matches (Tenant p)
     \<or> Version p < 1 \<or> Version p > 9007199254740991 \<or> IssuedAt p > unix now + 60 \<or> IssuedAt p < 1
     \<or> (\<not> allowExpired \<and> ExpiresAt p \<le> unix now) \<or> ExpiresAt p \<le> IssuedAt p
     \<or> wrap64 (ExpiresAt p - IssuedAt p) > 604800 \<or> length (Routes p) < 1 \<or> length (Routes p) > 4"

definition signed_text :: "bytes \<Rightarrow> bytes \<Rightarrow> bytes" where
  "signed_text kid b = ''switchboard-policy-v1'' @ [CHR 10] @ kid @ [CHR 10] @ b"

type_synonym ed_verify = "bytes \<Rightarrow> bytes \<Rightarrow> bytes \<Rightarrow> bool"

record PolicyStore =
  current :: "Policy option"
  raw :: bytes
  store_Tenant :: bytes
  store_Path :: bytes
  Keys :: "bytes \<rightharpoonup> bytes"

definition verify :: "ed_verify \<Rightarrow> PolicyStore \<Rightarrow> bytes \<Rightarrow> instant \<Rightarrow> bool \<Rightarrow> policy_error + Policy" where
  "verify ed s text now allowExpired =
     refuse (length text > 65536) InvalidEnvelope
     (need InvalidEnvelope (strictJSON Envelope_field \<lparr>KeyID = [], Payload = [], Signature = []\<rparr> text) (\<lambda>e.
      need UntrustedKey (Keys s (KeyID e)) (\<lambda>key.
      refuse (\<not> identifier_matches (KeyID e)) UntrustedKey
     (need BadBase64 (b64_strict (Payload e)) (\<lambda>b.
      need BadBase64 (b64_strict (Signature e)) (\<lambda>sig.
      refuse (\<not> ed key (signed_text (KeyID e) b) sig) InvalidSignature
     (need NoncanonicalPolicy (strictJSON Policy_field empty_Policy b) (\<lambda>p.
      refuse (b \<noteq> Canonical p) NoncanonicalPolicy
     (refuse (constraints_broken (store_Tenant s) now allowExpired p) InvalidConstraints
     (refuse (\<not> routes_valid {} (Routes p)) InvalidRoute
     (Inr p)))))))))))"

definition Verify :: "ed_verify \<Rightarrow> PolicyStore \<Rightarrow> bytes \<Rightarrow> instant \<Rightarrow> policy_error + Policy" where
  "Verify ed s text now = verify ed s text now False"

section \<open>The file\<close>

text \<open>
  How each system call of \<open>atomicFile\<close> goes. \<open>written\<close> is how many bytes the write gets
  out; a short write is an error.
\<close>

record file_script =
  create_ok :: bool
  chmod_ok :: bool
  written :: nat
  sync_ok :: bool
  close_ok :: bool
  rename_ok :: bool
  opendir_ok :: bool
  dirsync_ok :: bool

type_synonym files = "bytes \<rightharpoonup> bytes"

text \<open>The answer, and the states the directory goes through: a crash leaves one of them.\<close>

definition atomicFile :: "file_script \<Rightarrow> bytes \<Rightarrow> bytes \<Rightarrow> bytes \<Rightarrow> files \<Rightarrow> bool \<times> files list" where
  "atomicFile io tmp path b fs =
     (if \<not> create_ok io then (False, [fs])
      else
        let fs1 = fs(tmp \<mapsto> []);
            fs2 = (if chmod_ok io then fs1(tmp \<mapsto> take (written io) b) else fs1);
            ok = (chmod_ok io \<and> length b \<le> written io \<and> sync_ok io \<and> close_ok io)
        in if \<not> ok \<or> \<not> rename_ok io then (False, [fs, fs1, fs2, fs2(tmp := None)])
           else (opendir_ok io \<and> dirsync_ok io, [fs, fs1, fs2, fs2(tmp := None, path \<mapsto> the (fs2 tmp))]))"

section \<open>The store\<close>

definition Restore :: "ed_verify \<Rightarrow> instant \<Rightarrow> bytes \<Rightarrow> PolicyStore \<Rightarrow> policy_error option \<times> PolicyStore" where
  "Restore ed now text s =
     (case verify ed s text now True of
        Inl e \<Rightarrow> (Some e, s)
      | Inr p \<Rightarrow> (None, s\<lparr>current := Some p, raw := text\<rparr>))"

definition Apply ::
  "ed_verify \<Rightarrow> instant \<Rightarrow> file_script \<Rightarrow> bytes \<Rightarrow> bytes \<Rightarrow> bool \<Rightarrow> PolicyStore \<Rightarrow> files \<Rightarrow>
   policy_error option \<times> PolicyStore \<times> files" where
  "Apply ed now io tmp text persist s fs =
     (case Verify ed s text now of
        Inl e \<Rightarrow> (Some e, s, fs)
      | Inr p \<Rightarrow>
          (case (case current s of
                   None \<Rightarrow> None
                 | Some c \<Rightarrow>
                     if Version p < Version c then Some (Some PolicyRollback)
                     else if Version p = Version c then
                       (if Canonical p \<noteq> Canonical c then Some (Some VersionEquivocation) else Some None)
                     else None) of
             Some r \<Rightarrow> (r, s, fs)
           | None \<Rightarrow>
               (let (ok, fss) = (if persist then atomicFile io tmp (store_Path s) text fs else (True, [fs]))
                in if \<not> ok then (Some WriteFailed, s, last fss)
                   else (None, s\<lparr>current := Some p, raw := text\<rparr>, last fss))))"

definition Current :: "instant \<Rightarrow> PolicyStore \<Rightarrow> Policy option" where
  "Current now s =
     (case current s of
        None \<Rightarrow> None
      | Some p \<Rightarrow> if ExpiresAt p \<le> unix now then None else Some p)"

definition Expired :: "instant \<Rightarrow> PolicyStore \<Rightarrow> bool" where
  "Expired now s = (case current s of None \<Rightarrow> False | Some p \<Rightarrow> ExpiresAt p \<le> unix now)"

definition store_ExpiresAt :: "PolicyStore \<Rightarrow> int64" where
  "store_ExpiresAt s = (case current s of None \<Rightarrow> 0 | Some p \<Rightarrow> ExpiresAt p)"

section \<open>Lemmas: the canonical document\<close>

text \<open>Lower-case ASCII names fold to themselves, so a literal key selects its own field.\<close>

definition plain_name :: "bytes \<Rightarrow> bool" where
  "plain_name s \<longleftrightarrow> list_all (\<lambda>c. byte_nat c < 128 \<and> \<not> is_upper c) s"

lemma fold_name_plain: "plain_name s \<Longrightarrow> fold_name s = s"
  by (induction s) (auto simp: plain_name_def ascii_lower_def)

lemma key_is_plain: "plain_name a \<Longrightarrow> plain_name b \<Longrightarrow> key_is a b \<longleftrightarrow> b = a"
  by (simp add: key_is_def fold_name_plain)

lemma identifier_ascii:
  assumes "identifier_matches s"
  shows "ascii s"
proof -
  have "identifier_char c \<Longrightarrow> byte_nat c < 128" for c
    by (auto simp: identifier_char_def is_alnum_def is_digit_def is_upper_def is_lower_def)
  moreover have "is_alnum c \<Longrightarrow> byte_nat c < 128" for c
    by (auto simp: is_alnum_def is_digit_def is_upper_def is_lower_def)
  ultimately show ?thesis
    using assms by (cases s) (auto simp: identifier_matches_def ascii_def list_all_iff)
qed

lemma nat_digits_zero: "0 < n \<Longrightarrow> hd (nat_digits n) \<noteq> CHR ''0''"
proof (induction n rule: nat_digits.induct)
  case (1 n)
  show ?case
  proof (cases "n < 10")
    case True
    then show ?thesis using "1.prems" by (subst nat_digits.simps) (simp add: char_of_eq)
  next
    case False
    then show ?thesis using "1" nat_digits_nonempty [of "n div 10"] by (subst nat_digits.simps) simp
  qed
qed

lemma valid_digits:
  assumes "list_all is_digit ds" "ds \<noteq> []" "hd ds = CHR ''0'' \<Longrightarrow> length ds = 1"
  shows "valid_number ds" "valid_number (CHR ''-'' # ds)"
proof -
  have "digits_then ds = (ds, [])" using assms(1) by (simp add: digits_then_def list_all_iff takeWhile_eq_all_conv dropWhile_eq_Nil_conv)
  moreover have "hd ds \<noteq> CHR ''-''" using assms(1,2) not_digit_sign by (cases ds) auto
  ultimately show "valid_number ds" "valid_number (CHR ''-'' # ds)"
    using assms(2,3) by (auto simp: valid_number_def)
qed

lemma valid_itoa: "valid_number (itoa i)"
proof -
  have "hd (nat_digits n) = CHR ''0'' \<Longrightarrow> length (nat_digits n) = 1" for n
    using nat_digits_zero [of n] by (cases "n = 0") (auto simp: nat_digits.simps [of 0])
  then show ?thesis
    unfolding itoa_def using valid_digits [OF nat_digits_all nat_digits_nonempty] by auto
qed

text \<open>A policy whose texts are ASCII and whose numbers are machine integers.\<close>

definition int64_ok :: "int \<Rightarrow> bool" where
  "int64_ok i \<longleftrightarrow> min_int64 \<le> i \<and> i \<le> max_int64"

definition policy_plain :: "Policy \<Rightarrow> bool" where
  "policy_plain p \<longleftrightarrow>
     ascii (Tenant p) \<and> int64_ok (Schema p) \<and> int64_ok (Version p) \<and> int64_ok (IssuedAt p) \<and> int64_ok (ExpiresAt p)
     \<and> (\<forall>r \<in> set (Routes p). ascii (Provider r) \<and> ascii (Model r))"

lemma dec_int_itoa: "int64_ok i \<Longrightarrow> dec_int old (JNum (itoa i)) = Some i"
  by (simp add: dec_int_def atoi_itoa int64_ok_def)

lemma dec_string_JStr [simp]: "dec_string old (JStr s) = Some s"
  by (simp add: dec_string_def)

lemma plain_literals [simp]:
  "plain_name ''schema''" "plain_name ''tenant''" "plain_name ''version''" "plain_name ''issued_at''"
  "plain_name ''expires_at''" "plain_name ''routes''" "plain_name ''provider''" "plain_name ''model''"
  "plain_name ''key_id''" "plain_name ''payload''" "plain_name ''signature''"
  by (simp_all add: plain_name_def is_upper_def)

lemma dec_route: "dec_struct Route_field r0 (route_json r) = Some r"
  by (cases r) (simp add: dec_struct_def route_json_def Route_field_def key_is_plain)

lemma dec_routes: "dec_elems (dec_struct Route_field) zero old (map route_json rs) = Some rs"
  by (induction rs arbitrary: old) (simp_all add: dec_route)

lemma depth_route: "json_depth (route_json r) = 1"
  by (simp add: route_json_def)

lemma Canonical_decodes:
  assumes "policy_plain p"
  shows "strictJSON Policy_field empty_Policy (Canonical p) = Some p"
proof -
  let ?j = "JObj
       [(''expires_at'', JNum (itoa (ExpiresAt p))), (''issued_at'', JNum (itoa (IssuedAt p))),
        (''routes'', JArr (map route_json (Routes p))), (''schema'', JNum (itoa (Schema p))),
        (''tenant'', JStr (Tenant p)), (''version'', JNum (itoa (Version p)))]"
  have "json_ok ?j"
    using assms by (auto simp: policy_plain_def valid_itoa route_json_def ascii_utf8_valid)
  moreover have "json_depth ?j \<le> max_nesting"
    by (simp add: max_nesting_def depth_route)
  ultimately have "json_parse (Canonical p) = Some ?j"
    unfolding Canonical_def by (rule json_parse_print)
  then show ?thesis
    using assms by (cases p) (simp add: strictJSON_def dec_struct_def Policy_field_def key_is_plain dec_int_itoa
        dec_slice_def dec_routes policy_plain_def empty_Policy_def)
qed

lemma Canonical_inj:
  assumes "policy_plain p" "policy_plain q" "Canonical p = Canonical q"
  shows "p = q"
  using Canonical_decodes [OF assms(1)] Canonical_decodes [OF assms(2)] assms(3) by (metis option.inject)

section \<open>Lemmas: what is accepted\<close>

text \<open>A well-formed policy for a tenant, read off the constraints and the route loop.\<close>

definition policy_ok :: "bytes \<Rightarrow> Policy \<Rightarrow> bool" where
  "policy_ok tenant p \<longleftrightarrow>
     Schema p = 1 \<and> Tenant p = tenant \<and> identifier_matches tenant \<and>
     1 \<le> Version p \<and> Version p < 2 ^ 53 \<and>
     1 \<le> IssuedAt p \<and> IssuedAt p < ExpiresAt p \<and> ExpiresAt p - IssuedAt p \<le> 604800 \<and>
     1 \<le> length (Routes p) \<and> length (Routes p) \<le> 4 \<and> distinct (map Provider (Routes p)) \<and>
     (\<forall>r \<in> set (Routes p). Provider r \<in> {''openai'', ''anthropic'', ''gemini'', ''bedrock''} \<and> identifier_matches (Model r))"

lemma routes_valid_iff:
  "routes_valid seen rs \<longleftrightarrow>
     distinct (map Provider rs) \<and> seen \<inter> set (map Provider rs) = {} \<and>
     (\<forall>r \<in> set rs. Provider r \<in> {''openai'', ''anthropic'', ''gemini'', ''bedrock''} \<and> identifier_matches (Model r))"
  by (induction rs arbitrary: seen) auto

text \<open>
  Where the dates are machine integers the subtraction of \<open>verify\<close> cannot wrap: a
  decoded integer is in range, and the earlier conditions order the two.
\<close>

lemma constraints_iff:
  assumes "int64_ok (ExpiresAt p)"
  shows "\<not> constraints_broken tenant now allowExpired p \<and> routes_valid {} (Routes p) \<longleftrightarrow>
    policy_ok tenant p \<and> IssuedAt p \<le> unix now + 60 \<and> (allowExpired \<or> unix now < ExpiresAt p)"
proof (cases "1 \<le> IssuedAt p \<and> IssuedAt p < ExpiresAt p")
  case True
  then have "wrap64 (ExpiresAt p - IssuedAt p) = ExpiresAt p - IssuedAt p"
    using assms by (intro wrap64_id) (auto simp: int64_ok_def min_int64_def max_int64_def)
  with True show ?thesis
    by (auto simp: constraints_broken_def policy_ok_def schemaSupported_def policySchema_def routes_valid_iff Suc_le_eq)
next
  case False
  then show ?thesis by (auto simp: constraints_broken_def policy_ok_def)
qed

text \<open>Decoding gives machine integers.\<close>

lemma dec_int_ok: "dec_int old v = Some n \<Longrightarrow> int64_ok old \<Longrightarrow> int64_ok n"
  by (auto simp: dec_int_def atoi_def int64_ok_def Let_def split: json.splits if_splits)

definition policy_ints :: "Policy \<Rightarrow> bool" where
  "policy_ints p \<longleftrightarrow> int64_ok (Schema p) \<and> int64_ok (Version p) \<and> int64_ok (IssuedAt p) \<and> int64_ok (ExpiresAt p)"

lemma Policy_field_ints: "Policy_field k v p = Some p' \<Longrightarrow> policy_ints p \<Longrightarrow> policy_ints p'"
  by (auto simp: Policy_field_def policy_ints_def dec_int_ok split: if_splits)

lemma dec_fields_inv:
  assumes "\<And>k v a a'. f k v a = Some a' \<Longrightarrow> P a \<Longrightarrow> P a'"
  shows "dec_fields f a kvs = Some a' \<Longrightarrow> P a \<Longrightarrow> P a'"
proof (induction kvs arbitrary: a)
  case (Cons kv kvs)
  then show ?case using assms by (cases kv) (auto split: option.splits)
qed simp

lemma dec_struct_inv:
  assumes "\<And>k v a a'. f k v a = Some a' \<Longrightarrow> P a \<Longrightarrow> P a'" "dec_struct f a j = Some a'" "P a"
  shows "P a'"
  using assms(2,3) dec_fields_inv [of f P, OF assms(1)] by (auto simp: dec_struct_def split: json.splits)

lemma strict_policy_ints: "strictJSON Policy_field empty_Policy b = Some p \<Longrightarrow> policy_ints p"
proof -
  assume "strictJSON Policy_field empty_Policy b = Some p"
  then obtain j where "dec_struct Policy_field empty_Policy j = Some p"
    by (auto simp: strictJSON_def bind_eq_Some_conv)
  moreover have "policy_ints empty_Policy"
    by (simp add: policy_ints_def empty_Policy_def int64_ok_def min_int64_def max_int64_def)
  ultimately show "policy_ints p" by (rule dec_struct_inv [of Policy_field policy_ints, rotated]) (rule Policy_field_ints)
qed

lemma verify_iff:
  "verify ed s text now allowExpired = Inr p \<longleftrightarrow>
     length text \<le> 65536 \<and>
     (\<exists>e key sig. strictJSON Envelope_field \<lparr>KeyID = [], Payload = [], Signature = []\<rparr> text = Some e \<and>
        Keys s (KeyID e) = Some key \<and> identifier_matches (KeyID e) \<and>
        b64_strict (Payload e) = Some (Canonical p) \<and> b64_strict (Signature e) = Some sig \<and>
        ed key (signed_text (KeyID e) (Canonical p)) sig) \<and>
     strictJSON Policy_field empty_Policy (Canonical p) = Some p \<and>
     \<not> constraints_broken (store_Tenant s) now allowExpired p \<and> routes_valid {} (Routes p)"
  unfolding verify_def refuse_Inr need_Inr not_not by (simp add: not_less) blast

lemma provider_ascii: "p \<in> {''openai'', ''anthropic'', ''gemini'', ''bedrock''} \<Longrightarrow> ascii p"
  by (auto simp: ascii_def)

lemma policy_ok_plain: "policy_ok tenant p \<Longrightarrow> policy_ints p \<Longrightarrow> policy_plain p"
  unfolding policy_plain_def policy_ok_def policy_ints_def using identifier_ascii provider_ascii by blast

text \<open>An accepted policy is well formed, in date, and was signed under a trusted key.\<close>

definition authentic :: "ed_verify \<Rightarrow> (bytes \<rightharpoonup> bytes) \<Rightarrow> Policy \<Rightarrow> bool" where
  "authentic ed keys p \<longleftrightarrow>
     (\<exists>kid key sig. keys kid = Some key \<and> ed key (signed_text kid (Canonical p)) sig)"

lemma verify_sound:
  assumes "verify ed s text now allowExpired = Inr p"
  shows "authentic ed (Keys s) p" "policy_ok (store_Tenant s) p" "policy_plain p"
    "IssuedAt p \<le> unix now + 60" "allowExpired \<or> unix now < ExpiresAt p"
proof -
  note v = assms [unfolded verify_iff]
  show "authentic ed (Keys s) p" using v by (auto simp: authentic_def)
  have ints: "policy_ints p" using v strict_policy_ints by blast
  then have ok: "policy_ok (store_Tenant s) p \<and> IssuedAt p \<le> unix now + 60 \<and> (allowExpired \<or> unix now < ExpiresAt p)"
    using v constraints_iff by (auto simp: policy_ints_def)
  then show "policy_ok (store_Tenant s) p" "IssuedAt p \<le> unix now + 60" "allowExpired \<or> unix now < ExpiresAt p"
    by auto
  show "policy_plain p"
    using ok ints policy_ok_plain by blast
qed

text \<open>And what a trusted signer sends is accepted.\<close>

definition envelope_text :: "bytes \<Rightarrow> bytes \<Rightarrow> bytes \<Rightarrow> bytes" where
  "envelope_text kid b sig =
     json_print (JObj [(''key_id'', JStr kid), (''payload'', JStr (b64_encode b)), (''signature'', JStr (b64_encode sig))])"

lemma b64_encode_ascii: "ascii (b64_encode b)"
proof -
  have "byte_nat (b64_char v) < 128" for v
    by (auto simp: b64_char_def)
  then show ?thesis by (induction b rule: b64_encode.induct) (simp_all add: ascii_def)
qed

lemma verify_complete:
  assumes "Keys s kid = Some key" "identifier_matches kid" "ed key (signed_text kid (Canonical p)) sig"
    and "policy_ok (store_Tenant s) p" "int64_ok (ExpiresAt p)" "IssuedAt p \<le> unix now + 60" "allowExpired \<or> unix now < ExpiresAt p"
    and "length (envelope_text kid (Canonical p) sig) \<le> 65536"
  shows "verify ed s (envelope_text kid (Canonical p) sig) now allowExpired = Inr p"
proof -
  have "strictJSON Envelope_field \<lparr>KeyID = [], Payload = [], Signature = []\<rparr> (envelope_text kid (Canonical p) sig) =
      Some \<lparr>KeyID = kid, Payload = b64_encode (Canonical p), Signature = b64_encode sig\<rparr>"
    unfolding strictJSON_def envelope_text_def
    by (subst json_parse_print)
      (simp_all add: identifier_ascii ascii_utf8_valid assms(2) b64_encode_ascii max_nesting_def dec_struct_def
        Envelope_field_def key_is_plain)
  moreover have "policy_ints p"
    using assms(4,5) by (auto simp: policy_ints_def policy_ok_def int64_ok_def min_int64_def max_int64_def)
  ultimately show ?thesis
    using assms constraints_iff [OF assms(5), of "store_Tenant s" now allowExpired]
      Canonical_decodes [OF policy_ok_plain [OF assms(4)]] unfolding verify_iff
    by (simp add: b64_strict_encode)
qed

section \<open>Lemmas: the store over time\<close>

lemma Apply_cases:
  obtains (refused) e fs' where "Apply ed now io tmp text persist s fs = (Some e, s, fs')"
  | (same) p where "Apply ed now io tmp text persist s fs = (None, s, fs)" "verify ed s text now False = Inr p"
      "\<exists>c. current s = Some c \<and> Version p = Version c \<and> Canonical p = Canonical c"
  | (newer) p fs' where "Apply ed now io tmp text persist s fs = (None, s\<lparr>current := Some p, raw := text\<rparr>, fs')"
      "verify ed s text now False = Inr p" "\<forall>c. current s = Some c \<longrightarrow> Version c < Version p"
      "persist \<longrightarrow> (\<exists>fss. atomicFile io tmp (store_Path s) text fs = (True, fss) \<and> fs' = last fss)"
proof (cases "verify ed s text now False")
  case (Inl e)
  then show ?thesis using refused by (simp add: Apply_def Verify_def)
next
  case (Inr p)
  consider "\<exists>c. current s = Some c \<and> Version p < Version c"
    | "\<exists>c. current s = Some c \<and> Version p = Version c" | "\<forall>c. current s = Some c \<longrightarrow> Version c < Version p"
    by (cases "current s") force+
  then show ?thesis
  proof cases
    case 1
    then show ?thesis using refused Inr by (auto simp: Apply_def Verify_def)
  next
    case 2
    then obtain c where c: "current s = Some c" "Version p = Version c" by blast
    then show ?thesis
      using refused same Inr by (cases "Canonical p = Canonical c") (simp_all add: Apply_def Verify_def)
  next
    case 3
    obtain ok fss where w: "(if persist then atomicFile io tmp (store_Path s) text fs else (True, [fs])) = (ok, fss)"
      by fastforce
    have "(case current s of None \<Rightarrow> None
           | Some c \<Rightarrow> if Version p < Version c then Some (Some PolicyRollback)
               else if Version p = Version c then
                 (if Canonical p \<noteq> Canonical c then Some (Some VersionEquivocation) else Some None)
               else None) = None"
      using 3 by (cases "current s") force+
    then have "Apply ed now io tmp text persist s fs =
        (if \<not> ok then (Some WriteFailed, s, last fss) else (None, s\<lparr>current := Some p, raw := text\<rparr>, last fss))"
      by (simp only: Apply_def Verify_def Inr sum.case option.case w Let_def prod.case)
    then show ?thesis using refused newer Inr 3 w by (cases ok) (auto split: if_splits)
  qed
qed

text \<open>
  Steps of a running gateway on its store: an \<open>Apply\<close> of any bytes at any instant with any
  fate of the write. \<open>Restore\<close> runs once, before serving.
\<close>

inductive policy_step :: "ed_verify \<Rightarrow> PolicyStore \<Rightarrow> PolicyStore \<Rightarrow> bool" for ed where
  applied: "Apply ed now io tmp text persist s fs = (r, s', fs') \<Longrightarrow> policy_step ed s s'"

inductive policy_steps :: "ed_verify \<Rightarrow> PolicyStore \<Rightarrow> PolicyStore \<Rightarrow> bool" for ed where
  none: "policy_steps ed s s"
| more: "policy_steps ed s s' \<Longrightarrow> policy_step ed s' s'' \<Longrightarrow> policy_steps ed s s''"

inductive_cases policy_stepE: "policy_step ed s s'"

text \<open>What the store holds was verified under its own keys for its own tenant.\<close>

definition store_ok :: "ed_verify \<Rightarrow> PolicyStore \<Rightarrow> bool" where
  "store_ok ed s \<longleftrightarrow> (\<forall>p. current s = Some p \<longrightarrow> authentic ed (Keys s) p \<and> policy_ok (store_Tenant s) p \<and> policy_plain p)"

definition same_trust :: "PolicyStore \<Rightarrow> PolicyStore \<Rightarrow> bool" where
  "same_trust s s' \<longleftrightarrow> Keys s' = Keys s \<and> store_Tenant s' = store_Tenant s \<and> store_Path s' = store_Path s"

text \<open>The relation every step keeps: the version grows, or the policy is the same one.\<close>

definition advances :: "PolicyStore \<Rightarrow> PolicyStore \<Rightarrow> bool" where
  "advances s s' \<longleftrightarrow> (\<forall>c. current s = Some c \<longrightarrow>
     (\<exists>p. current s' = Some p \<and> (p = c \<or> Version c < Version p)))"

lemma step_keeps:
  assumes "policy_step ed s s'"
  shows "advances s s'" "same_trust s s'" "store_ok ed s \<Longrightarrow> store_ok ed s'"
proof -
  have "advances s s' \<and> same_trust s s' \<and> (store_ok ed s \<longrightarrow> store_ok ed s')"
    using assms
  proof (cases rule: policy_step.cases)
    case (applied now io tmp body persist fs r fs2)
    show ?thesis
    proof (cases rule: Apply_cases [of ed now io tmp body persist s fs])
      case (newer p fs'')
      then show ?thesis
        using applied verify_sound [OF newer(2)] by (auto simp: advances_def same_trust_def store_ok_def)
    qed (use applied in \<open>auto simp: advances_def same_trust_def\<close>)
  qed
  then show "advances s s'" "same_trust s s'" "store_ok ed s \<Longrightarrow> store_ok ed s'" by auto
qed

lemma steps_keep:
  "policy_steps ed s s' \<Longrightarrow> advances s s' \<and> same_trust s s' \<and> (store_ok ed s \<longrightarrow> store_ok ed s')"
proof (induction rule: policy_steps.induct)
  case (none s)
  then show ?case by (simp add: advances_def same_trust_def)
next
  case (more s s' s'')
  then show ?case using step_keeps [OF more.hyps(2)] by (fastforce simp: advances_def same_trust_def)
qed

lemma atomicFile_atomic:
  assumes "tmp \<noteq> path" "atomicFile io tmp path b fs = (ok, fss)" "fs' \<in> set fss"
  shows "fs' path = fs path \<or> fs' path = Some b"
  using assms by (auto simp: atomicFile_def Let_def split: if_splits)

lemma atomicFile_done:
  assumes "atomicFile io tmp path b fs = (True, fss)"
  shows "last fss = (fs(tmp := None))(path \<mapsto> b)"
  using assms by (auto simp: atomicFile_def Let_def split: if_splits)

lemma atomicFile_others:
  assumes "atomicFile io tmp path b fs = (ok, fss)" "fs' \<in> set fss" "f \<noteq> tmp" "f \<noteq> path"
  shows "fs' f = fs f"
  using assms by (auto simp: atomicFile_def Let_def split: if_splits)

text \<open>A verified text verifies again later where expiry is allowed, for a store with the same trust.\<close>

lemma verify_later:
  assumes "verify ed s text now allowExpired = Inr p" "now \<le> now'" "same_trust s s'"
  shows "verify ed s' text now' True = Inr p"
proof -
  have "unix now \<le> unix now'" using assms(2) by (simp add: unix_def second_def zdiv_mono1)
  then show ?thesis
    using assms(1,3) unfolding verify_iff by (auto simp: constraints_broken_def same_trust_def)
qed

lemma applied_restores:
  assumes "Apply ed now io tmp text True s fs = (None, s', fs')" "current s' \<noteq> current s" "now \<le> later" "same_trust s t"
  shows "fs' (store_Path s) = Some text" "current (snd (Restore ed later text t)) = current s'"
proof -
  have new: "\<exists>p fss. s' = s\<lparr>current := Some p, raw := text\<rparr> \<and> verify ed s text now False = Inr p \<and>
      atomicFile io tmp (store_Path s) text fs = (True, fss) \<and> fs' = last fss"
    by (cases rule: Apply_cases [of ed now io tmp "text" True s fs]) (use assms(1,2) in auto)
  then show "fs' (store_Path s) = Some text" using atomicFile_done by fastforce
  show "current (snd (Restore ed later text t)) = current s'"
    using new verify_later [OF _ assms(3,4)] by (auto simp: Restore_def)
qed

end
