(* ===== verification/Chat.thy ===== *)
theory Chat
  imports Policy Go_Float Config "HOL-Library.List_Lexorder" "HOL-Library.Char_ord"
begin

text \<open>
  The request side of \<open>adapter.go\<close> and \<open>bedrock.go\<close>: what \<open>ParseChat\<close> accepts, the
  hint it gives where the decoding failed, and the request \<open>upstream\<close> builds for each
  provider. \<open>format_float\<close> is the text \<open>encoding/json\<close> writes for a \<open>float64\<close>,
  \<open>new_request\<close> says whether \<open>http.NewRequest\<close> takes a URL, and \<open>sign\<close> is the
  signature the AWS SDK puts on a request.
\<close>

section \<open>Requests\<close>

record Message =
  Role :: bytes
  Content :: bytes

record Chat =
  chat_Model :: bytes
  Messages :: "Message list"
  Stream :: bool
  MaxTokens :: int
  Temperature :: "rat option"
  CacheSystem :: bool

definition empty_Chat :: Chat where
  "empty_Chat = \<lparr>chat_Model = [], Messages = [], Stream = False, MaxTokens = 0, Temperature = None, CacheSystem = False\<rparr>"

text \<open>The value of a number literal, and its reading as a \<open>float64\<close>, which fails on overflow.\<close>

definition num_value :: "bytes \<Rightarrow> rat" where
  "num_value s =
     (let neg = (s \<noteq> [] \<and> hd s = CHR ''-'');
          (ip, r1) = digits_then (if neg then tl s else s);
          (fp, r2) = (case r1 of c # r \<Rightarrow> if c = CHR ''.'' then digits_then r else ([], r1) | [] \<Rightarrow> ([], []));
          e = (case r2 of [] \<Rightarrow> 0 | c # r \<Rightarrow>
                 if r \<noteq> [] \<and> hd r = CHR ''-'' then - digits_value 0 (tl r)
                 else digits_value 0 (if r \<noteq> [] \<and> hd r = CHR ''+'' then tl r else r));
          v = of_int (digits_value 0 (ip @ fp)) * 10 powi (e - int (length fp))
      in if neg then - v else v)"

definition dec_float :: "rat option \<Rightarrow> json \<Rightarrow> rat option option" where
  "dec_float old j =
     (case j of
        JNum s \<Rightarrow> (let v = f64 (num_value s) in if \<bar>v\<bar> \<ge> 2 ^ 1024 then None else Some (Some v))
      | JNull \<Rightarrow> Some None
      | _ \<Rightarrow> None)"

definition Message_field :: "bytes \<Rightarrow> json \<Rightarrow> Message \<Rightarrow> Message option" where
  "Message_field k v m =
     (if key_is ''role'' k then map_option (\<lambda>x. m\<lparr>Role := x\<rparr>) (dec_string (Role m) v)
      else if key_is ''content'' k then map_option (\<lambda>x. m\<lparr>Content := x\<rparr>) (dec_string (Content m) v)
      else None)"

definition Chat_field :: "bytes \<Rightarrow> json \<Rightarrow> Chat \<Rightarrow> Chat option" where
  "Chat_field k v c =
     (if key_is ''model'' k then map_option (\<lambda>x. c\<lparr>chat_Model := x\<rparr>) (dec_string (chat_Model c) v)
      else if key_is ''messages'' k then
        map_option (\<lambda>x. c\<lparr>Messages := x\<rparr>)
          (dec_slice (dec_struct Message_field) \<lparr>Role = [], Content = []\<rparr> (Messages c) v)
      else if key_is ''stream'' k then map_option (\<lambda>x. c\<lparr>Stream := x\<rparr>) (dec_bool (Stream c) v)
      else if key_is ''max_tokens'' k then map_option (\<lambda>x. c\<lparr>MaxTokens := x\<rparr>) (dec_int (MaxTokens c) v)
      else if key_is ''temperature'' k then map_option (\<lambda>x. c\<lparr>Temperature := x\<rparr>) (dec_float (Temperature c) v)
      else None)"

definition supportedFields :: "bytes list" where
  "supportedFields = [''model'', ''messages'', ''stream'', ''max_tokens'', ''temperature'']"

text \<open>What the hint says: no object, the unsupported names (at most five, and how many more), or a bad value.\<close>

datatype hint = NotAnObject | UnsupportedFields "bytes list" nat | UnsupportedValue

definition parseHint :: "bytes \<Rightarrow> hint" where
  "parseHint b =
     (case json_parse b of
        Some (JObj kvs) \<Rightarrow>
          (let unknown = sort (remdups (filter (\<lambda>k. k \<notin> set supportedFields) (map fst kvs)))
           in if unknown \<noteq> [] then UnsupportedFields (take 5 unknown) (length unknown - 5) else UnsupportedValue)
      | Some JNull \<Rightarrow> UnsupportedValue
      | _ \<Rightarrow> NotAnObject)"

datatype chat_error =
    NotDecoded hint | WrongModel bytes | MessageCount nat | InvalidLimits | NotTextMessages | LastNotUser

fun messages_ok :: "nat \<Rightarrow> Message list \<Rightarrow> bool" where
  "messages_ok i [] = True"
| "messages_ok i (m # ms) =
     (if Content m = [] \<or> (Role m \<noteq> ''user'' \<and> Role m \<noteq> ''assistant'' \<and> Role m \<noteq> ''system'')
         \<or> (Role m = ''system'' \<and> i \<noteq> 0)
      then False else messages_ok (Suc i) ms)"

definition ParseChat :: "bytes \<Rightarrow> chat_error + Chat" where
  "ParseChat b =
     need (NotDecoded (parseHint b)) (strictJSON Chat_field empty_Chat b) (\<lambda>c.
     refuse (chat_Model c \<noteq> ''preferred'') (WrongModel (chat_Model c))
    (refuse (length (Messages c) < 1 \<or> length (Messages c) > 128) (MessageCount (length (Messages c)))
    (let c = (if MaxTokens c = 0 then c\<lparr>MaxTokens := 1024\<rparr> else c) in
     refuse (MaxTokens c < 1 \<or> MaxTokens c > 16384 \<or>
             (case Temperature c of None \<Rightarrow> False | Some t \<Rightarrow> t < 0 \<or> t > 1)) InvalidLimits
    (refuse (\<not> messages_ok 0 (Messages c)) NotTextMessages
    (refuse (Role (last (Messages c)) \<noteq> ''user'') LastNotUser
    (Inr c))))))"

definition systemOf :: "Chat \<Rightarrow> bytes" where
  "systemOf c = (case find (\<lambda>m. Role m = ''system'') (Messages c) of None \<Rightarrow> [] | Some m \<Rightarrow> Content m)"

section \<open>The upstream request\<close>

record request =
  req_url :: bytes
  req_body :: bytes
  req_headers :: "(bytes \<times> bytes) list"

record transport =
  format_float :: "rat \<Rightarrow> bytes"
  new_request :: "bytes \<Rightarrow> bool"
  sign :: "(bytes \<Rightarrow> request \<Rightarrow> request option) option"

text \<open>The loop that separates the system prompt from the other messages.\<close>

fun split_system :: "bytes \<Rightarrow> Message list \<Rightarrow> Message list \<Rightarrow> bytes \<times> Message list" where
  "split_system system msgs [] = (system, msgs)"
| "split_system system msgs (m # ms) =
     (if Role m = ''system'' then split_system (Content m) msgs ms else split_system system (msgs @ [m]) ms)"

definition message_json :: "Message \<Rightarrow> json" where
  "message_json m = JObj [(''role'', JStr (Role m)), (''content'', JStr (Content m))]"

definition temperature_field :: "transport \<Rightarrow> Chat \<Rightarrow> (bytes \<times> json) list" where
  "temperature_field tr c = (case Temperature c of None \<Rightarrow> [] | Some t \<Rightarrow> [(''temperature'', JNum (format_float tr t))])"

definition openai_body :: "transport \<Rightarrow> Chat \<Rightarrow> Route \<Rightarrow> json" where
  "openai_body tr c r = JObj (
     [(''max_completion_tokens'', JNum (itoa (MaxTokens c))),
      (''messages'', JArr (map message_json (Messages c))),
      (''model'', JStr (Model r)),
      (''stream'', JBool (Stream c))] @ temperature_field tr c)"

definition anthropic_body :: "transport \<Rightarrow> Chat \<Rightarrow> Route \<Rightarrow> bytes \<Rightarrow> Message list \<Rightarrow> json" where
  "anthropic_body tr c r system msgs = JObj (
     [(''max_tokens'', JNum (itoa (MaxTokens c))),
      (''messages'', JArr (map message_json msgs)),
      (''model'', JStr (Model r)),
      (''stream'', JBool (Stream c))]
     @ (if system = [] then []
        else if CacheSystem c then
          [(''system'', JArr [JObj [(''cache_control'', JObj [(''type'', JStr ''ephemeral'')]),
                                    (''text'', JStr system), (''type'', JStr ''text'')]])]
        else [(''system'', JStr system)])
     @ temperature_field tr c)"

definition text_parts :: "bytes \<Rightarrow> json" where
  "text_parts t = JArr [JObj [(''text'', JStr t)]]"

definition gemini_body :: "transport \<Rightarrow> Chat \<Rightarrow> bytes \<Rightarrow> Message list \<Rightarrow> json" where
  "gemini_body tr c system msgs = JObj (
     [(''contents'', JArr (map (\<lambda>m. JObj [(''parts'', text_parts (Content m)),
         (''role'', JStr (if Role m = ''assistant'' then ''model'' else Role m))]) msgs)),
      (''generationConfig'', JObj ([(''candidateCount'', JNum ''1''), (''maxOutputTokens'', JNum (itoa (MaxTokens c)))]
         @ temperature_field tr c))]
     @ (if system = [] then [] else [(''systemInstruction'', JObj [(''parts'', text_parts system)])]))"

definition bedrockBody :: "transport \<Rightarrow> Chat \<Rightarrow> bytes \<Rightarrow> Message list \<Rightarrow> json" where
  "bedrockBody tr c system msgs = JObj (
     [(''inferenceConfig'', JObj ([(''maxTokens'', JNum (itoa (MaxTokens c)))] @ temperature_field tr c)),
      (''messages'', JArr (map (\<lambda>m. JObj [(''content'', text_parts (Content m)), (''role'', JStr (Role m))]) msgs))]
     @ (if system = [] then [] else [(''system'', text_parts system)]))"

text \<open>\<open>url.PathEscape\<close> and \<open>trimURL\<close>.\<close>

definition upper_hex :: "nat \<Rightarrow> char" where
  "upper_hex d = (if d < 10 then char_of (48 + d) else char_of (55 + d))"

definition PathEscape :: "bytes \<Rightarrow> bytes" where
  "PathEscape s = concat (map (\<lambda>c.
     if is_alnum c \<or> c \<in> set ''-_.~$&+=:@'' then [c]
     else [CHR ''%'', upper_hex (byte_nat c div 16), upper_hex (byte_nat c mod 16)]) s)"

definition trimURL :: "bytes \<Rightarrow> bytes" where
  "trimURL s = rev (dropWhile (\<lambda>c. c = CHR ''/'') (rev s))"

definition adapter_route :: "transport \<Rightarrow> Chat \<Rightarrow> Route \<Rightarrow> (bytes \<times> json) option" where
  "adapter_route tr c r =
     (let (system, msgs) = split_system [] [] (Messages c) in
      if Provider r = ''openai'' then Some (''/v1/chat/completions'', openai_body tr c r)
      else if Provider r = ''anthropic'' then Some (''/v1/messages'', anthropic_body tr c r system msgs)
      else if Provider r = ''gemini'' then
        Some (''/v1beta/models/'' @ Model r @
                (if Stream c then '':streamGenerateContent?alt=sse'' else '':generateContent''),
              gemini_body tr c system msgs)
      else if Provider r = ''bedrock'' then
        Some (''/model/'' @ PathEscape (Model r) @ (if Stream c then ''/converse-stream'' else ''/converse''),
              bedrockBody tr c system msgs)
      else None)"

datatype upstream_error = UnknownAdapter | BadURL | NoSigner | SignFailed

definition upstream :: "transport \<Rightarrow> host \<Rightarrow> Chat \<Rightarrow> Route \<Rightarrow> ProviderConfig \<Rightarrow> upstream_error + request" where
  "upstream tr h c r p =
     need UnknownAdapter (adapter_route tr c r) (\<lambda>(path, body).
     let raw = json_print body;
         u = trimURL (URL p) @ path;
         req = \<lparr>req_url = u, req_body = raw,
                req_headers = (''Content-Type'', ''application/json'') #
                  (if Stream c then [(''Accept'', ''text/event-stream'')] else [])\<rparr>;
         key = Getenv h (KeyEnv p)
     in refuse (\<not> new_request tr u) BadURL
       (if Provider r = ''openai'' then Inr (req\<lparr>req_headers := req_headers req @ [(''Authorization'', ''Bearer '' @ key)]\<rparr>)
        else if Provider r = ''anthropic'' then
          Inr (req\<lparr>req_headers := req_headers req @ [(''x-api-key'', key), (''anthropic-version'', ''2023-06-01'')]\<rparr>)
        else if Provider r = ''gemini'' then Inr (req\<lparr>req_headers := req_headers req @ [(''x-goog-api-key'', key)]\<rparr>)
        else need NoSigner (sign tr) (\<lambda>sg. need SignFailed (sg raw req) Inr)))"

section \<open>Lemmas: what is accepted\<close>

text \<open>The shape of an accepted request.\<close>

definition chat_ok :: "Chat \<Rightarrow> bool" where
  "chat_ok c \<longleftrightarrow>
     chat_Model c = ''preferred'' \<and> 1 \<le> length (Messages c) \<and> length (Messages c) \<le> 128 \<and>
     1 \<le> MaxTokens c \<and> MaxTokens c \<le> 16384 \<and>
     (\<forall>t. Temperature c = Some t \<longrightarrow> 0 \<le> t \<and> t \<le> 1) \<and>
     (\<forall>m \<in> set (Messages c). Content m \<noteq> [] \<and> Role m \<in> {''user'', ''assistant'', ''system''}) \<and>
     (\<forall>m \<in> set (tl (Messages c)). Role m \<noteq> ''system'') \<and> Role (last (Messages c)) = ''user'' \<and> \<not> CacheSystem c"

lemma messages_ok_iff:
  "messages_ok i ms \<longleftrightarrow>
     (\<forall>m \<in> set ms. Content m \<noteq> [] \<and> Role m \<in> {''user'', ''assistant'', ''system''}) \<and>
     (\<forall>m \<in> set (if i = 0 then tl ms else ms). Role m \<noteq> ''system'')"
  by (induction i ms rule: messages_ok.induct) (auto split: if_splits)

lemma Chat_field_cache: "Chat_field k v c = Some c' \<Longrightarrow> \<not> CacheSystem c \<Longrightarrow> \<not> CacheSystem c'"
  by (auto simp: Chat_field_def split: if_splits)

lemma strict_chat_cache:
  assumes "strictJSON Chat_field empty_Chat b = Some c"
  shows "\<not> CacheSystem c"
proof -
  obtain j where "dec_struct Chat_field empty_Chat j = Some c"
    using assms by (auto simp: strictJSON_def bind_eq_Some_conv)
  moreover have "\<not> CacheSystem empty_Chat" by (simp add: empty_Chat_def)
  ultimately show ?thesis
    by (rule dec_struct_inv [of Chat_field "\<lambda>c. \<not> CacheSystem c", rotated]) (rule Chat_field_cache)
qed

lemma ParseChat_ok:
  assumes "ParseChat b = Inr c"
  shows "chat_ok c"
proof -
  obtain d where d: "strictJSON Chat_field empty_Chat b = Some d" "chat_Model d = ''preferred''"
    "1 \<le> length (Messages d)" "length (Messages d) \<le> 128"
    "c = (if MaxTokens d = 0 then d\<lparr>MaxTokens := 1024\<rparr> else d)"
    "1 \<le> MaxTokens c" "MaxTokens c \<le> 16384" "\<forall>t. Temperature c = Some t \<longrightarrow> 0 \<le> t \<and> t \<le> 1"
    "messages_ok 0 (Messages c)" "Role (last (Messages c)) = ''user''"
    using assms by (auto simp: ParseChat_def Let_def not_less Suc_le_eq split: if_splits option.splits)
  then show ?thesis
    using strict_chat_cache [OF d(1)] by (auto simp: chat_ok_def messages_ok_iff)
qed

lemma split_system_tail:
  "\<forall>m \<in> set ms. Role m \<noteq> ''system'' \<Longrightarrow> split_system system msgs ms = (system, msgs @ ms)"
  by (induction ms arbitrary: msgs) auto

text \<open>Under \<open>chat_ok\<close> there is at most one system message, in front.\<close>

lemma split_system_ok:
  assumes "chat_ok c"
  shows "split_system [] [] (Messages c) =
    (if Role (hd (Messages c)) = ''system'' then (Content (hd (Messages c)), tl (Messages c)) else ([], Messages c))"
proof (cases "Messages c")
  case (Cons m ms)
  then have "\<forall>x \<in> set ms. Role x \<noteq> ''system''" using assms by (simp add: chat_ok_def)
  then show ?thesis using Cons by (simp add: split_system_tail)
qed (use assms in \<open>simp add: chat_ok_def\<close>)

lemma systemOf_ok:
  assumes "chat_ok c"
  shows "systemOf c = fst (split_system [] [] (Messages c))"
proof (cases "Messages c")
  case (Cons m ms)
  then have "find (\<lambda>m. Role m = ''system'') ms = None"
    using assms by (auto simp: chat_ok_def find_None_iff)
  then show ?thesis using Cons split_system_ok [OF assms] by (simp add: systemOf_def)
qed (use assms in \<open>simp add: chat_ok_def\<close>)

end
