(* ===== verification/Metrics.thy ===== *)
theory Metrics
  imports Gateway_Prelude "HOL-Library.Mapping"
begin

text \<open>
  The counters and the per-route distributions of \<open>telemetry.go\<close>. A counter is an
  element of \<open>counter\<close>, the counters together a function; \<open>Metrics\<close> adds the route table.
  Shown: the keys that carry a model are capped while no observation is lost, and a stored
  cumulative histogram differences into counts that add up to the number of observations.
\<close>

section \<open>Definitions\<close>

datatype counter =
    Requests | Errors | Retries | Rejected | Dropped | DiskErrors | ExportErrors | PolicyErrors
  | SpoolUsed | SpoolCount | Active | LatencyMS | Completed | RateLimited | UsageMismatch
  | EmptyCompletion | EmptyCompletionRecovered | EmptyCompletionFailed | AccountFailover
  | RefusedFailover | FleetHints | RateLimitRetry | PromptCacheMarked | ProviderProbeFailed
  | IdempotentReplay | IdempotentConflict | BudgetSkip | IdempotentUnknown | PolicyExpiresIn
  | TemperatureDropped | CaptureFull | IdemFull | RouteKeysFolded
  | Goroutines | HeapAlloc | HeapObjects | HeapSys

type_synonym counters = "counter \<Rightarrow> int64"

definition Add :: "counter \<Rightarrow> int64 \<Rightarrow> counters \<Rightarrow> counters" where
  "Add c n m = m(c := m c + n)"

definition Store :: "counter \<Rightarrow> int64 \<Rightarrow> counters \<Rightarrow> counters" where
  "Store c n m = m(c := n)"

record routeKey =
  rk_provider :: bytes
  rk_model :: bytes
  errorType :: bytes

definition tokenBounds :: "int64 list" where
  "tokenBounds = [1, 16, 64, 256, 1024, 4096, 16384, 65536, 262144]"

definition latencyBounds :: "int64 list" where
  "latencyBounds = [5, 25, 100, 500, 1000, 5000, 15000, 60000, 90000]"

text \<open>A distribution: cumulative buckets, sum and count. A latency adds its two token distributions.\<close>

record dist =
  buckets :: "int64 list"
  dist_sum :: int64
  dist_count :: int64

record routeLatency =
  latency :: dist
  tokens_input :: dist
  tokens_output :: dist

definition new_dist :: "int64 list \<Rightarrow> dist" where
  "new_dist bounds = \<lparr>buckets = map (\<lambda>_. 0) bounds, dist_sum = 0, dist_count = 0\<rparr>"

definition dist_observe :: "int64 list \<Rightarrow> int64 \<Rightarrow> dist \<Rightarrow> dist" where
  "dist_observe bounds n d =
     d\<lparr>dist_sum := dist_sum d + n, dist_count := dist_count d + 1,
       buckets := map2 (\<lambda>b v. if n \<le> b then v + 1 else v) bounds (buckets d)\<rparr>"

definition new_routeLatency :: routeLatency where
  "new_routeLatency =
     \<lparr>latency = new_dist latencyBounds, tokens_input = new_dist tokenBounds, tokens_output = new_dist tokenBounds\<rparr>"

definition routeMaxKeys :: nat where
  "routeMaxKeys = 128"

type_synonym routeTable = "(routeKey, routeLatency) mapping"

text \<open>The key an observation is recorded under, and the table with an entry for it.\<close>

definition routeTable_get :: "routeKey \<Rightarrow> routeTable \<times> counters \<Rightarrow> routeKey \<times> routeTable \<times> counters" where
  "routeTable_get k tc =
     (let (t, m) = tc in
      if Mapping.lookup t k \<noteq> None then (k, t, m)
      else if Mapping.size t \<ge> routeMaxKeys \<and> rk_model k \<noteq> [] then
        (let m = Add RouteKeysFolded 1 m; k = k\<lparr>rk_model := []\<rparr>
         in if Mapping.lookup t k \<noteq> None then (k, t, m)
            else (k, Mapping.update k new_routeLatency t, m))
      else (k, Mapping.update k new_routeLatency t, m))"

record tokenUsage =
  Input :: int
  Output :: int
  Reasoning :: int
  CacheRead :: int
  CacheWrite :: int

definition no_usage :: tokenUsage where
  "no_usage = \<lparr>Input = 0, Output = 0, Reasoning = 0, CacheRead = 0, CacheWrite = 0\<rparr>"

definition ObserveRoute ::
  "bytes \<Rightarrow> bytes \<Rightarrow> int \<Rightarrow> int64 \<Rightarrow> tokenUsage \<Rightarrow> routeTable \<times> counters \<Rightarrow> routeTable \<times> counters" where
  "ObserveRoute provider model status ms u tc =
     (let k = \<lparr>rk_provider = provider, rk_model = model,
               errorType = (if status \<ge> 400 then itoa status else [])\<rparr>;
          (k, t, m) = routeTable_get k tc;
          m = Add LatencyMS ms (Add Completed 1 m);
          r = the (Mapping.lookup t k);
          r = r\<lparr>latency := dist_observe latencyBounds ms (latency r)\<rparr>;
          r = (if Input u \<noteq> 0 \<or> Output u \<noteq> 0
               then r\<lparr>tokens_input := dist_observe tokenBounds (Input u) (tokens_input r),
                      tokens_output := dist_observe tokenBounds (Output u) (tokens_output r)\<rparr>
               else r)
      in (Mapping.update k r t, m))"

fun differenced_from :: "int64 \<Rightarrow> int64 list \<Rightarrow> int64 \<Rightarrow> int64 list" where
  "differenced_from prev [] count = [max (count - prev) 0]"
| "differenced_from prev (c # cs) count = max (c - prev) 0 # differenced_from c cs count"

definition differenced :: "int64 list \<Rightarrow> int64 \<Rightarrow> bytes list" where
  "differenced cumulative count = map itoa (differenced_from 0 cumulative count)"

section \<open>Lemmas: distributions\<close>

text \<open>What a distribution holds after a list of observations.\<close>

lemma dist_observe_all:
  "fold (dist_observe bounds) ns (new_dist bounds) =
     \<lparr>buckets = map (\<lambda>b. int (length (filter (\<lambda>n. n \<le> b) ns))) bounds,
      dist_sum = sum_list ns, dist_count = int (length ns)\<rparr>"
proof (induction ns rule: rev_induct)
  case Nil
  then show ?case by (simp add: new_dist_def)
next
  case (snoc n ns)
  have "map2 (\<lambda>b v. if n \<le> b then v + 1 else v) bounds (map (\<lambda>b. int (length (filter (\<lambda>n. n \<le> b) ns))) bounds) =
      map (\<lambda>b. int (length (filter (\<lambda>n. n \<le> b) (ns @ [n])))) bounds"
    by (intro nth_equalityI) auto
  with snoc show ?case by (simp add: dist_observe_def)
qed

lemma differenced_length: "length (differenced c n) = Suc (length c)"
proof -
  have "length (differenced_from p c n) = Suc (length c)" for p by (induction c arbitrary: p) auto
  then show ?thesis by (simp add: differenced_def)
qed

text \<open>Between two bounds, the difference counts the observations that fall there.\<close>

lemma filter_between:
  assumes "a \<le> (b::int)"
  shows "int (length (filter (\<lambda>n. n \<le> b) ns)) - int (length (filter (\<lambda>n. n \<le> a) ns)) =
    int (length (filter (\<lambda>n. a < n \<and> n \<le> b) ns))"
  using assms by (induction ns) auto

lemma filter_above:
  "int (length ns) - int (length (filter (\<lambda>n. n \<le> a) ns)) = int (length (filter (\<lambda>n. (a::int) < n) ns))"
  by (induction ns) auto

fun between :: "int64 \<Rightarrow> int64 list \<Rightarrow> int64 list \<Rightarrow> int64 list" where
  "between a [] ns = [int (length (filter (\<lambda>n. a < n) ns))]"
| "between a (b # bs) ns = int (length (filter (\<lambda>n. a < n \<and> n \<le> b) ns)) # between b bs ns"

lemma differenced_between:
  assumes "sorted (a # bs)"
  shows "differenced_from (int (length (filter (\<lambda>n. n \<le> a) ns)))
      (map (\<lambda>b. int (length (filter (\<lambda>n. n \<le> b) ns))) bs) (int (length ns)) = between a bs ns"
  using assms
proof (induction bs arbitrary: a)
  case Nil
  then show ?case by (simp add: filter_above)
next
  case (Cons b bs)
  then show ?case by (simp add: filter_between)
qed

lemma differenced_first:
  assumes "sorted bs" "bs \<noteq> []"
  shows "differenced_from 0 (map (\<lambda>b. int (length (filter (\<lambda>n. n \<le> b) ns))) bs) (int (length ns)) =
    int (length (filter (\<lambda>n. n \<le> hd bs) ns)) # between (hd bs) (tl bs) ns"
proof (cases bs)
  case (Cons b cs)
  then show ?thesis using assms differenced_between [of b cs ns] by simp
qed (use assms in simp)

lemma between_sum: "sorted (a # bs) \<Longrightarrow> sum_list (between a bs ns) = int (length (filter (\<lambda>n. a < n) ns))"
proof (induction bs arbitrary: a)
  case (Cons b bs)
  have "int (length (filter (\<lambda>n. a < n \<and> n \<le> b) ns)) + int (length (filter (\<lambda>n. b < n) ns)) = int (length (filter (\<lambda>n. a < n) ns))"
    using Cons.prems by (induction ns) auto
  with Cons show ?case by simp
qed simp

section \<open>Lemmas: the route table\<close>

definition model_keys :: "routeTable \<Rightarrow> routeKey set" where
  "model_keys t = {k \<in> Mapping.keys t. rk_model k \<noteq> []}"

definition table_ok :: "routeTable \<Rightarrow> bool" where
  "table_ok t \<longleftrightarrow> finite (Mapping.keys t) \<and> card (model_keys t) \<le> routeMaxKeys"

lemma model_keys_update:
  "model_keys (Mapping.update k r t) = (if rk_model k \<noteq> [] then insert k (model_keys t) else model_keys t)"
  by (auto simp: model_keys_def)

lemma table_ok_update_new:
  assumes "table_ok t" "Mapping.size t < routeMaxKeys \<or> rk_model k = [] \<or> k \<in> Mapping.keys t"
  shows "table_ok (Mapping.update k r t)"
proof -
  have fin: "finite (Mapping.keys t)" "finite (model_keys t)" using assms(1) by (auto simp: table_ok_def model_keys_def)
  have sub: "card (model_keys t) \<le> Mapping.size t"
    using fin(1) by (auto simp: Mapping.size_def model_keys_def intro: card_mono)
  consider "Mapping.size t < routeMaxKeys" | "rk_model k = []" | "k \<in> model_keys t"
    using assms(2) by (auto simp: model_keys_def)
  then show ?thesis
  proof cases
    case 1
    then show ?thesis using fin sub assms(1) by (auto simp: table_ok_def model_keys_update card_insert_if)
  next
    case 2
    then show ?thesis using assms(1) by (simp add: table_ok_def model_keys_update)
  next
    case 3
    then show ?thesis using assms(1) by (simp add: table_ok_def model_keys_update insert_absorb)
  qed
qed

lemma get_ok:
  assumes "table_ok t" "routeTable_get k (t, m) = (k', t', m')"
  shows "table_ok t'" "k' \<in> Mapping.keys t'" "rk_provider k' = rk_provider k" "errorType k' = errorType k"
    "rk_model k' \<noteq> [] \<Longrightarrow> k' = k"
proof -
  have "table_ok t' \<and> k' \<in> Mapping.keys t' \<and> rk_provider k' = rk_provider k \<and> errorType k' = errorType k \<and> (rk_model k' \<noteq> [] \<longrightarrow> k' = k)"
    using assms by (auto simp: routeTable_get_def Let_def keys_dom_lookup table_ok_update_new not_le split: if_splits)
  then show "table_ok t'" "k' \<in> Mapping.keys t'" "rk_provider k' = rk_provider k" "errorType k' = errorType k"
    "rk_model k' \<noteq> [] \<Longrightarrow> k' = k" by auto
qed

lemma ObserveRoute_ok [store_inv]:
  assumes "table_ok t"
  shows "table_ok (fst (ObserveRoute provider model status ms u (t, m)))"
proof -
  let ?k = "\<lparr>rk_provider = provider, rk_model = model, errorType = (if status \<ge> 400 then itoa status else [])\<rparr>"
  obtain k' t' m' where g: "routeTable_get ?k (t, m) = (k', t', m')" by (cases "routeTable_get ?k (t, m)") auto
  note ok = get_ok [OF assms g]
  then have "table_ok (Mapping.update k' r t')" for r by (intro table_ok_update_new) auto
  then show ?thesis by (simp add: ObserveRoute_def g Let_def)
qed

text \<open>The observations recorded for one provider, over all its keys.\<close>

definition provider_count :: "bytes \<Rightarrow> routeTable \<Rightarrow> int" where
  "provider_count p t =
     (\<Sum>k | k \<in> Mapping.keys t \<and> rk_provider k = p. dist_count (latency (the (Mapping.lookup t k))))"

lemma provider_count_update:
  assumes "finite (Mapping.keys t)" "k \<in> Mapping.keys t"
  shows "provider_count p (Mapping.update k r t) =
    provider_count p t +
      (if rk_provider k = p then dist_count (latency r) - dist_count (latency (the (Mapping.lookup t k))) else 0)"
proof -
  let ?K = "{k' \<in> Mapping.keys t. rk_provider k' = p}"
  have K: "{k' \<in> Mapping.keys (Mapping.update k r t). rk_provider k' = p} = ?K" using assms(2) by auto
  have fin: "finite ?K" using assms(1) by simp
  show ?thesis
  proof (cases "rk_provider k = p")
    case True
    then have "k \<in> ?K" using assms(2) by simp
    moreover have "(\<Sum>x \<in> ?K - {k}. dist_count (latency (the (Mapping.lookup (Mapping.update k r t) x)))) =
        (\<Sum>x \<in> ?K - {k}. dist_count (latency (the (Mapping.lookup t x))))"
      by (intro sum.cong) (auto simp: lookup_update')
    ultimately show ?thesis
      unfolding provider_count_def K using fin True by (simp add: sum.remove [of ?K k])
  next
    case False
    then show ?thesis
      unfolding provider_count_def K using False by (auto simp: lookup_update' intro!: sum.cong)
  qed
qed

lemma provider_count_new:
  assumes "finite (Mapping.keys t)" "k \<notin> Mapping.keys t"
  shows "provider_count p (Mapping.update k new_routeLatency t) = provider_count p t"
proof -
  let ?K = "{k' \<in> Mapping.keys t. rk_provider k' = p}"
  have "{k' \<in> Mapping.keys (Mapping.update k new_routeLatency t). rk_provider k' = p} =
      (if rk_provider k = p then insert k ?K else ?K)" by auto
  moreover have "(\<Sum>k' \<in> ?K. dist_count (latency (the (Mapping.lookup (Mapping.update k new_routeLatency t) k')))) =
      (\<Sum>k' \<in> ?K. dist_count (latency (the (Mapping.lookup t k'))))"
    using assms(2) by (auto simp: lookup_update' intro!: sum.cong)
  ultimately show ?thesis
    using assms unfolding provider_count_def
    by (simp add: sum.insert new_routeLatency_def new_dist_def)
qed

lemma lookup_None: "Mapping.lookup t k = None \<longleftrightarrow> k \<notin> Mapping.keys t"
  by (simp add: keys_dom_lookup domIff)

lemma get_count:
  assumes "finite (Mapping.keys t)" "routeTable_get k (t, m) = (k', t', m')"
  shows "provider_count p t' = provider_count p t" "finite (Mapping.keys t')"
proof -
  have "provider_count p t' = provider_count p t \<and> finite (Mapping.keys t')"
    using assms by (auto simp: routeTable_get_def Let_def provider_count_new lookup_None split: if_splits)
  then show "provider_count p t' = provider_count p t" "finite (Mapping.keys t')" by auto
qed

text \<open>Folding a model away loses the model and nothing else: the observation is counted under its provider.\<close>

lemma ObserveRoute_count:
  assumes "table_ok t"
  shows "provider_count p (fst (ObserveRoute provider model status ms u (t, m))) =
    provider_count p t + (if provider = p then 1 else 0)"
proof -
  let ?k = "\<lparr>rk_provider = provider, rk_model = model, errorType = (if status \<ge> 400 then itoa status else [])\<rparr>"
  obtain k' t' m' where g: "routeTable_get ?k (t, m) = (k', t', m')" by (cases "routeTable_get ?k (t, m)") auto
  have fin: "finite (Mapping.keys t)" using assms by (simp add: table_ok_def)
  note ok = get_ok [OF assms g] and cnt = get_count [OF fin g]
  show ?thesis
    using ok(2,3) cnt by (simp add: ObserveRoute_def g Let_def provider_count_update dist_observe_def)
qed

end
