(* ===== verification/Normalize.thy ===== *)
theory Normalize
  imports Chat Metrics
begin

text \<open>
  The response side of \<open>adapter.go\<close> and \<open>bedrock.go\<close>: the providers' wire formats as
  decoded structs, \<open>normalize\<close> for complete responses and stream frames, the translation
  of Bedrock's event stream, what is written to the caller, and the reader of server-sent
  events. A decoder of a struct takes the field's current value, as in \<open>Json\<close>.
\<close>

section \<open>The wire format\<close>

record choice_text =
  ct_Content :: "bytes option"
  ToolCalls :: "json option"
  Refusal :: "bytes option"

record choice =
  Index :: int
  choice_Message :: choice_text
  choice_Delta :: choice_text
  choice_Finish :: "bytes option"

record typed_text =
  tt_Type :: bytes
  tt_Text :: bytes
  tt_Stop :: bytes

record wire_usage =
  u_Input :: int
  u_Output :: int
  CacheCreation :: int
  u_CacheRead :: int
  u_Prompt :: int
  u_Completion :: int
  u_Reasoning :: int

record part =
  part_Text :: bytes
  Thought :: bool
  Function :: "json option"
  Inline :: "json option"

record candidate =
  cand_Index :: int
  Parts :: "part list"
  cand_Finish :: bytes

record usage_metadata =
  um_Input :: int
  um_Output :: int
  Thoughts :: int
  Total :: int

record wire =
  wire_Type :: bytes
  Error :: "json option"
  Choices :: "choice list"
  wire_Content :: "typed_text list"
  StopReason :: bytes
  wire_Delta :: typed_text
  ContentBlock :: typed_text
  Usage :: wire_usage
  Candidates :: "candidate list"
  Block :: bytes
  UsageMetadata :: usage_metadata

definition empty_choice_text :: choice_text where
  "empty_choice_text = \<lparr>ct_Content = None, ToolCalls = None, Refusal = None\<rparr>"

definition empty_choice :: choice where
  "empty_choice = \<lparr>Index = 0, choice_Message = empty_choice_text, choice_Delta = empty_choice_text, choice_Finish = None\<rparr>"

definition empty_typed :: typed_text where
  "empty_typed = \<lparr>tt_Type = [], tt_Text = [], tt_Stop = []\<rparr>"

definition empty_candidate :: candidate where
  "empty_candidate = \<lparr>cand_Index = 0, Parts = [], cand_Finish = []\<rparr>"

definition empty_wire :: wire where
  "empty_wire = \<lparr>wire_Type = [], Error = None, Choices = [], wire_Content = [], StopReason = [],
     wire_Delta = empty_typed, ContentBlock = empty_typed,
     Usage = \<lparr>u_Input = 0, u_Output = 0, CacheCreation = 0, u_CacheRead = 0, u_Prompt = 0, u_Completion = 0, u_Reasoning = 0\<rparr>,
     Candidates = [], Block = [], UsageMetadata = \<lparr>um_Input = 0, um_Output = 0, Thoughts = 0, Total = 0\<rparr>\<rparr>"

definition choice_text_field :: "bytes \<Rightarrow> json \<Rightarrow> choice_text \<Rightarrow> choice_text option" where
  "choice_text_field k v c =
     (if key_is ''content'' k then map_option (\<lambda>x. c\<lparr>ct_Content := x\<rparr>) (dec_string_ptr (ct_Content c) v)
      else if key_is ''tool_calls'' k then map_option (\<lambda>x. c\<lparr>ToolCalls := x\<rparr>) (dec_raw (ToolCalls c) v)
      else if key_is ''refusal'' k then map_option (\<lambda>x. c\<lparr>Refusal := x\<rparr>) (dec_string_ptr (Refusal c) v)
      else Some c)"

definition choice_field :: "bytes \<Rightarrow> json \<Rightarrow> choice \<Rightarrow> choice option" where
  "choice_field k v c =
     (if key_is ''index'' k then map_option (\<lambda>x. c\<lparr>Index := x\<rparr>) (dec_int (Index c) v)
      else if key_is ''message'' k then
        map_option (\<lambda>x. c\<lparr>choice_Message := x\<rparr>) (dec_struct choice_text_field (choice_Message c) v)
      else if key_is ''delta'' k then
        map_option (\<lambda>x. c\<lparr>choice_Delta := x\<rparr>) (dec_struct choice_text_field (choice_Delta c) v)
      else if key_is ''finish_reason'' k then map_option (\<lambda>x. c\<lparr>choice_Finish := x\<rparr>) (dec_string_ptr (choice_Finish c) v)
      else Some c)"

text \<open>A block has a type and a text; the stream delta has a stop reason too.\<close>

definition block_field :: "bytes \<Rightarrow> json \<Rightarrow> typed_text \<Rightarrow> typed_text option" where
  "block_field k v t =
     (if key_is ''type'' k then map_option (\<lambda>x. t\<lparr>tt_Type := x\<rparr>) (dec_string (tt_Type t) v)
      else if key_is ''text'' k then map_option (\<lambda>x. t\<lparr>tt_Text := x\<rparr>) (dec_string (tt_Text t) v)
      else Some t)"

definition delta_field :: "bytes \<Rightarrow> json \<Rightarrow> typed_text \<Rightarrow> typed_text option" where
  "delta_field k v t =
     (if key_is ''stop_reason'' k then map_option (\<lambda>x. t\<lparr>tt_Stop := x\<rparr>) (dec_string (tt_Stop t) v)
      else block_field k v t)"

definition details_field :: "bytes \<Rightarrow> json \<Rightarrow> int \<Rightarrow> int option" where
  "details_field k v n = (if key_is ''reasoning_tokens'' k then dec_int n v else Some n)"

definition usage_field :: "bytes \<Rightarrow> json \<Rightarrow> wire_usage \<Rightarrow> wire_usage option" where
  "usage_field k v u =
     (if key_is ''input_tokens'' k then map_option (\<lambda>x. u\<lparr>u_Input := x\<rparr>) (dec_int (u_Input u) v)
      else if key_is ''output_tokens'' k then map_option (\<lambda>x. u\<lparr>u_Output := x\<rparr>) (dec_int (u_Output u) v)
      else if key_is ''cache_creation_input_tokens'' k then map_option (\<lambda>x. u\<lparr>CacheCreation := x\<rparr>) (dec_int (CacheCreation u) v)
      else if key_is ''cache_read_input_tokens'' k then map_option (\<lambda>x. u\<lparr>u_CacheRead := x\<rparr>) (dec_int (u_CacheRead u) v)
      else if key_is ''prompt_tokens'' k then map_option (\<lambda>x. u\<lparr>u_Prompt := x\<rparr>) (dec_int (u_Prompt u) v)
      else if key_is ''completion_tokens'' k then map_option (\<lambda>x. u\<lparr>u_Completion := x\<rparr>) (dec_int (u_Completion u) v)
      else if key_is ''completion_tokens_details'' k then
        map_option (\<lambda>x. u\<lparr>u_Reasoning := x\<rparr>) (dec_struct details_field (u_Reasoning u) v)
      else Some u)"

definition part_field :: "bytes \<Rightarrow> json \<Rightarrow> part \<Rightarrow> part option" where
  "part_field k v p =
     (if key_is ''text'' k then map_option (\<lambda>x. p\<lparr>part_Text := x\<rparr>) (dec_string (part_Text p) v)
      else if key_is ''thought'' k then map_option (\<lambda>x. p\<lparr>Thought := x\<rparr>) (dec_bool (Thought p) v)
      else if key_is ''functionCall'' k then map_option (\<lambda>x. p\<lparr>Function := x\<rparr>) (dec_raw (Function p) v)
      else if key_is ''inlineData'' k then map_option (\<lambda>x. p\<lparr>Inline := x\<rparr>) (dec_raw (Inline p) v)
      else Some p)"

definition parts_field :: "bytes \<Rightarrow> json \<Rightarrow> part list \<Rightarrow> part list option" where
  "parts_field k v ps =
     (if key_is ''parts'' k
      then dec_slice (dec_struct part_field) \<lparr>part_Text = [], Thought = False, Function = None, Inline = None\<rparr> ps v
      else Some ps)"

definition candidate_field :: "bytes \<Rightarrow> json \<Rightarrow> candidate \<Rightarrow> candidate option" where
  "candidate_field k v c =
     (if key_is ''index'' k then map_option (\<lambda>x. c\<lparr>cand_Index := x\<rparr>) (dec_int (cand_Index c) v)
      else if key_is ''content'' k then map_option (\<lambda>x. c\<lparr>Parts := x\<rparr>) (dec_struct parts_field (Parts c) v)
      else if key_is ''finishReason'' k then map_option (\<lambda>x. c\<lparr>cand_Finish := x\<rparr>) (dec_string (cand_Finish c) v)
      else Some c)"

definition metadata_field :: "bytes \<Rightarrow> json \<Rightarrow> usage_metadata \<Rightarrow> usage_metadata option" where
  "metadata_field k v u =
     (if key_is ''promptTokenCount'' k then map_option (\<lambda>x. u\<lparr>um_Input := x\<rparr>) (dec_int (um_Input u) v)
      else if key_is ''candidatesTokenCount'' k then map_option (\<lambda>x. u\<lparr>um_Output := x\<rparr>) (dec_int (um_Output u) v)
      else if key_is ''thoughtsTokenCount'' k then map_option (\<lambda>x. u\<lparr>Thoughts := x\<rparr>) (dec_int (Thoughts u) v)
      else if key_is ''totalTokenCount'' k then map_option (\<lambda>x. u\<lparr>Total := x\<rparr>) (dec_int (Total u) v)
      else Some u)"

definition feedback_field :: "bytes \<Rightarrow> json \<Rightarrow> bytes \<Rightarrow> bytes option" where
  "feedback_field k v b = (if key_is ''blockReason'' k then dec_string b v else Some b)"

definition wire_field :: "bytes \<Rightarrow> json \<Rightarrow> wire \<Rightarrow> wire option" where
  "wire_field k v w =
     (if key_is ''type'' k then map_option (\<lambda>x. w\<lparr>wire_Type := x\<rparr>) (dec_string (wire_Type w) v)
      else if key_is ''error'' k then map_option (\<lambda>x. w\<lparr>Error := x\<rparr>) (dec_raw (Error w) v)
      else if key_is ''choices'' k then
        map_option (\<lambda>x. w\<lparr>Choices := x\<rparr>) (dec_slice (dec_struct choice_field) empty_choice (Choices w) v)
      else if key_is ''content'' k then
        map_option (\<lambda>x. w\<lparr>wire_Content := x\<rparr>) (dec_slice (dec_struct block_field) empty_typed (wire_Content w) v)
      else if key_is ''stop_reason'' k then map_option (\<lambda>x. w\<lparr>StopReason := x\<rparr>) (dec_string (StopReason w) v)
      else if key_is ''delta'' k then map_option (\<lambda>x. w\<lparr>wire_Delta := x\<rparr>) (dec_struct delta_field (wire_Delta w) v)
      else if key_is ''content_block'' k then
        map_option (\<lambda>x. w\<lparr>ContentBlock := x\<rparr>) (dec_struct block_field (ContentBlock w) v)
      else if key_is ''usage'' k then map_option (\<lambda>x. w\<lparr>Usage := x\<rparr>) (dec_struct usage_field (Usage w) v)
      else if key_is ''candidates'' k then
        map_option (\<lambda>x. w\<lparr>Candidates := x\<rparr>) (dec_slice (dec_struct candidate_field) empty_candidate (Candidates w) v)
      else if key_is ''promptFeedback'' k then map_option (\<lambda>x. w\<lparr>Block := x\<rparr>) (dec_struct feedback_field (Block w) v)
      else if key_is ''usageMetadata'' k then
        map_option (\<lambda>x. w\<lparr>UsageMetadata := x\<rparr>) (dec_struct metadata_field (UsageMetadata w) v)
      else Some w)"

definition wire_unmarshal :: "bytes \<Rightarrow> wire option" where
  "wire_unmarshal b = Option.bind (json_parse b) (dec_struct wire_field empty_wire)"

section \<open>Normalized responses\<close>

record normalized =
  Text :: bytes
  n_Finish :: bytes
  n_Input :: int
  n_Output :: int
  n_Reasoning :: int
  n_CacheRead :: int
  n_CacheWrite :: int
  n_UsageMismatch :: bool

definition empty_normalized :: normalized where
  "empty_normalized = \<lparr>Text = [], n_Finish = [], n_Input = 0, n_Output = 0, n_Reasoning = 0,
     n_CacheRead = 0, n_CacheWrite = 0, n_UsageMismatch = False\<rparr>"

definition usageOf :: "normalized \<Rightarrow> tokenUsage" where
  "usageOf n = \<lparr>Input = n_Input n, Output = n_Output n, Reasoning = n_Reasoning n,
     CacheRead = n_CacheRead n, CacheWrite = n_CacheWrite n\<rparr>"

definition finish_reason :: "bytes \<Rightarrow> bytes option" where
  "finish_reason s =
     (if s \<in> set [''stop'', ''end_turn'', ''stop_sequence'', ''STOP''] then Some ''stop''
      else if s \<in> set [''length'', ''max_tokens'', ''MAX_TOKENS''] then Some ''length''
      else if s \<in> set [''content_filter'', ''SAFETY'', ''RECITATION'', ''BLOCKLIST'', ''PROHIBITED_CONTENT'', ''SPII'']
      then Some ''content_filter''
      else None)"

text \<open>
  The result of \<open>normalize\<close>: what has been filled in of the normalized response, whether
  the response is complete, and whether an error is returned with it.
\<close>

type_synonym norm_result = "normalized \<times> bool \<times> bool"

definition norm_error :: "normalized \<Rightarrow> norm_result" where
  "norm_error n = (n, False, True)"

definition normalize_openai :: "wire \<Rightarrow> bool \<Rightarrow> norm_result" where
  "normalize_openai w stream =
     (let n = empty_normalized\<lparr>n_Input := u_Prompt (Usage w), n_Output := u_Completion (Usage w),
                n_Reasoning := u_Reasoning (Usage w)\<rparr>
      in case Choices w of
           [] \<Rightarrow> (n, False, False)
         | c # cs \<Rightarrow>
             if cs \<noteq> [] then norm_error n
             else if Index c \<noteq> 0 then norm_error n
             else
               let t = (if stream then choice_Delta c else choice_Message c) in
               if (case ToolCalls t of None \<Rightarrow> False | Some j \<Rightarrow> j \<noteq> JNull \<and> j \<noteq> JArr []) then norm_error n
               else
                 let n = (case ct_Content t of None \<Rightarrow> n | Some x \<Rightarrow> n\<lparr>Text := x\<rparr>);
                     n = (case Refusal t of None \<Rightarrow> n | Some x \<Rightarrow> n\<lparr>Text := Text n @ x\<rparr>)
                 in case choice_Finish c of
                      None \<Rightarrow> (n, False, False)
                    | Some s \<Rightarrow>
                        (case finish_reason s of None \<Rightarrow> norm_error n | Some f \<Rightarrow> (n\<lparr>n_Finish := f\<rparr>, True, False)))"

fun anthropic_texts :: "normalized \<Rightarrow> typed_text list \<Rightarrow> normalized \<times> bool" where
  "anthropic_texts n [] = (n, True)"
| "anthropic_texts n (c # cs) =
     (if tt_Type c \<noteq> ''text'' then (n, False) else anthropic_texts (n\<lparr>Text := Text n @ tt_Text c\<rparr>) cs)"

definition normalize_anthropic :: "wire \<Rightarrow> bool \<Rightarrow> norm_result" where
  "normalize_anthropic w stream =
     (let u = Usage w;
          n = empty_normalized\<lparr>n_Input := wrap64 (wrap64 (u_Input u + CacheCreation u) + u_CacheRead u),
                n_Output := u_Output u, n_CacheRead := u_CacheRead u, n_CacheWrite := CacheCreation u\<rparr>
      in if stream then
           (if wire_Type w = ''content_block_start'' then
              (if tt_Type (ContentBlock w) \<noteq> ''text'' then norm_error n
               else (n\<lparr>Text := tt_Text (ContentBlock w)\<rparr>, False, False))
            else if wire_Type w = ''content_block_delta'' then
              (if tt_Type (wire_Delta w) \<noteq> ''text_delta'' then norm_error n
               else (n\<lparr>Text := tt_Text (wire_Delta w)\<rparr>, False, False))
            else if wire_Type w = ''message_delta'' then
              (if tt_Stop (wire_Delta w) \<noteq> [] then
                 (case finish_reason (tt_Stop (wire_Delta w)) of
                    None \<Rightarrow> norm_error n
                  | Some f \<Rightarrow> (n\<lparr>n_Finish := f\<rparr>, False, False))
               else (n, False, False))
            else if wire_Type w = ''message_stop'' then (n, True, False)
            else if wire_Type w \<in> set [''message_start'', ''content_block_stop'', ''ping''] then (n, False, False)
            else norm_error n)
         else
           (let (n, ok) = anthropic_texts n (wire_Content w) in
            if \<not> ok then norm_error n
            else
              case finish_reason (StopReason w) of
                None \<Rightarrow> norm_error n
              | Some f \<Rightarrow> (n\<lparr>n_Finish := f\<rparr>, True, False)))"

fun gemini_parts :: "normalized \<Rightarrow> part list \<Rightarrow> normalized \<times> bool" where
  "gemini_parts n [] = (n, True)"
| "gemini_parts n (p # ps) =
     (if Function p \<noteq> None \<or> Inline p \<noteq> None then (n, False)
      else gemini_parts (if Thought p then n else n\<lparr>Text := Text n @ part_Text p\<rparr>) ps)"

definition normalize_gemini :: "wire \<Rightarrow> norm_result" where
  "normalize_gemini w =
     (let m = UsageMetadata w;
          n = empty_normalized\<lparr>n_Input := um_Input m, n_Output := wrap64 (um_Output m + Thoughts m),
                n_Reasoning := Thoughts m\<rparr>;
          n = (if Total m > 0 \<and> um_Input m > 0 \<and> wrap64 (Total m - um_Input m) \<noteq> n_Output n
               then n\<lparr>n_UsageMismatch := True\<rparr> else n)
      in if Block w \<noteq> [] then (n\<lparr>n_Finish := ''content_filter''\<rparr>, True, False)
         else
           case Candidates w of
             [] \<Rightarrow> (n, False, False)
           | c # cs \<Rightarrow>
               if cs \<noteq> [] then norm_error n
               else if cand_Index c \<noteq> 0 then norm_error n
               else
                 let (n, ok) = gemini_parts n (Parts c) in
                 if \<not> ok then norm_error n
                 else if cand_Finish c \<noteq> [] then
                   (case finish_reason (cand_Finish c) of
                      None \<Rightarrow> norm_error n
                    | Some f \<Rightarrow> (n\<lparr>n_Finish := f\<rparr>, True, False))
                 else (n, False, False))"

section \<open>Bedrock\<close>

record bedrock_block =
  bb_Text :: bytes
  ToolUse :: "json option"
  bb_Reasoning :: "json option"

record bedrockWire =
  bw_Content :: "bedrock_block list"
  bw_StopReason :: bytes
  bw_Input :: int
  bw_Output :: int
  bw_Delta :: bytes
  ContentBlockIndex :: "int option"

definition empty_bedrockWire :: bedrockWire where
  "empty_bedrockWire = \<lparr>bw_Content = [], bw_StopReason = [], bw_Input = 0, bw_Output = 0, bw_Delta = [], ContentBlockIndex = None\<rparr>"

definition bedrock_block_field :: "bytes \<Rightarrow> json \<Rightarrow> bedrock_block \<Rightarrow> bedrock_block option" where
  "bedrock_block_field k v b =
     (if key_is ''text'' k then map_option (\<lambda>x. b\<lparr>bb_Text := x\<rparr>) (dec_string (bb_Text b) v)
      else if key_is ''toolUse'' k then map_option (\<lambda>x. b\<lparr>ToolUse := x\<rparr>) (dec_raw (ToolUse b) v)
      else if key_is ''reasoningContent'' k then map_option (\<lambda>x. b\<lparr>bb_Reasoning := x\<rparr>) (dec_raw (bb_Reasoning b) v)
      else Some b)"

definition bedrock_message_field :: "bytes \<Rightarrow> json \<Rightarrow> bedrock_block list \<Rightarrow> bedrock_block list option" where
  "bedrock_message_field k v bs =
     (if key_is ''content'' k
      then dec_slice (dec_struct bedrock_block_field) \<lparr>bb_Text = [], ToolUse = None, bb_Reasoning = None\<rparr> bs v
      else Some bs)"

definition bedrock_output_field :: "bytes \<Rightarrow> json \<Rightarrow> bedrock_block list \<Rightarrow> bedrock_block list option" where
  "bedrock_output_field k v bs = (if key_is ''message'' k then dec_struct bedrock_message_field bs v else Some bs)"

definition bedrock_usage_field :: "bytes \<Rightarrow> json \<Rightarrow> bedrockWire \<Rightarrow> bedrockWire option" where
  "bedrock_usage_field k v w =
     (if key_is ''inputTokens'' k then map_option (\<lambda>x. w\<lparr>bw_Input := x\<rparr>) (dec_int (bw_Input w) v)
      else if key_is ''outputTokens'' k then map_option (\<lambda>x. w\<lparr>bw_Output := x\<rparr>) (dec_int (bw_Output w) v)
      else Some w)"

definition bedrock_delta_field :: "bytes \<Rightarrow> json \<Rightarrow> bytes \<Rightarrow> bytes option" where
  "bedrock_delta_field k v t = (if key_is ''text'' k then dec_string t v else Some t)"

definition bedrock_field :: "bytes \<Rightarrow> json \<Rightarrow> bedrockWire \<Rightarrow> bedrockWire option" where
  "bedrock_field k v w =
     (if key_is ''output'' k then map_option (\<lambda>x. w\<lparr>bw_Content := x\<rparr>) (dec_struct bedrock_output_field (bw_Content w) v)
      else if key_is ''stopReason'' k then map_option (\<lambda>x. w\<lparr>bw_StopReason := x\<rparr>) (dec_string (bw_StopReason w) v)
      else if key_is ''usage'' k then dec_struct bedrock_usage_field w v
      else if key_is ''delta'' k then map_option (\<lambda>x. w\<lparr>bw_Delta := x\<rparr>) (dec_struct bedrock_delta_field (bw_Delta w) v)
      else if key_is ''contentBlockIndex'' k then
        (case v of
           JNum s \<Rightarrow> map_option (\<lambda>n. w\<lparr>ContentBlockIndex := Some n\<rparr>) (atoi s)
         | JNull \<Rightarrow> Some (w\<lparr>ContentBlockIndex := None\<rparr>)
         | _ \<Rightarrow> None)
      else Some w)"

definition bedrock_unmarshal :: "bytes \<Rightarrow> bedrockWire option" where
  "bedrock_unmarshal b = Option.bind (json_parse b) (dec_struct bedrock_field empty_bedrockWire)"

definition bedrockFinish :: "bytes \<Rightarrow> bytes option" where
  "bedrockFinish s =
     (if s = ''end_turn'' \<or> s = ''stop_sequence'' then Some ''stop''
      else if s = ''max_tokens'' then Some ''length''
      else if s = ''guardrail_intervened'' \<or> s = ''content_filtered'' then Some ''content_filter''
      else None)"

fun bedrock_texts :: "normalized \<Rightarrow> bedrock_block list \<Rightarrow> normalized \<times> bool" where
  "bedrock_texts n [] = (n, True)"
| "bedrock_texts n (b # bs) =
     (if ToolUse b \<noteq> None \<or> bb_Reasoning b \<noteq> None then (n, False)
      else bedrock_texts (n\<lparr>Text := Text n @ bb_Text b\<rparr>) bs)"

text \<open>A complete response: the normalized response, and whether there is an error.\<close>

definition normalizeBedrock :: "bytes \<Rightarrow> normalized \<times> bool" where
  "normalizeBedrock b =
     (case bedrock_unmarshal b of
        None \<Rightarrow> (empty_normalized, True)
      | Some w \<Rightarrow>
          (let (n, ok) = bedrock_texts empty_normalized (bw_Content w) in
           if \<not> ok then (n, True)
           else
             case bedrockFinish (bw_StopReason w) of
               None \<Rightarrow> (n, True)
             | Some f \<Rightarrow> (n\<lparr>n_Finish := f, n_Input := bw_Input w, n_Output := bw_Output w\<rparr>, False)))"

definition normalizeBedrockStream :: "bytes \<Rightarrow> norm_result" where
  "normalizeBedrockStream b =
     (case bedrock_unmarshal b of
        None \<Rightarrow> norm_error empty_normalized
      | Some w \<Rightarrow>
          (let n = empty_normalized\<lparr>Text := bw_Delta w, n_Input := bw_Input w, n_Output := bw_Output w\<rparr> in
           if bw_StopReason w = [] then (n, False, False)
           else
             case bedrockFinish (bw_StopReason w) of
               None \<Rightarrow> norm_error n
             | Some f \<Rightarrow> (n\<lparr>n_Finish := f\<rparr>, True, False)))"

text \<open>
  An item of the AWS event stream as the SDK's decoder delivers it: the event type and the
  payload, or a decoding error. The stream ends with the list.
\<close>

datatype es_item = EsMessage bytes bytes | EsError

definition sse_frame :: "bytes \<Rightarrow> bytes" where
  "sse_frame b = ''data: '' @ b @ [CHR 10, CHR 10]"

definition usage_raw_field :: "bytes \<Rightarrow> json \<Rightarrow> json option \<Rightarrow> json option option" where
  "usage_raw_field k v u = (if key_is ''usage'' k then dec_raw u v else Some u)"

definition bedrock_final :: "bytes \<Rightarrow> bytes \<Rightarrow> json" where
  "bedrock_final stop usage =
     JObj ((''stopReason'', JStr stop) #
       (if usage = [] then []
        else
          case Option.bind (json_parse usage) (dec_struct usage_raw_field None) of
            Some (Some u) \<Rightarrow> [(''usage'', u)]
          | _ \<Rightarrow> []))"

text \<open>The frames written and whether the translation ended without an error.\<close>

fun translate_run :: "int64 \<Rightarrow> bytes \<Rightarrow> bytes \<Rightarrow> int64 \<Rightarrow> es_item list \<Rightarrow> bytes \<times> bool" where
  "translate_run limit stop usage sent [] =
     (if stop = [] then ([], False) else (sse_frame (json_print (bedrock_final stop usage)), True))"
| "translate_run limit stop usage sent (EsError # items) = ([], False)"
| "translate_run limit stop usage sent (EsMessage kind payload # items) =
     (case (if payload = [] then Some empty_bedrockWire else bedrock_unmarshal payload) of
        None \<Rightarrow> ([], False)
      | Some e \<Rightarrow>
          if kind = ''contentBlockStart'' then
            (if contains payload ([CHR 0x22] @ ''toolUse'' @ [CHR 0x22])
                \<or> contains payload ([CHR 0x22] @ ''reasoningContent'' @ [CHR 0x22])
             then ([], False) else translate_run limit stop usage sent items)
          else if kind = ''contentBlockDelta'' then
            (if bw_Delta e = [] then translate_run limit stop usage sent items
             else
               let sent = sent + int (length (bw_Delta e)) in
               if sent > limit then ([], False)
               else
                 let (out, ok) = translate_run limit stop usage sent items
                 in (sse_frame (json_print (JObj [(''delta'', JObj [(''text'', JStr (bw_Delta e))])])) @ out, ok))
          else if kind = ''messageStop'' then translate_run limit (bw_StopReason e) usage sent items
          else if kind = ''metadata'' then translate_run limit stop payload sent items
          else translate_run limit stop usage sent items)"

definition translateBedrockStream :: "int64 \<Rightarrow> es_item list \<Rightarrow> bytes \<times> bool" where
  "translateBedrockStream limit items = translate_run limit [] [] 0 items"

section \<open>\<open>normalize\<close>\<close>

definition normalize :: "bytes \<Rightarrow> bytes \<Rightarrow> bool \<Rightarrow> norm_result" where
  "normalize provider b stream =
     (if provider = ''bedrock'' then
        (if stream then normalizeBedrockStream b
         else let (n, e) = normalizeBedrock b in (n, True, e))
      else
        case wire_unmarshal b of
          None \<Rightarrow> norm_error empty_normalized
        | Some w \<Rightarrow>
            if (case Error w of None \<Rightarrow> False | Some j \<Rightarrow> j \<noteq> JNull) then norm_error empty_normalized
            else
              let (n, fin, e) =
                    (if provider = ''openai'' then normalize_openai w stream
                     else if provider = ''anthropic'' then normalize_anthropic w stream
                     else if provider = ''gemini'' then normalize_gemini w
                     else (empty_normalized, False, False))
              in if e then norm_error n
                 else if \<not> stream \<and> \<not> fin then norm_error n
                 else (n, fin, False))"

section \<open>What the caller receives\<close>

definition completion :: "bytes \<Rightarrow> Route \<Rightarrow> normalized \<Rightarrow> int64 \<Rightarrow> json" where
  "completion rid r n created = JObj
     [(''choices'', JArr [JObj [(''finish_reason'', JStr (n_Finish n)), (''index'', JNum ''0''),
         (''message'', JObj [(''content'', JStr (Text n)), (''role'', JStr ''assistant'')])]]),
      (''created'', JNum (itoa created)),
      (''id'', JStr (''chatcmpl-'' @ rid)),
      (''model'', JStr (Model r)),
      (''object'', JStr ''chat.completion''),
      (''usage'', JObj [(''completion_tokens'', JNum (itoa (n_Output n))), (''prompt_tokens'', JNum (itoa (n_Input n))),
         (''total_tokens'', JNum (itoa (wrap64 (n_Input n + n_Output n))))])]"

definition chunk :: "bytes \<Rightarrow> Route \<Rightarrow> normalized \<Rightarrow> int64 \<Rightarrow> json" where
  "chunk rid r n created = JObj
     [(''choices'', JArr [JObj
         [(''delta'', JObj (if Text n = [] then [] else [(''content'', JStr (Text n))])),
          (''finish_reason'', if n_Finish n = [] then JNull else JStr (n_Finish n)),
          (''index'', JNum ''0'')]]),
      (''created'', JNum (itoa created)),
      (''id'', JStr (''chatcmpl-'' @ rid)),
      (''model'', JStr (Model r)),
      (''object'', JStr ''chat.completion.chunk'')]"

section \<open>Server-sent events\<close>

text \<open>
  \<open>bufio.Scanner\<close> over lines with a buffer of 1 MiB: the lines, and whether the scan
  stopped at a line that does not fit. A trailing carriage return is dropped.
\<close>

definition max_line :: nat where
  "max_line = 2 ^ 20"

definition drop_cr :: "bytes \<Rightarrow> bytes" where
  "drop_cr l = (if l \<noteq> [] \<and> last l = CHR 13 then butlast l else l)"

fun scan_lines :: "bytes \<Rightarrow> bytes \<Rightarrow> bytes list \<times> bool" where
  "scan_lines l [] =
     (if length l \<ge> max_line then ([], True) else (if l = [] then [] else [drop_cr (rev l)], False))"
| "scan_lines l (c # cs) =
     (if length l \<ge> max_line then ([], True)
      else if c = CHR 10 then (let (ls, long) = scan_lines [] cs in (drop_cr (rev l) # ls, long))
      else scan_lines (c # l) cs)"

datatype 'e sse_error = Callback 'e | OversizedEvent | LineTooLong | ReadFailed

definition dispatch :: "(bytes \<Rightarrow> 's \<Rightarrow> 'e option \<times> 's) \<Rightarrow> bytes \<Rightarrow> 's \<Rightarrow> 'e sse_error option \<times> 's" where
  "dispatch fn data s =
     (if data = [] then (None, s)
      else let (e, s) = fn (trim_suffix [CHR 10] data) s in (map_option Callback e, s))"

fun sse_run :: "(bytes \<Rightarrow> 's \<Rightarrow> 'e option \<times> 's) \<Rightarrow> bytes \<Rightarrow> bytes list \<Rightarrow> 'e sse_error option \<Rightarrow> 's \<Rightarrow> 'e sse_error option \<times> 's" where
  "sse_run fn data [] scan_err s =
     (case scan_err of Some e \<Rightarrow> (Some e, s) | None \<Rightarrow> dispatch fn data s)"
| "sse_run fn data (l # ls) scan_err s =
     (if l = [] then
        (let (e, s) = dispatch fn data s
         in case e of Some e \<Rightarrow> (Some e, s) | None \<Rightarrow> sse_run fn [] ls scan_err s)
      else if has_prefix ''data:'' l then
        (let v = trim_prefix '' '' (trim_prefix ''data:'' l); data = data @ v @ [CHR 10]
         in if length data > 2 ^ 20 then (Some OversizedEvent, s) else sse_run fn data ls scan_err s)
      else sse_run fn data ls scan_err s)"

text \<open>The body's bytes, whether reading it failed at the end, and the callback with its state.\<close>

definition readSSE :: "bytes \<Rightarrow> bool \<Rightarrow> (bytes \<Rightarrow> 's \<Rightarrow> 'e option \<times> 's) \<Rightarrow> 's \<Rightarrow> 'e sse_error option \<times> 's" where
  "readSSE body failed fn s =
     (let (ls, long) = scan_lines [] body
      in sse_run fn [] ls (if long then Some LineTooLong else if failed then Some ReadFailed else None) s)"

end
