(* ===== verification/Stream.thy ===== *)
theory Stream
  imports Normalize
begin

text \<open>
  \<open>Server.stream\<close> (\<open>server.go\<close>): relaying a provider's event stream to the caller.
  The caller's side is a log of write attempts; \<open>accepts\<close> says whether the n-th attempt
  goes through. Shown: a stream is reported empty only if nothing was sent, what a
  successful stream sent is the text it reports, and which providers can be reported empty
  at all.
\<close>

section \<open>Definitions\<close>

text \<open>
  What was tried on the connection: a stream frame, an error frame, the end marker, an
  error response, or a whole response body. The message of an error response is a text, or
  the complaint of the request parser.
\<close>

datatype problem_text = Plain bytes | OfParse chat_error

datatype client_write = WChunk json | WError | WDone | WProblem int problem_text | WBody int "json option"

datatype frame_error = PrematureDone | BadFrame | TextAfterFinish | WriteError | MissingFinish | StreamComplete

datatype stream_end = StreamOK | StreamEmpty | StreamBroken

record streamState =
  finished :: bool
  terminal :: bool
  wrote :: bool
  pending :: "json option"
  mismatchCounted :: bool
  out_text :: bytes
  out_finish :: bytes
  out_usage :: tokenUsage
  stream_counters :: counters
  client :: "client_write list"

definition stream_init :: "counters \<Rightarrow> client_write list \<Rightarrow> streamState" where
  "stream_init m cl = \<lparr>finished = False, terminal = False, wrote = False, pending = None, mismatchCounted = False,
     out_text = [], out_finish = [], out_usage = no_usage, stream_counters = m, client = cl\<rparr>"

definition client_send :: "(nat \<Rightarrow> bool) \<Rightarrow> client_write \<Rightarrow> streamState \<Rightarrow> bool \<times> streamState" where
  "client_send accepts x s = (accepts (length (client s)), s\<lparr>client := client s @ [x]\<rparr>)"

record stream_env =
  env_route :: Route
  env_id :: bytes
  env_created :: int64
  accepts :: "nat \<Rightarrow> bool"

text \<open>The callback on one event.\<close>

definition on_frame :: "stream_env \<Rightarrow> bytes \<Rightarrow> streamState \<Rightarrow> frame_error option \<times> streamState" where
  "on_frame env b s =
     (let provider = Provider (env_route env) in
      if b = ''[DONE]'' then
        (if provider \<noteq> ''openai'' \<or> \<not> finished s then (Some PrematureDone, s)
         else (Some StreamComplete, s\<lparr>terminal := True\<rparr>))
      else
        let (n, fin, e) = normalize provider b True in
        if e then (Some BadFrame, s)
        else
          let s = (if n_UsageMismatch n \<and> \<not> mismatchCounted s
                   then s\<lparr>stream_counters := Add UsageMismatch 1 (stream_counters s), mismatchCounted := True\<rparr> else s);
              s = (if n_Input n \<noteq> 0 \<or> n_Output n \<noteq> 0 then s\<lparr>out_usage := usageOf n\<rparr> else s)
          in if finished s \<and> Text n \<noteq> [] then (Some TextAfterFinish, s)
             else
               let s = (if n_Finish n \<noteq> [] then s\<lparr>finished := True\<rparr> else s);
                   last_part = (\<lambda>s.
                     if fin \<and> provider \<noteq> ''openai'' then
                       (if \<not> finished s then (Some MissingFinish, s)
                        else (Some StreamComplete, s\<lparr>terminal := True\<rparr>))
                     else (None, s))
               in if Text n \<noteq> [] \<or> n_Finish n \<noteq> [] then
                    let ch = chunk (env_id env) (env_route env) n (env_created env) in
                    if \<not> wrote s \<and> Text n = [] \<and> n_Finish n = ''length'' then (None, s\<lparr>pending := Some ch\<rparr>)
                    else
                      let (ok, s) = client_send (accepts env) (WChunk ch) s in
                      if \<not> ok then (Some WriteError, s)
                      else
                        last_part (s\<lparr>wrote := True, out_text := out_text s @ Text n,
                                     out_finish := (if n_Finish n \<noteq> [] then n_Finish n else out_finish s)\<rparr>)
                  else last_part s)"

text \<open>What follows the last event.\<close>

definition stream_close :: "stream_env \<Rightarrow> frame_error sse_error option \<Rightarrow> streamState \<Rightarrow> stream_end \<times> streamState" where
  "stream_close env err s =
     (if (err = None \<or> err = Some (Callback StreamComplete)) \<and> terminal s then
        (if pending s \<noteq> None \<and> \<not> wrote s then (StreamEmpty, s)
         else
           let (ok, s) = (case pending s of None \<Rightarrow> (True, s) | Some ch \<Rightarrow> client_send (accepts env) (WChunk ch) s)
           in if \<not> ok then (StreamBroken, s)
              else let (ok, s) = client_send (accepts env) WDone s in (if ok then StreamOK else StreamBroken, s))
      else let (ok, s) = client_send (accepts env) WError s in (StreamBroken, s))"

text \<open>
  The provider's response as \<open>stream\<close> sees it: the content type, the bytes of the body
  and whether reading it fails at the end, and for Bedrock the items of its event stream.
\<close>

record stream_response =
  ContentType :: bytes
  body_bytes :: bytes
  body_failed :: bool
  body_items :: "es_item list"

definition stream :: "stream_env \<Rightarrow> stream_response \<Rightarrow> counters \<Rightarrow> client_write list \<Rightarrow> stream_end \<times> streamState" where
  "stream env res m cl =
     (let s = stream_init m cl;
          ct = go_to_lower (ContentType res)
      in if has_prefix ''text/event-stream'' ct then
           (let (err, s) = readSSE (body_bytes res) (body_failed res) (on_frame env) s in stream_close env err s)
         else if Provider (env_route env) = ''bedrock'' \<and> contains ct ''eventstream'' then
           (let (body, ok) = translateBedrockStream (8 * 2 ^ 20) (body_items res);
                (err, s) = readSSE body (\<not> ok) (on_frame env) s
            in stream_close env err s)
         else let (ok, s) = client_send (accepts env) (WProblem 502 (Plain ''expected provider event stream'')) s in (StreamBroken, s))"

section \<open>Lemmas: reading events\<close>

text \<open>
  What holds before an event and is kept by the callback while it goes on holds when the
  reading ends for a reason of its own; where the callback ends it, its own ending holds.
\<close>

lemma dispatch_rule:
  assumes "\<And>b s s'. P s \<Longrightarrow> fn b s = (None, s') \<Longrightarrow> P s'" "\<And>b s e s'. P s \<Longrightarrow> fn b s = (Some e, s') \<Longrightarrow> Q e s'"
    and "P s" "dispatch fn data s = (err, s')"
  shows "case err of None \<Rightarrow> P s' | Some (Callback e) \<Rightarrow> Q e s' | Some _ \<Rightarrow> P s'"
  using assms by (cases "fn (trim_suffix [CHR 10] data) s"; cases "fst (fn (trim_suffix [CHR 10] data) s)")
    (auto simp: dispatch_def split: if_splits)

lemma sse_run_rule:
  assumes "\<And>b s s'. P s \<Longrightarrow> fn b s = (None, s') \<Longrightarrow> P s'" "\<And>b s e s'. P s \<Longrightarrow> fn b s = (Some e, s') \<Longrightarrow> Q e s'"
  shows "P s \<Longrightarrow> (\<forall>e. scan_err \<noteq> Some (Callback e)) \<Longrightarrow> sse_run fn data ls scan_err s = (err, s') \<Longrightarrow>
    (case err of None \<Rightarrow> P s' | Some (Callback e) \<Rightarrow> Q e s' | Some _ \<Rightarrow> P s')"
proof (induction ls arbitrary: data s)
  case Nil
  show ?case
  proof (cases scan_err)
    case None
    then show ?thesis using Nil dispatch_rule [of P fn Q s data err s'] assms by simp
  next
    case (Some e)
    then show ?thesis using Nil by (cases e) auto
  qed
next
  case (Cons l ls)
  show ?case
  proof (cases "l = []")
    case True
    obtain e s1 where d: "dispatch fn data s = (e, s1)" by fastforce
    have "case e of None \<Rightarrow> P s1 | Some (Callback x) \<Rightarrow> Q x s1 | Some _ \<Rightarrow> P s1"
      using dispatch_rule [of P fn Q, OF assms(1) assms(2) Cons.prems(1) d] .
    then show ?thesis using Cons d True by (cases e) auto
  next
    case False
    then show ?thesis using Cons by (auto simp: Let_def split: if_splits)
  qed
qed

lemma readSSE_rule:
  assumes "\<And>b s s'. P s \<Longrightarrow> fn b s = (None, s') \<Longrightarrow> P s'" "\<And>b s e s'. P s \<Longrightarrow> fn b s = (Some e, s') \<Longrightarrow> Q e s'"
    and "P s" "readSSE body failed fn s = (err, s')"
  shows "case err of None \<Rightarrow> P s' | Some (Callback e) \<Rightarrow> Q e s' | Some _ \<Rightarrow> P s'"
proof -
  obtain ls long where "scan_lines [] body = (ls, long)" by fastforce
  with assms(4) have "sse_run fn [] ls (if long then Some LineTooLong else if failed then Some ReadFailed else None) s = (err, s')"
    by (simp add: readSSE_def)
  from sse_run_rule [of P fn Q, OF assms(1) assms(2) assms(3) _ this] show ?thesis by auto
qed

section \<open>Lemmas: what the caller gets\<close>

text \<open>The text of a chunk, read back from its JSON.\<close>

fun chunk_text :: "json \<Rightarrow> bytes" where
  "chunk_text (JObj ((_, JArr [JObj ((_, JObj ((_, JStr t) # _)) # _)]) # _)) = t"
| "chunk_text _ = []"

lemma chunk_text_chunk: "chunk_text (chunk rid r n created) = Text n"
  by (simp add: chunk_def)

text \<open>
  Along a stream: the chunks sent so far are what was reported, nothing was sent unless
  \<open>wrote\<close>, and a held frame has no text.
\<close>

definition relays_at :: "client_write list \<Rightarrow> client_write list \<Rightarrow> bytes \<Rightarrow> bool \<Rightarrow> json option \<Rightarrow> bool" where
  "relays_at cl c t w p \<longleftrightarrow>
     (\<exists>ws. c = cl @ map WChunk ws \<and> t = concat (map chunk_text ws) \<and> (w \<longleftrightarrow> ws \<noteq> [])) \<and>
     (\<forall>ch. p = Some ch \<longrightarrow> chunk_text ch = [])"

definition relays :: "client_write list \<Rightarrow> streamState \<Rightarrow> bool" where
  "relays cl s \<longleftrightarrow> relays_at cl (client s) (out_text s) (wrote s) (pending s)"

lemma relays_send: "relays_at cl c t w p \<Longrightarrow> relays_at cl (c @ [WChunk (chunk rid r n created)]) (t @ Text n) True p"
proof -
  assume a: "relays_at cl c t w p"
  then obtain ws where "c = cl @ map WChunk ws" "t = concat (map chunk_text ws)" by (auto simp: relays_at_def)
  then have "c @ [WChunk (chunk rid r n created)] = cl @ map WChunk (ws @ [chunk rid r n created])"
    "t @ Text n = concat (map chunk_text (ws @ [chunk rid r n created]))"
    by (simp_all add: chunk_text_chunk)
  with a show ?thesis unfolding relays_at_def by blast
qed

lemma relays_hold: "relays_at cl c t w p \<Longrightarrow> Text n = [] \<Longrightarrow> relays_at cl c t w (Some (chunk rid r n created))"
  by (simp add: relays_at_def chunk_text_chunk)

lemma on_frame_relays:
  assumes "relays cl s" "on_frame env b s = (e, s')"
  shows "e = Some WriteError \<or> relays cl s'"
proof (cases "b = ''[DONE]''")
  case True
  then show ?thesis using assms by (auto simp: on_frame_def relays_def split: if_splits)
next
  case False
  obtain n fin err where n: "normalize (Provider (env_route env)) b True = (n, fin, err)"
    by (cases "normalize (Provider (env_route env)) b True") auto
  have at: "relays_at cl (client s) (out_text s) (wrote s) (pending s)" using assms(1) by (simp add: relays_def)
  note send = relays_send [OF at, of "env_id env" "env_route env" n "env_created env"]
    and hold = relays_hold [OF at, of n "env_id env" "env_route env" "env_created env"]
  show ?thesis
    using assms(2) at send hold
    by (auto simp: on_frame_def False n Let_def client_send_def relays_def split: if_splits)
qed

lemma read_relays:
  assumes "readSSE body failed (on_frame env) (stream_init m cl) = (err, s)"
    and "err = None \<or> err = Some (Callback StreamComplete)"
  shows "relays cl s"
proof -
  have "relays cl (stream_init m cl)" by (simp add: relays_def relays_at_def stream_init_def)
  from readSSE_rule [of "relays cl" "on_frame env" "\<lambda>e s. e = WriteError \<or> relays cl s", OF _ _ this assms(1)]
  show ?thesis using on_frame_relays assms(2) by fastforce
qed

text \<open>A stream that got as far as its events: the reading and the closing.\<close>

lemma stream_cases:
  assumes "stream env res m cl = (e, s)"
  obtains (read) body failed err s1 where "readSSE body failed (on_frame env) (stream_init m cl) = (err, s1)"
      "stream_close env err s1 = (e, s)"
  | (wrong_type) "e = StreamBroken" "client s = cl @ [WProblem 502 (Plain ''expected provider event stream'')]"
proof -
  let ?ct = "go_to_lower (ContentType res)"
  consider (sse) "has_prefix ''text/event-stream'' ?ct"
    | (aws) "\<not> has_prefix ''text/event-stream'' ?ct" "Provider (env_route env) = ''bedrock'' \<and> contains ?ct ''eventstream''"
    | (other) "\<not> has_prefix ''text/event-stream'' ?ct" "\<not> (Provider (env_route env) = ''bedrock'' \<and> contains ?ct ''eventstream'')"
    by blast
  then show thesis
  proof cases
    case sse
    then show thesis
      using assms read by (cases "readSSE (body_bytes res) (body_failed res) (on_frame env) (stream_init m cl)")
        (simp add: stream_def Let_def)
  next
    case aws
    obtain body ok where t: "translateBedrockStream (8 * 2 ^ 20) (body_items res) = (body, ok)" by fastforce
    then show thesis
      using assms read aws by (cases "readSSE body (\<not> ok) (on_frame env) (stream_init m cl)")
        (simp add: stream_def Let_def del: power_numeral)
  next
    case other
    then have "(e, s) = (StreamBroken, (stream_init m cl)\<lparr>client := cl @ [WProblem 502 (Plain ''expected provider event stream'')]\<rparr>)"
      using assms by (auto simp: stream_def Let_def client_send_def stream_init_def)
    then show thesis using wrong_type by simp
  qed
qed

lemma close_empty:
  assumes "stream_close env err s1 = (StreamEmpty, s)"
  shows "s = s1 \<and> \<not> wrote s1 \<and> pending s1 \<noteq> None \<and> terminal s1 \<and> (err = None \<or> err = Some (Callback StreamComplete))"
  using assms by (auto simp: stream_close_def Let_def client_send_def split: if_splits option.splits)

lemma close_ok:
  assumes "stream_close env err s1 = (StreamOK, s)"
  shows "(err = None \<or> err = Some (Callback StreamComplete)) \<and> terminal s1 \<and> out_text s = out_text s1 \<and> out_finish s = out_finish s1 \<and>
    client s = client s1 @ (case pending s1 of None \<Rightarrow> [] | Some ch \<Rightarrow> [WChunk ch]) @ [WDone] \<and>
    (pending s1 \<noteq> None \<longrightarrow> wrote s1)"
  using assms by (auto simp: stream_close_def Let_def client_send_def split: if_splits option.splits)

lemma stream_empty_sent_nothing:
  assumes "stream env res m cl = (StreamEmpty, s)"
  shows "client s = cl" "out_text s = []"
proof -
  obtain body failed err s1 where r: "readSSE body failed (on_frame env) (stream_init m cl) = (err, s1)"
    and c: "stream_close env err s1 = (StreamEmpty, s)" using assms by (cases rule: stream_cases) auto
  note e = close_empty [OF c]
  have "relays cl s1" using read_relays [OF r] e by blast
  then show "client s = cl" "out_text s = []" using e by (auto simp: relays_def relays_at_def)
qed

lemma stream_ok_relayed:
  assumes "stream env res m cl = (StreamOK, s)"
  obtains ws where "client s = cl @ map WChunk ws @ [WDone]" "out_text s = concat (map chunk_text ws)"
proof -
  obtain body failed err s1 where r: "readSSE body failed (on_frame env) (stream_init m cl) = (err, s1)"
    and c: "stream_close env err s1 = (StreamOK, s)" using assms by (cases rule: stream_cases) auto
  note e = close_ok [OF c]
  have rel: "relays cl s1" using read_relays [OF r] e by blast
  then obtain ws where ws: "client s1 = cl @ map WChunk ws" "out_text s1 = concat (map chunk_text ws)"
    by (auto simp: relays_def relays_at_def)
  show thesis
  proof (cases "pending s1")
    case None
    then show thesis using that [of ws] ws e by simp
  next
    case (Some ch)
    then have "chunk_text ch = []" using rel by (simp add: relays_def relays_at_def)
    then show thesis using that [of "ws @ [ch]"] ws e Some by simp
  qed
qed

section \<open>Lemmas: which streams can be reported empty\<close>

text \<open>For Gemini and Bedrock a frame is complete exactly when it carries a finish reason.\<close>

lemma finish_reason_nonempty: "finish_reason s = Some f \<Longrightarrow> f \<noteq> []"
  by (auto simp: finish_reason_def split: if_splits)

lemma bedrockFinish_nonempty: "bedrockFinish s = Some f \<Longrightarrow> f \<noteq> []"
  by (auto simp: bedrockFinish_def split: if_splits)

lemma gemini_parts_finish: "n_Finish (fst (gemini_parts n ps)) = n_Finish n"
  by (induction n ps rule: gemini_parts.induct) auto

lemma gemini_done:
  assumes "normalize_gemini w = (n, fin, False)"
  shows "fin \<longleftrightarrow> n_Finish n \<noteq> []"
proof (cases "Candidates w")
  case Nil
  with assms show ?thesis
    by (auto simp: normalize_gemini_def Let_def empty_normalized_def split: if_splits)
next
  case (Cons c cs)
  have nf: "n_Finish (fst (gemini_parts x (Parts c))) = n_Finish x" for x by (rule gemini_parts_finish)
  show ?thesis
  proof (cases "Block w = []")
    case True
    then show ?thesis
      using assms Cons nf
      by (auto simp: normalize_gemini_def Let_def norm_error_def case_prod_unfold empty_normalized_def
          finish_reason_nonempty split: if_splits option.splits)
  next
    case False
    then show ?thesis using assms by (auto simp: normalize_gemini_def Let_def)
  qed
qed

lemma bedrock_done:
  "normalizeBedrockStream b = (n, fin, False) \<Longrightarrow> fin \<longleftrightarrow> n_Finish n \<noteq> []"
  by (auto simp: normalizeBedrockStream_def norm_error_def Let_def empty_normalized_def bedrockFinish_nonempty
      split: option.splits if_splits)

lemma whole_frame_done:
  assumes "p = ''gemini'' \<or> p = ''bedrock''" "normalize p b True = (n, fin, False)"
  shows "fin \<longleftrightarrow> n_Finish n \<noteq> []"
  using assms gemini_done bedrock_done
  by (auto simp: normalize_def norm_error_def Let_def case_prod_unfold split: option.splits if_splits) (metis prod.collapse)+

lemma whole_frame_terminal:
  assumes "Provider (env_route env) = ''gemini'' \<or> Provider (env_route env) = ''bedrock''"
    and "terminal s \<longrightarrow> wrote s" "on_frame env b s = (e, s')"
  shows "terminal s' \<longrightarrow> wrote s'"
proof (cases "b = ''[DONE]''")
  case True
  then show ?thesis using assms by (auto simp: on_frame_def split: if_splits)
next
  case False
  obtain n fin err where n: "normalize (Provider (env_route env)) b True = (n, fin, err)"
    by (cases "normalize (Provider (env_route env)) b True") auto
  have "err \<or> (fin \<longleftrightarrow> n_Finish n \<noteq> [])" using whole_frame_done [OF assms(1)] n by (cases err) auto
  then show ?thesis
    using assms(2,3) by (auto simp: on_frame_def False n Let_def client_send_def split: if_splits)
qed

lemma whole_frame_never_empty:
  assumes "Provider (env_route env) = ''gemini'' \<or> Provider (env_route env) = ''bedrock''"
  shows "fst (stream env res m cl) \<noteq> StreamEmpty"
proof
  assume "fst (stream env res m cl) = StreamEmpty"
  then have "stream env res m cl = (StreamEmpty, snd (stream env res m cl))" by (metis prod.collapse)
  then obtain body failed err s1 where r: "readSSE body failed (on_frame env) (stream_init m cl) = (err, s1)"
    and c: "stream_close env err s1 = (StreamEmpty, snd (stream env res m cl))" by (cases rule: stream_cases) auto
  let ?P = "\<lambda>s. terminal s \<longrightarrow> wrote s"
  have "?P (stream_init m cl)" by (simp add: stream_init_def)
  from readSSE_rule [of ?P "on_frame env" "\<lambda>e s. ?P s", OF _ _ this r]
  have "?P s1" using whole_frame_terminal [OF assms] close_empty [OF c] by fastforce
  then show False using close_empty [OF c] by simp
qed

section \<open>Lemmas: frames written and read back\<close>

lemma scan_line:
  assumes "CHR 10 \<notin> set l" "length l + length a < max_line"
  shows "scan_lines a (l @ [CHR 10] @ r) =
    (drop_cr (rev a @ l) # fst (scan_lines [] r), snd (scan_lines [] r))"
  using assms
proof (induction l arbitrary: a)
  case Nil
  then show ?case by (simp add: case_prod_unfold Let_def)
next
  case (Cons c l)
  then show ?case by auto
qed

definition frame_ok :: "bytes \<Rightarrow> bool" where
  "frame_ok p \<longleftrightarrow> p \<noteq> [] \<and> CHR 10 \<notin> set p \<and> last p \<noteq> CHR 13 \<and> length p + 7 < max_line"

lemma scan_frame:
  assumes "frame_ok p"
  shows "scan_lines [] (sse_frame p @ r) = ((''data: '' @ p) # [] # fst (scan_lines [] r), snd (scan_lines [] r))"
proof -
  have "scan_lines [] ((''data: '' @ p) @ [CHR 10] @ [] @ [CHR 10] @ r) =
      (drop_cr (rev [] @ ''data: '' @ p) # fst (scan_lines [] ([] @ [CHR 10] @ r)), snd (scan_lines [] ([] @ [CHR 10] @ r)))"
    using assms by (intro scan_line) (auto simp: frame_ok_def)
  moreover have "scan_lines [] ([] @ [CHR 10] @ r) = ([] # fst (scan_lines [] r), snd (scan_lines [] r))"
    using scan_line [of "[]" "[]" r] by (simp add: drop_cr_def max_line_def)
  moreover have "drop_cr (''data: '' @ p) = ''data: '' @ p" using assms by (simp add: drop_cr_def frame_ok_def)
  ultimately show ?thesis by (simp add: sse_frame_def)
qed

text \<open>Events in order, until the callback ends the reading.\<close>

fun feed :: "(bytes \<Rightarrow> 's \<Rightarrow> 'e option \<times> 's) \<Rightarrow> bytes list \<Rightarrow> 's \<Rightarrow> 'e sse_error option \<times> 's" where
  "feed fn [] s = (None, s)"
| "feed fn (p # ps) s = (case fn p s of (Some e, s') \<Rightarrow> (Some (Callback e), s') | (None, s') \<Rightarrow> feed fn ps s')"

lemma sse_run_frame:
  assumes "frame_ok p"
  shows "sse_run fn [] ((''data: '' @ p) # [] # ls) err s =
    (case fn p s of (Some e, s') \<Rightarrow> (Some (Callback e), s') | (None, s') \<Rightarrow> sse_run fn [] ls err s')"
proof -
  have p: "p \<noteq> []" "length p + 1 \<le> 2 ^ 20" "trim_suffix [CHR 10] (p @ [CHR 10]) = p"
    using assms by (auto simp: frame_ok_def max_line_def trim_suffix_def has_suffix_iff)
  have "trim_prefix '' '' (trim_prefix ''data:'' (''data: '' @ p)) = p" "has_prefix ''data:'' (''data: '' @ p)"
    by (simp_all add: trim_prefix_def has_prefix_def)
  then show ?thesis using p by (simp add: dispatch_def Let_def split: prod.splits option.splits)
qed

lemma readSSE_frames:
  assumes "list_all frame_ok ps"
  shows "readSSE (concat (map sse_frame ps)) False fn s = feed fn ps s"
proof -
  have scan: "scan_lines [] (concat (map sse_frame ps)) = (concat (map (\<lambda>p. [''data: '' @ p, []]) ps), False)"
    using assms by (induction ps) (simp_all add: scan_frame max_line_def)
  have "sse_run fn [] (concat (map (\<lambda>p. [''data: '' @ p, []]) ps)) None s = feed fn ps s"
    using assms
  proof (induction ps arbitrary: s)
    case (Cons p ps)
    then have p: "frame_ok p" by simp
    have "sse_run fn [] ((''data: '' @ p) # [] # concat (map (\<lambda>p. [''data: '' @ p, []]) ps)) None s = feed fn (p # ps) s"
      unfolding sse_run_frame [OF p] using Cons by (simp split: prod.splits option.splits)
    then show ?case by (simp only: list.map concat.simps append.simps)
  qed (simp add: dispatch_def)
  then show ?thesis by (simp add: readSSE_def scan)
qed

end
