(* ===== verification/Disk.thy ===== *)
theory Disk
  imports Gateway_Prelude "HOL-Library.AList" "HOL-Library.List_Lexorder" "HOL-Library.Char_ord"
begin

text \<open>
  A flat directory of files, as the gateway's three disk-backed stores use one: what
  \<open>os.Stat\<close>, \<open>os.ReadDir\<close>, \<open>os.WriteFile\<close> and \<open>os.Remove\<close> do to it, and the
  byte and file accounting that the stores keep beside it. Readings of the clock within one
  call are one instant. The locale \<open>swept_store\<close> is the contract of a store with an
  expiry sweep.
\<close>

section \<open>Definitions\<close>

record disk_file =
  content :: bytes
  mtime :: instant

type_synonym dir = "(bytes \<times> disk_file) list"

definition size_of :: "disk_file \<Rightarrow> int64" where
  "size_of f = int (length (content f))"

definition dir_put :: "bytes \<Rightarrow> disk_file \<Rightarrow> dir \<Rightarrow> dir" where
  "dir_put n f d = AList.update n f d"

definition dir_remove :: "bytes \<Rightarrow> dir \<Rightarrow> dir" where
  "dir_remove n d = AList.delete n d"

text \<open>\<open>os.ReadDir\<close> lists in the order of the names.\<close>

definition ReadDir :: "dir \<Rightarrow> (bytes \<times> disk_file) list" where
  "ReadDir d = sort_key fst d"

text \<open>
  How an \<open>os.WriteFile\<close> goes: done, never opened, or failed after the file was truncated
  and some bytes were written.
\<close>

datatype write_fate = Wrote | NotOpened | Partial nat

definition WriteFile :: "write_fate \<Rightarrow> instant \<Rightarrow> bytes \<Rightarrow> bytes \<Rightarrow> dir \<Rightarrow> bool \<times> dir" where
  "WriteFile w now n b d =
     (case w of
        Wrote \<Rightarrow> (True, dir_put n \<lparr>content = b, mtime = now\<rparr> d)
      | NotOpened \<Rightarrow> (False, d)
      | Partial k \<Rightarrow> (False, dir_put n \<lparr>content = take k b, mtime = now\<rparr> d))"

definition dir_bytes :: "dir \<Rightarrow> int64" where
  "dir_bytes d = sum_list (map (\<lambda>(n, f). size_of f) d)"

text \<open>The scan of a sweep: names and sizes of at most \<open>cap\<close> files older than \<open>ttl\<close>.\<close>

definition expired_file :: "duration \<Rightarrow> instant \<Rightarrow> disk_file \<Rightarrow> bool" where
  "expired_file ttl now f \<longleftrightarrow> \<not> time_sub now (mtime f) \<le> ttl"

definition sweep_scan :: "nat \<Rightarrow> duration \<Rightarrow> instant \<Rightarrow> dir \<Rightarrow> (bytes \<times> int64) list" where
  "sweep_scan cap ttl now d =
     take cap (map (\<lambda>(n, f). (n, size_of f)) (filter (\<lambda>(n, f). expired_file ttl now f) (ReadDir d)))"

text \<open>One removal of a sweep on the directory and the accounts; a file that is gone is skipped.\<close>

fun sweep_remove :: "bytes \<times> int64 \<Rightarrow> dir \<times> int64 \<times> int \<Rightarrow> dir \<times> int64 \<times> int" where
  "sweep_remove (n, sz) (d, used, count) =
     (if map_of d n = None then (d, used, count)
      else (dir_remove n d, used - sz, count - 1))"

text \<open>The recovery of the accounts at startup, which drops what has expired.\<close>

definition recover :: "duration \<Rightarrow> instant \<Rightarrow> dir \<Rightarrow> dir \<times> int64 \<times> int" where
  "recover ttl now d =
     fold (\<lambda>(n, f) (d, used, count).
         if expired_file ttl now f then (dir_remove n d, used, count)
         else (d, used + size_of f, count + 1))
       (ReadDir d) (d, 0, 0)"

section \<open>Lemmas: files\<close>

definition dir_ok :: "dir \<Rightarrow> bool" where
  "dir_ok d \<longleftrightarrow> distinct (map fst d)"

lemma dir_put_lookup [table_simps]: "map_of (dir_put n f d) = (map_of d)(n \<mapsto> f)"
  by (simp add: dir_put_def update_conv')

lemma dir_remove_lookup [table_simps]: "map_of (dir_remove n d) = (map_of d)(n := None)"
  by (simp add: dir_remove_def delete_conv')

lemma dir_put_ok [store_inv]: "dir_ok d \<Longrightarrow> dir_ok (dir_put n f d)"
  by (simp add: dir_ok_def dir_put_def distinct_update)

lemma dir_remove_ok [store_inv]: "dir_ok d \<Longrightarrow> dir_ok (dir_remove n d)"
  by (simp add: dir_ok_def dir_remove_def distinct_delete)

lemma ReadDir_set: "set (ReadDir d) = set d"
  by (simp add: ReadDir_def)

lemma ReadDir_distinct: "dir_ok d \<Longrightarrow> distinct (map fst (ReadDir d))"
  unfolding dir_ok_def ReadDir_def by (simp only: distinct_map distinct_sort set_sort)

definition stored_size :: "bytes \<Rightarrow> dir \<Rightarrow> int64" where
  "stored_size n d = (case map_of d n of None \<Rightarrow> 0 | Some f \<Rightarrow> size_of f)"

lemma dir_bytes_put:
  "dir_ok d \<Longrightarrow> dir_bytes (dir_put n f d) = dir_bytes d + size_of f - stored_size n d"
proof (induction d)
  case (Cons x d)
  then show ?case
    by (cases x) (auto simp: dir_bytes_def dir_put_def stored_size_def dir_ok_def)
qed (simp add: dir_bytes_def dir_put_def stored_size_def)

lemma dir_remove_absent: "n \<notin> fst ` set d \<Longrightarrow> dir_remove n d = d"
  unfolding dir_remove_def by (induction d) auto

lemma dir_bytes_remove:
  "dir_ok d \<Longrightarrow> dir_bytes (dir_remove n d) = dir_bytes d - stored_size n d"
proof (induction d)
  case (Cons x d)
  then show ?case
    using dir_remove_absent [of n d]
    by (cases x) (auto simp: dir_bytes_def dir_remove_def stored_size_def dir_ok_def)
qed (simp add: dir_bytes_def dir_remove_def stored_size_def)

lemma dir_length_put:
  "dir_ok d \<Longrightarrow> length (dir_put n f d) = length d + (if map_of d n = None then 1 else 0)"
proof (induction d)
  case (Cons x d)
  then show ?case by (cases x) (auto simp: dir_put_def dir_ok_def)
qed (simp add: dir_put_def)

lemma dir_length_remove:
  "dir_ok d \<Longrightarrow> int (length (dir_remove n d)) = int (length d) - (if map_of d n = None then 0 else 1)"
proof (induction d)
  case (Cons x d)
  then show ?case
    using dir_remove_absent [of n d] by (cases x) (auto simp: dir_remove_def dir_ok_def)
qed (simp add: dir_remove_def)

section \<open>Lemmas: the accounts\<close>

text \<open>The accounts agree with the directory, and no file is empty.\<close>

definition no_empty :: "dir \<Rightarrow> bool" where
  "no_empty d \<longleftrightarrow> list_all (\<lambda>(n, f). content f \<noteq> []) d"

definition accounts :: "dir \<Rightarrow> int64 \<Rightarrow> int \<Rightarrow> bool" where
  "accounts d used count \<longleftrightarrow>
     dir_ok d \<and> used = dir_bytes d \<and> count = int (length d) \<and> no_empty d"

lemma no_empty_put: "no_empty d \<Longrightarrow> content f \<noteq> [] \<Longrightarrow> no_empty (dir_put n f d)"
  unfolding dir_put_def no_empty_def by (induction d) auto

lemma no_empty_remove: "no_empty d \<Longrightarrow> no_empty (dir_remove n d)"
  unfolding dir_remove_def no_empty_def AList.delete_eq by (simp add: list_all_iff)

lemma no_empty_stored: "no_empty d \<Longrightarrow> stored_size n d = 0 \<longleftrightarrow> map_of d n = None"
  by (induction d) (auto simp: no_empty_def stored_size_def size_of_def)

text \<open>What the stores do after a write: a file that had no bytes counts as a new one.\<close>

lemma accounts_put [store_inv]:
  assumes "accounts d used count" "content f \<noteq> []"
  shows "accounts (dir_put n f d) (used + (size_of f - stored_size n d))
    (if stored_size n d = 0 then count + 1 else count)"
  using assms no_empty_stored [of d n]
  by (simp add: accounts_def dir_put_ok dir_bytes_put dir_length_put no_empty_put)

lemma accounts_remove [store_inv]:
  assumes "accounts d used count" "map_of d n = Some f"
  shows "accounts (dir_remove n d) (used - size_of f) (count - 1)"
  using assms by (simp add: accounts_def dir_remove_ok dir_bytes_remove dir_length_remove no_empty_remove stored_size_def)

section \<open>Lemmas: sweeping\<close>

lemma dir_remove_filter: "dir_remove n d = filter (\<lambda>(k, f). k \<noteq> n) d"
  by (auto simp: dir_remove_def AList.delete_eq intro: filter_cong)

text \<open>The victims of a scan are files of the directory with the size they have there.\<close>

definition victims_ok :: "(bytes \<times> int64) list \<Rightarrow> dir \<Rightarrow> bool" where
  "victims_ok vs d \<longleftrightarrow> distinct (map fst vs) \<and> (\<forall>(n, sz) \<in> set vs. \<exists>f. map_of d n = Some f \<and> size_of f = sz)"

lemma sweep_fold:
  assumes "victims_ok vs d" "accounts d used count" "fold sweep_remove vs (d, used, count) = (d', used', count')"
  shows "d' = filter (\<lambda>(n, f). n \<notin> fst ` set vs) d \<and> accounts d' used' count' \<and> count' = count - int (length vs)"
  using assms
proof (induction vs arbitrary: d used count)
  case Nil
  then show ?case by (auto simp: filter_id_conv)
next
  case (Cons v vs)
  obtain n sz where v: "v = (n, sz)" by (cases v)
  obtain f where f: "map_of d n = Some f" "size_of f = sz" using Cons.prems(1) by (auto simp: v victims_ok_def)
  have ok: "accounts (dir_remove n d) (used - sz) (count - 1)" using accounts_remove [OF Cons.prems(2) f(1)] f(2) by simp
  have vs: "victims_ok vs (dir_remove n d)"
    using Cons.prems(1) unfolding v victims_ok_def dir_remove_lookup
    by (auto simp: image_iff) fastforce+
  have "fold sweep_remove vs (dir_remove n d, used - sz, count - 1) = (d', used', count')"
    using Cons.prems(3) f(1) by (simp add: v)
  from Cons.IH [OF vs ok this] show ?case
    by (auto simp: v dir_remove_filter case_prod_unfold intro!: filter_cong)
qed

lemma scan_victims:
  assumes "dir_ok d"
  shows "victims_ok (sweep_scan cap ttl now d) d"
proof -
  let ?E = "filter (\<lambda>(n, f). expired_file ttl now f) (ReadDir d)"
  have "map fst (sweep_scan cap ttl now d) = take cap (map fst ?E)"
    by (simp add: sweep_scan_def take_map case_prod_unfold)
  moreover have "distinct (map fst ?E)" using ReadDir_distinct [OF assms] by (rule distinct_map_filter)
  ultimately have "distinct (map fst (sweep_scan cap ttl now d))" by (simp only: distinct_take)
  moreover have "\<exists>f. map_of d n = Some f \<and> size_of f = sz" if "(n, sz) \<in> set (sweep_scan cap ttl now d)" for n sz
  proof -
    from that obtain f where "(n, f) \<in> set d" "sz = size_of f"
      by (auto simp: sweep_scan_def ReadDir_set dest!: in_set_takeD)
    then show ?thesis using assms by (auto simp: dir_ok_def)
  qed
  ultimately show ?thesis unfolding victims_ok_def by blast
qed

text \<open>One whole sweep: the scan and its removals.\<close>

definition sweep :: "nat \<Rightarrow> duration \<Rightarrow> instant \<Rightarrow> dir \<times> int64 \<times> int \<Rightarrow> dir \<times> int64 \<times> int" where
  "sweep cap ttl now st = fold sweep_remove (sweep_scan cap ttl now (fst st)) st"

definition expired_count :: "duration \<Rightarrow> instant \<Rightarrow> dir \<Rightarrow> nat" where
  "expired_count ttl now d = length (filter (\<lambda>(n, f). expired_file ttl now f) d)"

definition live_files :: "duration \<Rightarrow> instant \<Rightarrow> dir \<Rightarrow> dir" where
  "live_files ttl now d = filter (\<lambda>(n, f). \<not> expired_file ttl now f) d"

lemma scan_length: "length (sweep_scan cap ttl now d) = min cap (expired_count ttl now d)"
proof -
  have "length (filter P (ReadDir d)) = length (filter P d)" for P
    unfolding ReadDir_def by (metis filter_sort length_sort)
  then show ?thesis by (simp add: sweep_scan_def expired_count_def min.commute)
qed

lemma scan_expired:
  assumes "dir_ok d" "(n, f) \<in> set d" "n \<in> fst ` set (sweep_scan cap ttl now d)"
  shows "expired_file ttl now f"
proof -
  obtain g where "(n, g) \<in> set d" "expired_file ttl now g"
    using assms(3) by (auto simp: sweep_scan_def ReadDir_set dest!: in_set_takeD)
  moreover from this have "g = f" using assms(1,2) eq_key_imp_eq_value unfolding dir_ok_def by metis
  ultimately show ?thesis by simp
qed

lemma length_split: "length d = expired_count ttl now d + length (live_files ttl now d)"
  unfolding expired_count_def live_files_def by (induction d) auto

lemma sweep_works:
  assumes "accounts d used count" "sweep cap ttl now (d, used, count) = (d', used', count')"
  shows "accounts d' used' count'" "live_files ttl now d' = live_files ttl now d"
    "expired_count ttl now d' = expired_count ttl now d - cap"
proof -
  let ?vs = "sweep_scan cap ttl now d"
  have dok: "dir_ok d" using assms(1) by (simp add: accounts_def)
  have run: "fold sweep_remove ?vs (d, used, count) = (d', used', count')" using assms(2) by (simp add: sweep_def)
  have d': "d' = filter (\<lambda>(n, f). n \<notin> fst ` set ?vs) d" and acc: "accounts d' used' count'"
    and cnt: "count' = count - int (length ?vs)"
    using sweep_fold [OF scan_victims [OF dok] assms(1) run] by blast+
  show "accounts d' used' count'" by (rule acc)
  show live: "live_files ttl now d' = live_files ttl now d"
    unfolding d' live_files_def filter_filter
    by (intro filter_cong) (auto dest: scan_expired [OF dok])
  have "int (length d') = int (length d) - int (min cap (expired_count ttl now d))"
    using acc assms(1) cnt by (simp add: accounts_def scan_length)
  then show "expired_count ttl now d' = expired_count ttl now d - cap"
    using length_split [of d ttl now] length_split [of d' ttl now] live by (simp add: min_def split: if_splits)
qed

section \<open>Lemmas: recovery at startup\<close>

lemma sum_sort: "sum_list (map g (sort_key k xs)) = sum_list (map g xs)" for g :: "'a \<Rightarrow> int"
proof -
  have "sum_list (map g (insort_key k x ys)) = g x + sum_list (map g ys)" for x ys by (induction ys) auto
  then show ?thesis by (induction xs) simp_all
qed

lemma ReadDir_sum: "sum_list (map g (filter P (ReadDir d))) = sum_list (map g (filter P d))" for g :: "bytes \<times> disk_file \<Rightarrow> int"
  by (simp add: ReadDir_def filter_sort sum_sort)

lemma ReadDir_length: "length (filter P (ReadDir d)) = length (filter P d)"
  unfolding ReadDir_def by (metis filter_sort length_sort)

lemma recover_fold:
  "fold (\<lambda>(n, f) (d, used, count).
       if expired_file ttl now f then (dir_remove n d, used, count) else (d, used + size_of f, count + 1)) xs (d, used, count) =
   (filter (\<lambda>(n, g). n \<notin> fst ` set (filter (\<lambda>(n, f). expired_file ttl now f) xs)) d,
    used + dir_bytes (live_files ttl now xs), count + int (length (live_files ttl now xs)))"
proof (induction xs arbitrary: d used count)
  case Nil
  then show ?case by (simp add: live_files_def dir_bytes_def case_prod_unfold)
next
  case (Cons x xs)
  obtain n f where x: "x = (n, f)" by (cases x)
  show ?case
    using Cons [of "dir_remove n d"] Cons [of d]
    by (auto simp: x live_files_def dir_bytes_def dir_remove_filter case_prod_unfold intro!: filter_cong)
qed

lemma recover_works:
  assumes "dir_ok d"
  shows "recover ttl now d = (live_files ttl now d, dir_bytes (live_files ttl now d), int (length (live_files ttl now d)))"
proof -
  have "filter (\<lambda>(n, g). n \<notin> fst ` set (filter (\<lambda>(n, f). expired_file ttl now f) (ReadDir d))) d = live_files ttl now d"
    unfolding live_files_def
  proof (intro filter_cong refl, clarify)
    fix n f assume n: "(n, f) \<in> set d"
    have "g = f" if "(n, g) \<in> set d" for g
      using assms that n eq_key_imp_eq_value unfolding dir_ok_def by metis
    moreover have "n \<in> fst ` set (filter (\<lambda>(n, f). expired_file ttl now f) (ReadDir d)) \<longleftrightarrow>
        (\<exists>g. (n, g) \<in> set d \<and> expired_file ttl now g)" by (auto simp: ReadDir_set image_iff)
    ultimately show "(n \<notin> fst ` set (filter (\<lambda>(n, f). expired_file ttl now f) (ReadDir d))) = (\<not> expired_file ttl now f)"
      using n by blast
  qed
  moreover have "dir_bytes (live_files ttl now (ReadDir d)) = dir_bytes (live_files ttl now d)"
    by (simp add: dir_bytes_def live_files_def ReadDir_sum)
  ultimately show ?thesis
    unfolding recover_def recover_fold by (simp add: live_files_def ReadDir_length)
qed

lemma recover_accounts:
  assumes "dir_ok d" "no_empty d" "recover ttl now d = (d', used, count)"
  shows "accounts d' used count"
proof -
  have "dir_ok (live_files ttl now d)" using assms(1) unfolding dir_ok_def live_files_def by (rule distinct_map_filter)
  moreover have "no_empty (live_files ttl now d)" using assms(2) by (auto simp: no_empty_def live_files_def list_all_iff)
  ultimately show ?thesis using assms(3) by (auto simp: recover_works [OF assms(1)] accounts_def)
qed
section \<open>The contract of a swept store\<close>

text \<open>
  A store keeps a directory, a time to live and its accounts, and a pass of its sweep is a
  pass over the directory. A client that sweeps often enough gets rid of all that has
  expired, keeps all that has not, and the accounts stay exact.
\<close>

locale swept_store =
  fixes Sweep :: "instant \<Rightarrow> 's \<Rightarrow> 's"
    and state :: "'s \<Rightarrow> dir \<times> int64 \<times> int"
    and ttl :: "'s \<Rightarrow> duration"
    and cap :: nat
  assumes cap_pos: "0 < cap"
    and sweep_state: "state (Sweep now s) = sweep cap (ttl s) now (state s)"
    and sweep_ttl: "ttl (Sweep now s) = ttl s"
begin

definition exact :: "'s \<Rightarrow> bool" where
  "exact s = (case state s of (d, used, count) \<Rightarrow> accounts d used count)"

definition files :: "'s \<Rightarrow> dir" where
  "files s = fst (state s)"

lemma sweep_exact: "exact s \<Longrightarrow> exact (Sweep now s)"
  using sweep_works(1) by (auto simp: exact_def sweep_state split: prod.splits)

lemma sweep_live: "exact s \<Longrightarrow> live_files (ttl s) now (files (Sweep now s)) = live_files (ttl s) now (files s)"
  using sweep_works(2) by (auto simp: exact_def files_def sweep_state split: prod.splits) (metis fst_conv surj_pair)

lemma sweep_count:
  "exact s \<Longrightarrow> expired_count (ttl s) now (files (Sweep now s)) = expired_count (ttl s) now (files s) - cap"
  using sweep_works(3) by (auto simp: exact_def files_def sweep_state split: prod.splits) (metis fst_conv surj_pair)

lemma sweeps:
  assumes "exact s"
  shows "exact ((Sweep now ^^ k) s) \<and> ttl ((Sweep now ^^ k) s) = ttl s \<and>
    live_files (ttl s) now (files ((Sweep now ^^ k) s)) = live_files (ttl s) now (files s) \<and>
    expired_count (ttl s) now (files ((Sweep now ^^ k) s)) = expired_count (ttl s) now (files s) - k * cap"
proof (induction k)
  case (Suc k)
  then show ?case
    using sweep_exact [of "(Sweep now ^^ k) s" now] sweep_live [of "(Sweep now ^^ k) s" now]
      sweep_count [of "(Sweep now ^^ k) s" now] sweep_ttl by simp
qed (simp add: assms)

lemma sweeps_clear:
  assumes "exact s" "expired_count (ttl s) now (files s) \<le> k * cap"
  shows "files ((Sweep now ^^ k) s) = live_files (ttl s) now (files s)"
proof -
  have "expired_count (ttl s) now (files ((Sweep now ^^ k) s)) = 0" using sweeps [OF assms(1)] assms(2) by simp
  then have "live_files (ttl s) now (files ((Sweep now ^^ k) s)) = files ((Sweep now ^^ k) s)"
    by (auto simp: expired_count_def live_files_def filter_empty_conv filter_id_conv)
  then show ?thesis using sweeps [OF assms(1), where now = now and k = k] by simp
qed

end

end
