(* ===== verification/Idempotency.thy ===== *)
theory Idempotency
  imports Policy Disk Metrics
begin

text \<open>
  The idempotency store (\<open>idempotency.go\<close>): one file per key, holding a claim or an
  outcome. Each operation runs under the store's mutex, so a concurrent history is a
  sequence of calls; \<open>Sweep\<close> is split where the code is not under the mutex. \<open>sha\<close>
  stands for \<open>sha256.Sum256\<close>. The locale \<open>claims\<close> states what the chat handler relies
  on, and proves that a key has at most one holder.
\<close>

section \<open>Entries\<close>

definition idemRunning :: bytes where "idemRunning = ''running''"
definition idemDone :: bytes where "idemDone = ''done''"
definition idemUnknown :: bytes where "idemUnknown = ''unknown''"

record idemEntry =
  State :: bytes
  BodyHash :: bytes
  Stored :: int64
  entry_Status :: int
  entry_Stream :: bool
  Response :: "json option"
  entry_Text :: bytes
  entry_Finish :: bytes

definition empty_idemEntry :: idemEntry where
  "empty_idemEntry = \<lparr>State = [], BodyHash = [], Stored = 0, entry_Status = 0, entry_Stream = False,
     Response = None, entry_Text = [], entry_Finish = []\<rparr>"

text \<open>The JSON text of an entry; fields at their zero value are omitted from \<open>status\<close> on.\<close>

definition idem_json :: "idemEntry \<Rightarrow> json" where
  "idem_json e = JObj (
     [(''state'', JStr (State e)), (''body_hash'', JStr (BodyHash e)), (''stored_unix'', JNum (itoa (Stored e)))]
     @ (if entry_Status e = 0 then [] else [(''status'', JNum (itoa (entry_Status e)))])
     @ (if entry_Stream e then [(''stream'', JBool True)] else [])
     @ (case Response e of None \<Rightarrow> [] | Some j \<Rightarrow> [(''response'', j)])
     @ (if entry_Text e = [] then [] else [(''text'', JStr (entry_Text e))])
     @ (if entry_Finish e = [] then [] else [(''finish'', JStr (entry_Finish e))]))"

definition idem_field :: "bytes \<Rightarrow> json \<Rightarrow> idemEntry \<Rightarrow> idemEntry option" where
  "idem_field k v e =
     (if key_is ''state'' k then map_option (\<lambda>x. e\<lparr>State := x\<rparr>) (dec_string (State e) v)
      else if key_is ''body_hash'' k then map_option (\<lambda>x. e\<lparr>BodyHash := x\<rparr>) (dec_string (BodyHash e) v)
      else if key_is ''stored_unix'' k then map_option (\<lambda>x. e\<lparr>Stored := x\<rparr>) (dec_int (Stored e) v)
      else if key_is ''status'' k then map_option (\<lambda>x. e\<lparr>entry_Status := x\<rparr>) (dec_int (entry_Status e) v)
      else if key_is ''stream'' k then map_option (\<lambda>x. e\<lparr>entry_Stream := x\<rparr>) (dec_bool (entry_Stream e) v)
      else if key_is ''response'' k then map_option (\<lambda>x. e\<lparr>Response := x\<rparr>) (dec_raw (Response e) v)
      else if key_is ''text'' k then map_option (\<lambda>x. e\<lparr>entry_Text := x\<rparr>) (dec_string (entry_Text e) v)
      else if key_is ''finish'' k then map_option (\<lambda>x. e\<lparr>entry_Finish := x\<rparr>) (dec_string (entry_Finish e) v)
      else Some e)"

definition idem_unmarshal :: "bytes \<Rightarrow> idemEntry option" where
  "idem_unmarshal b = Option.bind (json_parse b) (dec_struct idem_field empty_idemEntry)"

section \<open>The store\<close>

datatype idem_error = errIdemConflict | errIdemMismatch | errIdemFull | errIdemWrite

record idemStore =
  idem_dir :: dir
  idem_ttl :: duration
  idem_limit :: int64
  idem_used :: int64
  idem_count :: int

definition NewIdemStore :: "instant \<Rightarrow> dir \<Rightarrow> duration \<Rightarrow> int64 \<Rightarrow> idemStore" where
  "NewIdemStore now d ttl limit =
     (let (d, used, count) = recover ttl now d
      in \<lparr>idem_dir = d, idem_ttl = ttl, idem_limit = limit, idem_used = used, idem_count = count\<rparr>)"

definition idemSweepPerPass :: nat where
  "idemSweepPerPass = 2000"

text \<open>\<open>Sweep\<close>: the scan, and one removal at a time.\<close>

definition idem_scan :: "instant \<Rightarrow> idemStore \<Rightarrow> (bytes \<times> int64) list" where
  "idem_scan now s = sweep_scan idemSweepPerPass (idem_ttl s) now (idem_dir s)"

definition idem_sweep_one :: "bytes \<times> int64 \<Rightarrow> idemStore \<Rightarrow> idemStore" where
  "idem_sweep_one v s =
     (let (d, used, count) = sweep_remove v (idem_dir s, idem_used s, idem_count s)
      in s\<lparr>idem_dir := d, idem_used := used, idem_count := count\<rparr>)"

definition idem_Sweep :: "instant \<Rightarrow> idemStore \<Rightarrow> idemStore" where
  "idem_Sweep now s = fold idem_sweep_one (idem_scan now s) s"

type_synonym hash = "bytes \<Rightarrow> bytes"

definition idem_path :: "hash \<Rightarrow> bytes \<Rightarrow> bytes" where
  "idem_path sha key = hex_encode (sha key) @ ''.json''"

definition hashBody :: "hash \<Rightarrow> bytes \<Rightarrow> bytes" where
  "hashBody sha b = hex_encode (sha b)"

definition idem_read :: "hash \<Rightarrow> instant \<Rightarrow> bytes \<Rightarrow> idemStore \<Rightarrow> idemEntry option" where
  "idem_read sha now key s =
     (case map_of (idem_dir s) (idem_path sha key) of
        None \<Rightarrow> None
      | Some f \<Rightarrow>
          (case idem_unmarshal (content f) of
             None \<Rightarrow> None
           | Some e \<Rightarrow> if time_sub now (from_unix (Stored e)) > idem_ttl s then None else Some e))"

definition idem_write ::
  "hash \<Rightarrow> write_fate \<Rightarrow> instant \<Rightarrow> bytes \<Rightarrow> idemEntry \<Rightarrow> idemStore \<times> counters \<Rightarrow>
   idem_error option \<times> idemStore \<times> counters" where
  "idem_write sha w now key e sm =
     (let (s, m) = sm;
          b = json_print (idem_json e);
          stat = map_of (idem_dir s) (idem_path sha key);
          existing = (case stat of None \<Rightarrow> 0 | Some f \<Rightarrow> size_of f)
      in if stat = None \<and> idem_used s + int (length b) > idem_limit s
         then (Some errIdemFull, s, Add IdemFull 1 m)
         else
           (let (ok, d) = WriteFile w now (idem_path sha key) b (idem_dir s)
            in if \<not> ok then (Some errIdemWrite, s\<lparr>idem_dir := d\<rparr>, Add DiskErrors 1 m)
               else
                 (None,
                  s\<lparr>idem_dir := d,
                    idem_count := (if existing = 0 then idem_count s + 1 else idem_count s),
                    idem_used := idem_used s + (int (length b) - existing)\<rparr>,
                  m)))"

definition idem_begin ::
  "hash \<Rightarrow> write_fate \<Rightarrow> instant \<Rightarrow> bytes \<Rightarrow> bytes \<Rightarrow> idemStore \<times> counters \<Rightarrow>
   (idem_error + idemEntry option) \<times> idemStore \<times> counters" where
  "idem_begin sha w now key body sm =
     (let (s, m) = sm in
      case idem_read sha now key s of
        Some e \<Rightarrow>
          if BodyHash e \<noteq> hashBody sha body then (Inl errIdemMismatch, s, Add IdempotentConflict 1 m)
          else if State e = idemDone then (Inr (Some e), s, Add IdempotentReplay 1 m)
          else if State e = idemUnknown then (Inl errIdemConflict, s, Add IdempotentUnknown 1 m)
          else (Inl errIdemConflict, s, Add IdempotentConflict 1 m)
      | None \<Rightarrow>
          (let (err, s, m) = idem_write sha w now key
                 (empty_idemEntry\<lparr>State := idemRunning, BodyHash := hashBody sha body, Stored := unix now\<rparr>) (s, m)
           in (case err of None \<Rightarrow> Inr None | Some e \<Rightarrow> Inl e, s, m)))"

definition idem_finish ::
  "hash \<Rightarrow> write_fate \<Rightarrow> instant \<Rightarrow> bytes \<Rightarrow> idemEntry \<Rightarrow> idemStore \<times> counters \<Rightarrow> idemStore \<times> counters" where
  "idem_finish sha w now key e sm = snd (idem_write sha w now key e sm)"

definition idem_release :: "hash \<Rightarrow> bytes \<Rightarrow> idemStore \<Rightarrow> idemStore" where
  "idem_release sha key s =
     (let s = (case map_of (idem_dir s) (idem_path sha key) of
                 Some f \<Rightarrow> s\<lparr>idem_used := idem_used s - size_of f, idem_count := idem_count s - 1\<rparr>
               | None \<Rightarrow> s)
      in s\<lparr>idem_dir := dir_remove (idem_path sha key) (idem_dir s)\<rparr>)"

section \<open>Lemmas: entries\<close>

definition entry_ok :: "idemEntry \<Rightarrow> bool" where
  "entry_ok e \<longleftrightarrow> utf8_valid (State e) \<and> utf8_valid (BodyHash e) \<and> utf8_valid (entry_Text e) \<and> utf8_valid (entry_Finish e)
     \<and> int64_ok (Stored e) \<and> int64_ok (entry_Status e)
     \<and> (\<forall>j. Response e = Some j \<longrightarrow> json_ok j \<and> json_depth j < max_nesting)"

lemma plain_idem [simp]:
  "plain_name ''state''" "plain_name ''body_hash''" "plain_name ''stored_unix''" "plain_name ''status''"
  "plain_name ''stream''" "plain_name ''response''" "plain_name ''text''" "plain_name ''finish''"
  by (simp_all add: plain_name_def is_upper_def)

lemma idem_json_ok: "entry_ok e \<Longrightarrow> json_ok (idem_json e)"
  by (auto simp: entry_ok_def idem_json_def valid_itoa split: if_splits option.splits)

lemma idem_json_depth:
  assumes "entry_ok e"
  shows "json_depth (idem_json e) \<le> max_nesting"
proof -
  have "1 \<le> max_nesting" by (simp add: max_nesting_def)
  with assms show ?thesis
    unfolding idem_json_def by (cases "Response e") (auto simp: entry_ok_def Suc_le_eq)
qed

lemma dec_fields_append:
  "dec_fields f a (kvs @ kvs') = Option.bind (dec_fields f a kvs) (\<lambda>b. dec_fields f b kvs')"
  by (induction f a kvs rule: dec_fields.induct) (auto split: option.splits)

lemma idem_decodes:
  assumes "int64_ok (Stored e)" "int64_ok (entry_Status e)"
  shows "dec_struct idem_field empty_idemEntry (idem_json e) = Some e"
  using assms by (cases e; cases "Response e")
    (simp_all add: idem_json_def dec_struct_def dec_fields_append idem_field_def key_is_plain
      dec_int_itoa dec_bool_def dec_raw_def empty_idemEntry_def)

lemma idem_roundtrip:
  assumes "entry_ok e"
  shows "idem_unmarshal (json_print (idem_json e)) = Some e"
proof -
  have "json_parse (json_print (idem_json e)) = Some (idem_json e)"
    using json_parse_print idem_json_ok idem_json_depth assms by blast
  then show ?thesis using idem_decodes assms unfolding idem_unmarshal_def entry_ok_def by simp
qed

section \<open>Lemmas: the accounts\<close>

definition idem_state :: "idemStore \<Rightarrow> dir \<times> int64 \<times> int" where
  "idem_state s = (idem_dir s, idem_used s, idem_count s)"

definition idem_exact :: "idemStore \<Rightarrow> bool" where
  "idem_exact s \<longleftrightarrow> accounts (idem_dir s) (idem_used s) (idem_count s)"

lemma idem_sweep_one_state: "idem_state (idem_sweep_one v s) = sweep_remove v (idem_state s)"
  by (simp add: idem_sweep_one_def idem_state_def split: prod.splits)

lemma idem_Sweep_state: "idem_state (idem_Sweep now s) = sweep idemSweepPerPass (idem_ttl s) now (idem_state s)"
proof -
  have "idem_state (fold idem_sweep_one vs t) = fold sweep_remove vs (idem_state t)" for vs t
    by (induction vs arbitrary: t) (simp_all add: idem_sweep_one_state)
  then show ?thesis by (simp add: idem_Sweep_def idem_scan_def sweep_def idem_state_def)
qed

lemma idem_Sweep_ttl: "idem_ttl (idem_Sweep now s) = idem_ttl s"
proof -
  have "idem_ttl (fold idem_sweep_one vs t) = idem_ttl t" for vs t
    by (induction vs arbitrary: t) (simp_all add: idem_sweep_one_def split: prod.splits)
  then show ?thesis by (simp add: idem_Sweep_def)
qed

interpretation idem: swept_store idem_Sweep idem_state idem_ttl idemSweepPerPass
  by unfold_locales (simp_all add: idemSweepPerPass_def idem_Sweep_state idem_Sweep_ttl)

lemma idem_exact_iff: "idem.exact s \<longleftrightarrow> idem_exact s"
  by (simp add: idem.exact_def idem_state_def idem_exact_def)

lemma idem_files: "idem.files s = idem_dir s"
  by (simp add: idem.files_def idem_state_def)

text \<open>The three ends of a write.\<close>

lemma idem_write_cases:
  fixes sha key e s
  defines "b \<equiv> json_print (idem_json e)" and "p \<equiv> idem_path sha key"
  obtains (full) "idem_write sha w now key e (s, m) = (Some errIdemFull, s, Add IdemFull 1 m)"
      "map_of (idem_dir s) p = None" "idem_used s + int (length b) > idem_limit s"
  | (failed) d where "idem_write sha w now key e (s, m) = (Some errIdemWrite, s\<lparr>idem_dir := d\<rparr>, Add DiskErrors 1 m)"
      "w \<noteq> Wrote" "WriteFile w now p b (idem_dir s) = (False, d)"
  | (wrote) "idem_write sha w now key e (s, m) =
        (None, s\<lparr>idem_dir := dir_put p \<lparr>content = b, mtime = now\<rparr> (idem_dir s),
                 idem_count := (if stored_size p (idem_dir s) = 0 then idem_count s + 1 else idem_count s),
                 idem_used := idem_used s + (int (length b) - stored_size p (idem_dir s))\<rparr>, m)"
      "w = Wrote" "map_of (idem_dir s) p \<noteq> None \<or> idem_used s + int (length b) \<le> idem_limit s"
proof -
  consider (a) "map_of (idem_dir s) p = None \<and> idem_used s + int (length b) > idem_limit s"
    | (b) "\<not> (map_of (idem_dir s) p = None \<and> idem_used s + int (length b) > idem_limit s)" "w \<noteq> Wrote"
    | (c) "\<not> (map_of (idem_dir s) p = None \<and> idem_used s + int (length b) > idem_limit s)" "w = Wrote" by blast
  then show thesis
  proof cases
    case a
    then show thesis using full by (simp add: idem_write_def b_def p_def)
  next
    case b
    obtain d where "WriteFile w now p b (idem_dir s) = (False, d)"
      using b(2) by (cases w) (auto simp: WriteFile_def)
    then show thesis using failed b unfolding b_def p_def by (simp add: idem_write_def Let_def)
  next
    case c
    then show thesis
      by (intro wrote) (auto simp: idem_write_def b_def p_def WriteFile_def stored_size_def Let_def)
  qed
qed

lemma print_nonempty: "json_print (idem_json e) \<noteq> []"
  by (simp add: idem_json_def)

lemma idem_write_exact [store_inv]:
  assumes "idem_exact s" "\<forall>k. w \<noteq> Partial k"
  shows "idem_exact (fst (snd (idem_write sha w now key e (s, m))))"
proof (cases rule: idem_write_cases [of sha w now key e s m])
  case (failed d)
  then show ?thesis using assms by (cases w) (auto simp: idem_exact_def WriteFile_def)
next
  case wrote
  then show ?thesis
    using assms(1) accounts_put [of "idem_dir s" "idem_used s" "idem_count s"
        "\<lparr>content = json_print (idem_json e), mtime = now\<rparr>" "idem_path sha key"] print_nonempty
    by (simp add: idem_exact_def size_of_def)
qed (use assms in simp)

lemma idem_release_exact [store_inv]: "idem_exact s \<Longrightarrow> idem_exact (idem_release sha key s)"
  using accounts_remove [of "idem_dir s" "idem_used s" "idem_count s" "idem_path sha key"]
  by (auto simp: idem_exact_def idem_release_def Let_def dir_remove_absent map_of_eq_None_iff split: option.splits)

lemma idem_begin_alt:
  "idem_begin sha w now key body (s, m) =
     (case idem_read sha now key s of
        Some e \<Rightarrow>
          (if BodyHash e \<noteq> hashBody sha body then Inl errIdemMismatch
           else if State e = idemDone then Inr (Some e) else Inl errIdemConflict, s,
           Add (if BodyHash e \<noteq> hashBody sha body then IdempotentConflict
                else if State e = idemDone then IdempotentReplay
                else if State e = idemUnknown then IdempotentUnknown else IdempotentConflict) 1 m)
      | None \<Rightarrow>
          let (err, s', m') = idem_write sha w now key
                (empty_idemEntry\<lparr>State := idemRunning, BodyHash := hashBody sha body, Stored := unix now\<rparr>) (s, m)
          in (case err of None \<Rightarrow> Inr None | Some e \<Rightarrow> Inl e, s', m'))"
  by (simp add: idem_begin_def idemDone_def idemUnknown_def split: option.splits)

lemma idem_begin_exact [store_inv]:
  assumes "idem_exact s" "\<forall>k. w \<noteq> Partial k"
  shows "idem_exact (fst (snd (idem_begin sha w now key body (s, m))))"
proof (cases "idem_read sha now key s")
  case None
  then show ?thesis
    using idem_write_exact [OF assms, of sha now key "empty_idemEntry\<lparr>State := idemRunning, BodyHash := hashBody sha body, Stored := unix now\<rparr>" m]
    by (simp add: idem_begin_alt Let_def case_prod_unfold)
qed (use assms in \<open>simp add: idem_begin_alt\<close>)

section \<open>Lemmas: claims\<close>

text \<open>
  What the handler relies on. A \<open>claim\<close> is granted when it returns \<open>Inr None\<close>; the
  holder then calls \<open>finish\<close> or \<open>release\<close>. Calls of different requests interleave in
  any order. \<open>slot\<close> is where a key is kept: keys whose digests collide share a slot.
\<close>

datatype ('i, 'k, 'b, 'r) claim_call = Claim 'i 'k 'b | Finish 'i 'k 'r | Release 'k | SweepAt 'i

locale claims =
  fixes claim :: "'i \<Rightarrow> 'k \<Rightarrow> 'b \<Rightarrow> 's \<Rightarrow> ('e + 'r option) \<times> 's"
    and finish :: "'i \<Rightarrow> 'k \<Rightarrow> 'r \<Rightarrow> 's \<Rightarrow> 's"
    and release :: "'k \<Rightarrow> 's \<Rightarrow> 's"
    and sweep_at :: "'i \<Rightarrow> 's \<Rightarrow> 's"
    and slot :: "'k \<Rightarrow> 'n"
    and live :: "'s \<Rightarrow> 'n \<Rightarrow> bool"
    and sound :: "'s \<Rightarrow> bool"
    and usable :: "'i \<Rightarrow> bool"
  assumes sound_keeps: "sound s \<Longrightarrow> usable i \<Longrightarrow> sound (snd (claim i k b s))"
      "sound s \<Longrightarrow> usable i \<Longrightarrow> sound (finish i k r s)" "sound s \<Longrightarrow> sound (release k s)"
      "sound s \<Longrightarrow> usable i \<Longrightarrow> sound (sweep_at i s)"
    and claim_granted: "sound s \<Longrightarrow> usable i \<Longrightarrow> fst (claim i k b s) = Inr None \<Longrightarrow>
      \<not> live s (slot k) \<and> live (snd (claim i k b s)) (slot k)"
    and live_keeps: "sound s \<Longrightarrow> usable i \<Longrightarrow> live s n \<Longrightarrow> live (snd (claim i k b s)) n"
      "sound s \<Longrightarrow> usable i \<Longrightarrow> live s n \<Longrightarrow> n \<noteq> slot k \<Longrightarrow> live (finish i k r s) n"
      "sound s \<Longrightarrow> live s n \<Longrightarrow> n \<noteq> slot k \<Longrightarrow> live (release k s) n"
      "sound s \<Longrightarrow> usable i \<Longrightarrow> live s n \<Longrightarrow> live (sweep_at i s) n"
begin

text \<open>The slots held after a call: only a holder finishes or releases.\<close>

fun held_step :: "('i, 'k, 'b, 'r) claim_call \<Rightarrow> 's \<times> 'n list \<Rightarrow> 's \<times> 'n list" where
  "held_step (Claim i k b) (s, hs) =
     (snd (claim i k b s), if fst (claim i k b s) = Inr None then slot k # hs else hs)"
| "held_step (Finish i k r) (s, hs) =
     (if slot k \<in> set hs then (finish i k r s, removeAll (slot k) hs) else (s, hs))"
| "held_step (Release k) (s, hs) =
     (if slot k \<in> set hs then (release k s, removeAll (slot k) hs) else (s, hs))"
| "held_step (SweepAt i) (s, hs) = (sweep_at i s, hs)"

fun call_usable :: "('i, 'k, 'b, 'r) claim_call \<Rightarrow> bool" where
  "call_usable (Claim i k b) = usable i"
| "call_usable (Finish i k r) = usable i"
| "call_usable (Release k) = True"
| "call_usable (SweepAt i) = usable i"

definition held_inv :: "'s \<times> 'n list \<Rightarrow> bool" where
  "held_inv st \<longleftrightarrow> sound (fst st) \<and> distinct (snd st) \<and> (\<forall>n \<in> set (snd st). live (fst st) n)"

lemma held_step_inv: "call_usable c \<Longrightarrow> held_inv st \<Longrightarrow> held_inv (held_step c st)"
proof (cases st)
  case (Pair s hs)
  assume "call_usable c" "held_inv st"
  then show ?thesis
    using Pair by (cases c) (auto simp: held_inv_def sound_keeps live_keeps claim_granted distinct_removeAll)
qed

lemma exclusive: "list_all call_usable cs \<Longrightarrow> held_inv st \<Longrightarrow> held_inv (fold held_step cs st)"
  by (induction cs arbitrary: st) (simp_all add: held_step_inv)

lemma held_refused:
  "held_inv (s, hs) \<Longrightarrow> usable i \<Longrightarrow> slot k \<in> set hs \<Longrightarrow> fst (claim i k b s) \<noteq> Inr None"
  using claim_granted by (auto simp: held_inv_def)

end

subsection \<open>The store grants claims\<close>

text \<open>
  Within a window of one time to live from the second \<open>start\<close>, and with writes that
  succeed or fail cleanly, an entry written in the window stays readable.
\<close>

definition idem_usable :: "int64 \<Rightarrow> duration \<Rightarrow> write_fate \<times> instant \<Rightarrow> bool" where
  "idem_usable start ttl i \<longleftrightarrow>
     (case i of (w, now) \<Rightarrow> (\<forall>k. w \<noteq> Partial k) \<and> 0 \<le> start \<and> from_unix start \<le> now \<and> now \<le> from_unix start + ttl
        \<and> unix now \<le> max_int64)"

definition idem_sound :: "duration \<Rightarrow> idemStore \<Rightarrow> bool" where
  "idem_sound ttl s \<longleftrightarrow> idem_exact s \<and> idem_ttl s = ttl \<and> 0 \<le> ttl \<and> ttl < max_int64"

definition idem_live :: "int64 \<Rightarrow> idemStore \<Rightarrow> bytes \<Rightarrow> bool" where
  "idem_live start s n \<longleftrightarrow>
     (\<exists>f e. map_of (idem_dir s) n = Some f \<and> from_unix start \<le> mtime f \<and>
        idem_unmarshal (content f) = Some e \<and> start \<le> Stored e)"

definition running_entry :: "hash \<Rightarrow> instant \<Rightarrow> bytes \<Rightarrow> idemEntry" where
  "running_entry sha now body = empty_idemEntry\<lparr>State := idemRunning, BodyHash := hashBody sha body, Stored := unix now\<rparr>"

lemma hex_encode_ascii: "ascii (hex_encode b)"
proof -
  have "byte_nat (hex_nibble n) < 128" if "n < 16" for n using that by (auto simp: hex_nibble_def)
  then have "byte_nat (hex_nibble (byte_nat c div 16)) < 128 \<and> byte_nat (hex_nibble (byte_nat c mod 16)) < 128" for c
    using byte_parts(2) [of c] by simp
  then show ?thesis by (auto simp: hex_encode_def ascii_def list_all_iff)
qed

lemma running_entry_ok: "0 \<le> unix now \<Longrightarrow> unix now \<le> max_int64 \<Longrightarrow> entry_ok (running_entry sha now body)"
  by (simp add: entry_ok_def running_entry_def empty_idemEntry_def idemRunning_def hashBody_def
      ascii_utf8_valid hex_encode_ascii int64_ok_def min_int64_def max_int64_def)

lemma start_le_unix: "from_unix start \<le> now \<Longrightarrow> start \<le> unix now"
  by (simp add: from_unix_def unix_def second_def)

lemma idem_read_live:
  assumes "idem_live start s (idem_path sha key)" "idem_sound ttl s" "idem_usable start ttl (w, now)"
  shows "idem_read sha now key s \<noteq> None"
proof -
  obtain f e where f: "map_of (idem_dir s) (idem_path sha key) = Some f" "idem_unmarshal (content f) = Some e" "start \<le> Stored e"
    using assms(1) by (auto simp: idem_live_def)
  have "from_unix start \<le> from_unix (Stored e)" using f(3) by (simp add: from_unix_def second_def)
  then have "\<not> ttl < time_sub now (from_unix (Stored e))"
    using assms(2,3) by (auto simp: idem_sound_def idem_usable_def time_sub_gt_iff min_int64_def max_int64_def)
  then show ?thesis using f assms(2) by (simp add: idem_read_def idem_sound_def)
qed

lemma idem_write_other:
  assumes "n \<noteq> idem_path sha key"
  shows "map_of (idem_dir (fst (snd (idem_write sha w now key e (s, m))))) n = map_of (idem_dir s) n"
proof (cases rule: idem_write_cases [of sha w now key e s m])
  case (failed d)
  then show ?thesis using assms by (cases w) (auto simp: WriteFile_def dir_put_lookup)
qed (use assms in \<open>simp_all add: dir_put_lookup\<close>)

lemma idem_write_frame:
  "idem_ttl (fst (snd (idem_write sha w now key e (s, m)))) = idem_ttl s"
  "idem_limit (fst (snd (idem_write sha w now key e (s, m)))) = idem_limit s"
  by (cases rule: idem_write_cases [of sha w now key e s m]; simp)+

lemma idem_write_sound:
  "idem_sound ttl s \<Longrightarrow> \<forall>k. w \<noteq> Partial k \<Longrightarrow> idem_sound ttl (fst (snd (idem_write sha w now key e (s, m))))"
  by (simp add: idem_sound_def idem_write_exact idem_write_frame)

text \<open>A claim either answers from a stored entry and changes nothing, or is a write of a running entry.\<close>

lemma idem_begin_read:
  "idem_read sha now key s = Some e \<Longrightarrow>
   fst (idem_begin sha w now key body (s, m)) \<noteq> Inr None \<and> fst (snd (idem_begin sha w now key body (s, m))) = s"
  by (simp add: idem_begin_alt)

lemma idem_begin_fresh:
  "idem_read sha now key s = None \<Longrightarrow>
   (fst (idem_begin sha w now key body (s, m)) = Inr None \<longleftrightarrow>
      fst (idem_write sha w now key (running_entry sha now body) (s, m)) = None) \<and>
   snd (idem_begin sha w now key body (s, m)) = snd (idem_write sha w now key (running_entry sha now body) (s, m))"
  by (simp add: idem_begin_alt Let_def case_prod_unfold running_entry_def split: option.splits)

lemma idem_write_stored:
  assumes "fst (idem_write sha w now key e (s, m)) = None"
  shows "map_of (idem_dir (fst (snd (idem_write sha w now key e (s, m))))) (idem_path sha key) =
    Some \<lparr>content = json_print (idem_json e), mtime = now\<rparr>"
  by (cases rule: idem_write_cases [of sha w now key e s m]) (use assms in \<open>simp_all add: dir_put_lookup\<close>)

lemma idem_live_write:
  assumes "fst (idem_write sha w now key (running_entry sha now body) (s, m)) = None" "idem_usable start ttl (w, now)"
  shows "idem_live start (fst (snd (idem_write sha w now key (running_entry sha now body) (s, m)))) (idem_path sha key)"
proof -
  have "start \<le> unix now" "0 \<le> unix now" "unix now \<le> max_int64" "from_unix start \<le> now"
    using assms(2) start_le_unix [of start now] by (auto simp: idem_usable_def)
  then show ?thesis
    using idem_write_stored [OF assms(1)] idem_roundtrip [OF running_entry_ok, of now sha body]
    by (auto simp: idem_live_def running_entry_def)
qed

lemma idem_release_other:
  "map_of (idem_dir (idem_release sha key s)) n = (if n = idem_path sha key then None else map_of (idem_dir s) n)"
  by (auto simp: idem_release_def Let_def dir_remove_lookup split: option.splits)

lemma idem_release_sound: "idem_sound ttl s \<Longrightarrow> idem_sound ttl (idem_release sha key s)"
  using idem_release_exact [of s sha key]
  by (auto simp: idem_sound_def idem_release_def Let_def split: option.splits)

lemma idem_sweep_live:
  assumes "idem_sound ttl s" "idem_usable start ttl (w, now)" "idem_live start s n"
  shows "idem_live start (idem_Sweep now s) n"
proof -
  obtain f e where f: "map_of (idem_dir s) n = Some f" "from_unix start \<le> mtime f"
      "idem_unmarshal (content f) = Some e" "start \<le> Stored e"
    using assms(3) by (auto simp: idem_live_def)
  have exact: "idem.exact s" using assms(1) by (simp add: idem_exact_iff idem_sound_def)
  have "\<not> expired_file ttl now f"
    using f(2) assms(1,2) by (auto simp: expired_file_def idem_usable_def idem_sound_def time_sub_le_iff min_int64_def)
  moreover have "(n, f) \<in> set (idem_dir s)" using f(1) by (rule map_of_SomeD)
  ultimately have "(n, f) \<in> set (live_files (idem_ttl s) now (idem_dir s))"
    using assms(1) by (simp add: live_files_def idem_sound_def)
  then have "(n, f) \<in> set (live_files (idem_ttl s) now (idem_dir (idem_Sweep now s)))"
    using idem.sweep_live [OF exact, of now] by (simp only: idem_files)
  then have "(n, f) \<in> set (idem_dir (idem_Sweep now s))" by (simp add: live_files_def)
  moreover have "distinct (map fst (idem_dir (idem_Sweep now s)))"
    using idem.sweep_exact [OF exact, of now] by (simp add: idem_exact_iff idem_exact_def accounts_def dir_ok_def)
  ultimately show ?thesis using f by (auto simp: idem_live_def)
qed

lemma idem_sweep_sound: "idem_sound ttl s \<Longrightarrow> idem_sound ttl (idem_Sweep now s)"
  using idem.sweep_exact [of s now] by (simp add: idem_sound_def idem_exact_iff idem_Sweep_ttl)

interpretation idem_claims: claims
  "\<lambda>(w, now) key body sm. idem_begin sha w now key body sm" "\<lambda>(w, now) key e sm. idem_finish sha w now key e sm"
  "\<lambda>key (s, m). (idem_release sha key s, m)" "\<lambda>(w, now) (s, m). (idem_Sweep now s, m)"
  "idem_path sha" "\<lambda>(s, m). idem_live start s" "\<lambda>(s, m). idem_sound ttl s" "idem_usable start ttl"
  for sha start ttl
proof (unfold_locales, goal_cases)
  case (1 sm i k b)
  obtain s m w now where [simp]: "sm = (s, m)" "i = (w, now)" by (cases sm, cases i)
  show ?case
    using 1 idem_begin_read [of sha now k s _ w b m] idem_begin_fresh [of sha now k s w b m] idem_write_sound
    by (cases "idem_read sha now k s") (auto simp: case_prod_unfold idem_usable_def)
next
  case (2 sm i k r)
  then show ?case by (cases sm, cases i) (auto simp: idem_finish_def case_prod_unfold idem_usable_def idem_write_sound)
next
  case (3 sm k)
  then show ?case by (auto simp: idem_release_sound)
next
  case (4 sm i)
  then show ?case by (cases i) (auto simp: idem_sweep_sound)
next
  case (5 sm i k b)
  obtain s m w now where [simp]: "sm = (s, m)" "i = (w, now)" by (cases sm, cases i)
  have "idem_read sha now k s = None" using 5(3) idem_begin_read [of sha now k s _ w b m] by fastforce
  then show ?case
    using 5 idem_begin_fresh [of sha now k s w b m] idem_live_write [of sha w now k b s m start ttl]
      idem_read_live [of start s sha k ttl w now] by (auto simp: case_prod_unfold)
next
  case (6 sm i n k b)
  obtain s m w now where [simp]: "sm = (s, m)" "i = (w, now)" by (cases sm, cases i)
  show ?case
  proof (cases "idem_read sha now k s")
    case None
    then have "n \<noteq> idem_path sha k" using 6 idem_read_live [of start s sha k ttl w now] by auto
    then show ?thesis
      using 6 None idem_begin_fresh [of sha now k s w b m] idem_write_other [of n sha k]
      by (auto simp: case_prod_unfold idem_live_def)
  next
    case (Some e)
    then show ?thesis using 6 idem_begin_read [of sha now k s e w b m] by (auto simp: case_prod_unfold)
  qed
next
  case (7 sm i n k r)
  then show ?case
    by (cases sm, cases i) (auto simp: idem_finish_def case_prod_unfold idem_live_def idem_write_other)
next
  case (8 sm n k)
  then show ?case by (auto simp: idem_live_def idem_release_other)
next
  case (9 sm i n)
  then show ?case by (cases i) (auto simp: idem_sweep_live)
qed

subsection \<open>Histories\<close>

text \<open>A history of calls on the store, with the slots that are held after each call.\<close>

type_synonym idem_call = "(write_fate \<times> instant, bytes, bytes, idemEntry) claim_call"

fun idem_call_step :: "hash \<Rightarrow> idem_call \<Rightarrow> (idemStore \<times> counters) \<times> bytes list \<Rightarrow> (idemStore \<times> counters) \<times> bytes list" where
  "idem_call_step sha (Claim i key body) (sm, hs) =
     (let (r, sm') = idem_begin sha (fst i) (snd i) key body sm
      in (sm', if r = Inr None then idem_path sha key # hs else hs))"
| "idem_call_step sha (Finish i key e) (sm, hs) =
     (if idem_path sha key \<in> set hs
      then (idem_finish sha (fst i) (snd i) key e sm, removeAll (idem_path sha key) hs) else (sm, hs))"
| "idem_call_step sha (Release key) (sm, hs) =
     (if idem_path sha key \<in> set hs
      then ((idem_release sha key (fst sm), snd sm), removeAll (idem_path sha key) hs) else (sm, hs))"
| "idem_call_step sha (SweepAt i) (sm, hs) = ((idem_Sweep (snd i) (fst sm), snd sm), hs)"

fun idem_call_in :: "int64 \<Rightarrow> duration \<Rightarrow> idem_call \<Rightarrow> bool" where
  "idem_call_in start ttl (Claim i key body) = idem_usable start ttl i"
| "idem_call_in start ttl (Finish i key e) = idem_usable start ttl i"
| "idem_call_in start ttl (Release key) = True"
| "idem_call_in start ttl (SweepAt i) = idem_usable start ttl i"

lemma idem_call_step_eq: "idem_call_step sha c st = idem_claims.held_step sha c st"
  by (cases c; cases st) (auto split: prod.splits)

lemma idem_call_in_eq: "idem_call_in start ttl c = idem_claims.call_usable start ttl c"
  by (cases c) auto

lemma idem_history_held:
  assumes "idem_sound ttl s" "list_all (idem_call_in start ttl) cs"
  shows "idem_claims.held_inv start ttl (fold (idem_call_step sha) cs ((s, m), []))"
proof -
  have "idem_call_step sha = idem_claims.held_step sha" by (intro ext) (rule idem_call_step_eq)
  moreover have "idem_call_in start ttl = idem_claims.call_usable start ttl" by (intro ext) (rule idem_call_in_eq)
  moreover have "idem_claims.held_inv start ttl ((s, m), [])" using assms(1) by (simp add: idem_claims.held_inv_def)
  ultimately show ?thesis using assms(2) idem_claims.exclusive by metis
qed

section \<open>Lemmas: outcomes\<close>

lemma NewIdemStore_exact: "dir_ok d \<Longrightarrow> no_empty d \<Longrightarrow> idem_exact (NewIdemStore now d ttl limit)"
  using recover_accounts [of d ttl now] by (auto simp: NewIdemStore_def idem_exact_def split: prod.splits)

text \<open>What a stored entry answers a later claim, while it lives.\<close>

lemma idem_read_written:
  assumes "entry_ok e" "idem_dir s = d" "map_of d (idem_path sha key) = Some \<lparr>content = json_print (idem_json e), mtime = t\<rparr>"
    and "time_sub now (from_unix (Stored e)) \<le> idem_ttl s"
  shows "idem_read sha now key s = Some e"
  using assms by (simp add: idem_read_def idem_roundtrip)

lemma idem_finish_read:
  assumes "entry_ok e" "idem_finish sha Wrote t key e (s, m) = (s', m')" "idem_exact s"
    and "map_of (idem_dir s) (idem_path sha key) \<noteq> None" "time_sub now (from_unix (Stored e)) \<le> idem_ttl s"
  shows "idem_read sha now key s' = Some e"
proof (cases rule: idem_write_cases [of sha Wrote t key e s m])
  case wrote
  then show ?thesis
    using assms by (intro idem_read_written) (auto simp: idem_finish_def dir_put_lookup)
qed (use assms(4) in simp_all)

lemma idem_begin_answers:
  assumes "idem_read sha now key s = Some e"
  shows "hashBody sha body \<noteq> BodyHash e \<Longrightarrow> fst (idem_begin sha w now key body (s, m)) = Inl errIdemMismatch"
    and "hashBody sha body = BodyHash e \<Longrightarrow> State e = idemDone \<Longrightarrow> fst (idem_begin sha w now key body (s, m)) = Inr (Some e)"
    and "hashBody sha body = BodyHash e \<Longrightarrow> State e \<noteq> idemDone \<Longrightarrow> fst (idem_begin sha w now key body (s, m)) = Inl errIdemConflict"
  using assms by (simp_all add: idem_begin_alt)

text \<open>
  The window between the scan of a sweep and its removals. A key whose entry has expired
  is claimed again after the scan; the removal then takes the new claim away, and the key
  is granted a second time while the first holder is still running.
\<close>

lemma sweep_race:
  assumes "v \<in> set (idem_scan now s)" "fst v = idem_path sha key"
    and "idem_begin sha Wrote t1 key body (s, m) = (Inr None, s1, m1)"
    and "idem_used (idem_sweep_one v s1) + int (length (json_print (idem_json (running_entry sha t2 body2)))) \<le> idem_limit s1"
  shows "fst (idem_begin sha Wrote t2 key body2 (idem_sweep_one v s1, m1)) = Inr None"
proof -
  have fresh: "idem_read sha t1 key s = None"
    using assms(3) by (auto simp: idem_begin_alt split: option.splits if_splits)
  have "fst (idem_write sha Wrote t1 key (running_entry sha t1 body) (s, m)) = None"
    and s1: "s1 = fst (snd (idem_write sha Wrote t1 key (running_entry sha t1 body) (s, m)))"
    using idem_begin_fresh [OF fresh, of Wrote body m] assms(3) by (simp, metis fst_conv snd_conv)
  then have "map_of (idem_dir s1) (idem_path sha key) \<noteq> None" using idem_write_stored by simp
  then have gone: "map_of (idem_dir (idem_sweep_one v s1)) (idem_path sha key) = None"
    and lim: "idem_limit (idem_sweep_one v s1) = idem_limit s1"
    using assms(2) by (cases v, auto simp: idem_sweep_one_def dir_remove_lookup)+
  then have none: "idem_read sha t2 key (idem_sweep_one v s1) = None" by (simp add: idem_read_def)
  have "fst (idem_write sha Wrote t2 key (running_entry sha t2 body2) (idem_sweep_one v s1, m1)) = None"
    by (cases rule: idem_write_cases [of sha Wrote t2 key "running_entry sha t2 body2" "idem_sweep_one v s1" m1])
      (use assms(4) lim in simp_all)
  then show ?thesis using idem_begin_fresh [OF none] by simp
qed

end
