(* ===== verification/Capture.thy ===== *)
theory Capture
  imports Idempotency Config
begin

text \<open>
  The capture store (\<open>capture.go\<close>): one file per request with the prompt and the answer,
  refused whole when it does not fit. The same directory, accounts and sweep as the
  idempotency store, interpreted in the same locale. What was written is read back until its time is over.
\<close>

section \<open>Records\<close>

text \<open>A prompt is kept as its bytes: it is checked for being JSON only when it is written.\<close>

record captureRecord =
  RequestID :: bytes
  rec_TraceID :: bytes
  PolicyVersion :: int64
  rec_Provider :: bytes
  rec_Model :: bytes
  rec_Attempts :: int
  rec_Status :: int
  rec_Fault :: bytes
  rec_Stored :: int64
  Prompt :: "bytes option"
  Completion :: "json option"
  RawPrompt :: bytes
  PromptUnparseable :: bool
  rec_Text :: bytes

definition opt_field :: "bytes \<Rightarrow> bool \<Rightarrow> json \<Rightarrow> (bytes \<times> json) list" where
  "opt_field k zero v = (if zero then [] else [(k, v)])"

text \<open>
  \<open>json.Marshal\<close> of a record, with the field of the prompt as an argument; \<open>None\<close> where the prompt is not JSON.
  A prompt is written as the printer writes its document; Go keeps the spelling of its literals.
\<close>

definition capture_doc :: "captureRecord \<Rightarrow> (bytes \<times> json) list \<Rightarrow> json" where
  "capture_doc r p = JObj (
        [(''request_id'', JStr (RequestID r))]
        @ opt_field ''trace_id'' (rec_TraceID r = []) (JStr (rec_TraceID r))
        @ opt_field ''policy_version'' (PolicyVersion r = 0) (JNum (itoa (PolicyVersion r)))
        @ opt_field ''provider'' (rec_Provider r = []) (JStr (rec_Provider r))
        @ opt_field ''model'' (rec_Model r = []) (JStr (rec_Model r))
        @ [(''attempts'', JNum (itoa (rec_Attempts r))), (''status'', JNum (itoa (rec_Status r)))]
        @ opt_field ''fault'' (rec_Fault r = []) (JStr (rec_Fault r))
        @ [(''stored_unix'', JNum (itoa (rec_Stored r)))]
        @ p
        @ (case Completion r of None \<Rightarrow> [] | Some j \<Rightarrow> [(''completion'', j)])
        @ opt_field ''raw_prompt'' (RawPrompt r = []) (JStr (RawPrompt r))
        @ opt_field ''prompt_unparseable'' (\<not> PromptUnparseable r) (JBool True)
        @ opt_field ''text'' (rec_Text r = []) (JStr (rec_Text r)))"

definition capture_json :: "captureRecord \<Rightarrow> json option" where
  "capture_json r =
     (case Prompt r of
        None \<Rightarrow> Some (capture_doc r [])
      | Some p \<Rightarrow> if p = [] then Some (capture_doc r []) else map_option (\<lambda>j. capture_doc r [(''prompt'', j)]) (json_parse p))"

section \<open>The store\<close>

record captureStore =
  cap_dir :: dir
  cap_ttl :: duration
  cap_limit :: int64
  maxBytes :: int64
  cap_used :: int64
  cap_count :: int

definition NewCaptureStore :: "instant \<Rightarrow> dir \<Rightarrow> duration \<Rightarrow> int64 \<Rightarrow> captureStore" where
  "NewCaptureStore now d ttl limit =
     (let (d, used, count) = recover ttl now d
      in \<lparr>cap_dir = d, cap_ttl = ttl, cap_limit = limit, maxBytes = captureRecordLimit,
          cap_used = used, cap_count = count\<rparr>)"

definition capture_path :: "bytes \<Rightarrow> bytes" where
  "capture_path rid = rid @ ''.json''"

definition sweepPerPass :: nat where
  "sweepPerPass = 2000"

definition captureMaxRecords :: int where
  "captureMaxRecords = 50000"

definition capture_scan :: "instant \<Rightarrow> captureStore \<Rightarrow> (bytes \<times> int64) list" where
  "capture_scan now s = sweep_scan sweepPerPass (cap_ttl s) now (cap_dir s)"

definition capture_sweep_one :: "bytes \<times> int64 \<Rightarrow> captureStore \<Rightarrow> captureStore" where
  "capture_sweep_one v s =
     (let (d, used, count) = sweep_remove v (cap_dir s, cap_used s, cap_count s)
      in s\<lparr>cap_dir := d, cap_used := used, cap_count := count\<rparr>)"

definition capture_Sweep :: "instant \<Rightarrow> captureStore \<Rightarrow> captureStore" where
  "capture_Sweep now s = fold capture_sweep_one (capture_scan now s) s"

datatype capture_error = BadRequestID | NotMarshalled | errCaptureTooLarge | CaptureStoreFull | CaptureWriteFailed

text \<open>The record with a prompt that is not JSON moved to the raw field.\<close>

definition capture_prompt :: "captureRecord \<Rightarrow> captureRecord" where
  "capture_prompt r =
     (case Prompt r of
        Some p \<Rightarrow>
          if p \<noteq> [] \<and> json_parse p = None
          then r\<lparr>RawPrompt := p, PromptUnparseable := True, Prompt := None\<rparr> else r
      | None \<Rightarrow> r)"

definition capture_Write ::
  "write_fate \<Rightarrow> instant \<Rightarrow> captureRecord \<Rightarrow> captureStore \<times> counters \<Rightarrow> capture_error option \<times> captureStore \<times> counters" where
  "capture_Write w now r sm =
     (let (s, m) = sm in
      if \<not> requestID (RequestID r) then (Some BadRequestID, s, m)
      else
        case capture_json (capture_prompt r) of
          None \<Rightarrow> (Some NotMarshalled, s, Add DiskErrors 1 m)
        | Some j \<Rightarrow>
            (let b = json_print j in
             if int (length b) > maxBytes s then (Some errCaptureTooLarge, s, Add DiskErrors 1 m)
             else if cap_used s + int (length b) > cap_limit s \<or> cap_count s \<ge> captureMaxRecords
             then (Some CaptureStoreFull, s, Add CaptureFull 1 m)
             else
               (let p = capture_path (RequestID r);
                    existing = (case map_of (cap_dir s) p of None \<Rightarrow> 0 | Some f \<Rightarrow> size_of f);
                    (ok, d) = WriteFile w now p b (cap_dir s)
                in if \<not> ok then (Some CaptureWriteFailed, s\<lparr>cap_dir := d\<rparr>, Add DiskErrors 1 m)
                   else
                     (None,
                      s\<lparr>cap_dir := d,
                        cap_count := (if existing = 0 then cap_count s + 1 else cap_count s),
                        cap_used := cap_used s + (int (length b) - existing)\<rparr>,
                      m))))"

text \<open>
  \<open>Read\<close>. The raw text of a prompt in a file is its compact form: that is how \<open>Write\<close> stores it.
\<close>

definition empty_record :: captureRecord where
  "empty_record = \<lparr>RequestID = [], rec_TraceID = [], PolicyVersion = 0, rec_Provider = [], rec_Model = [], rec_Attempts = 0,
     rec_Status = 0, rec_Fault = [], rec_Stored = 0, Prompt = None, Completion = None, RawPrompt = [],
     PromptUnparseable = False, rec_Text = []\<rparr>"

definition capture_field :: "bytes \<Rightarrow> json \<Rightarrow> captureRecord \<Rightarrow> captureRecord option" where
  "capture_field k v r =
     (if key_is ''request_id'' k then map_option (\<lambda>x. r\<lparr>RequestID := x\<rparr>) (dec_string (RequestID r) v)
      else if key_is ''trace_id'' k then map_option (\<lambda>x. r\<lparr>rec_TraceID := x\<rparr>) (dec_string (rec_TraceID r) v)
      else if key_is ''policy_version'' k then map_option (\<lambda>x. r\<lparr>PolicyVersion := x\<rparr>) (dec_int (PolicyVersion r) v)
      else if key_is ''provider'' k then map_option (\<lambda>x. r\<lparr>rec_Provider := x\<rparr>) (dec_string (rec_Provider r) v)
      else if key_is ''model'' k then map_option (\<lambda>x. r\<lparr>rec_Model := x\<rparr>) (dec_string (rec_Model r) v)
      else if key_is ''attempts'' k then map_option (\<lambda>x. r\<lparr>rec_Attempts := x\<rparr>) (dec_int (rec_Attempts r) v)
      else if key_is ''status'' k then map_option (\<lambda>x. r\<lparr>rec_Status := x\<rparr>) (dec_int (rec_Status r) v)
      else if key_is ''fault'' k then map_option (\<lambda>x. r\<lparr>rec_Fault := x\<rparr>) (dec_string (rec_Fault r) v)
      else if key_is ''stored_unix'' k then map_option (\<lambda>x. r\<lparr>rec_Stored := x\<rparr>) (dec_int (rec_Stored r) v)
      else if key_is ''prompt'' k then Some (r\<lparr>Prompt := Some (json_print v)\<rparr>)
      else if key_is ''completion'' k then map_option (\<lambda>x. r\<lparr>Completion := x\<rparr>) (dec_raw (Completion r) v)
      else if key_is ''raw_prompt'' k then map_option (\<lambda>x. r\<lparr>RawPrompt := x\<rparr>) (dec_string (RawPrompt r) v)
      else if key_is ''prompt_unparseable'' k then map_option (\<lambda>x. r\<lparr>PromptUnparseable := x\<rparr>) (dec_bool (PromptUnparseable r) v)
      else if key_is ''text'' k then map_option (\<lambda>x. r\<lparr>rec_Text := x\<rparr>) (dec_string (rec_Text r) v)
      else Some r)"

definition capture_unmarshal :: "bytes \<Rightarrow> captureRecord option" where
  "capture_unmarshal b = Option.bind (json_parse b) (dec_struct capture_field empty_record)"

definition capture_Read :: "instant \<Rightarrow> bytes \<Rightarrow> captureStore \<Rightarrow> captureRecord option" where
  "capture_Read now rid s =
     (if \<not> requestID rid then None
      else
        case map_of (cap_dir s) (capture_path rid) of
          None \<Rightarrow> None
        | Some f \<Rightarrow>
            (case capture_unmarshal (content f) of
               None \<Rightarrow> None
             | Some r \<Rightarrow> if time_sub now (from_unix (rec_Stored r)) > cap_ttl s then None else Some r))"

section \<open>Lemmas: the accounts\<close>

definition cap_state :: "captureStore \<Rightarrow> dir \<times> int64 \<times> int" where
  "cap_state s = (cap_dir s, cap_used s, cap_count s)"

text \<open>Exact accounts, within both limits.\<close>

definition cap_exact :: "captureStore \<Rightarrow> bool" where
  "cap_exact s \<longleftrightarrow> accounts (cap_dir s) (cap_used s) (cap_count s)"

definition cap_bounded :: "captureStore \<Rightarrow> bool" where
  "cap_bounded s \<longleftrightarrow> cap_used s \<le> cap_limit s \<and> cap_count s \<le> captureMaxRecords"

lemma capture_sweep_one_state: "cap_state (capture_sweep_one v s) = sweep_remove v (cap_state s)"
  by (simp add: capture_sweep_one_def cap_state_def split: prod.splits)

lemma capture_Sweep_state: "cap_state (capture_Sweep now s) = sweep sweepPerPass (cap_ttl s) now (cap_state s)"
proof -
  have "cap_state (fold capture_sweep_one vs t) = fold sweep_remove vs (cap_state t)" for vs t
    by (induction vs arbitrary: t) (simp_all add: capture_sweep_one_state)
  then show ?thesis by (simp add: capture_Sweep_def capture_scan_def sweep_def cap_state_def)
qed

lemma capture_Sweep_ttl: "cap_ttl (capture_Sweep now s) = cap_ttl s"
proof -
  have "cap_ttl (fold capture_sweep_one vs t) = cap_ttl t" for vs t
    by (induction vs arbitrary: t) (simp_all add: capture_sweep_one_def split: prod.splits)
  then show ?thesis by (simp add: capture_Sweep_def)
qed

interpretation capture: swept_store capture_Sweep cap_state cap_ttl sweepPerPass
  by unfold_locales (simp_all add: sweepPerPass_def capture_Sweep_state capture_Sweep_ttl)

lemma cap_exact_iff: "capture.exact s \<longleftrightarrow> cap_exact s"
  by (simp add: capture.exact_def cap_state_def cap_exact_def)

lemma cap_files: "capture.files s = cap_dir s"
  by (simp add: capture.files_def cap_state_def)

lemma capture_marshals: "capture_json (capture_prompt r) \<noteq> None"
  by (auto simp: capture_prompt_def capture_json_def split: option.splits)

lemma capture_json_nonempty: "capture_json r = Some j \<Longrightarrow> json_print j \<noteq> []"
  by (auto simp: capture_json_def capture_doc_def split: option.splits if_splits)

text \<open>The ways a write can end; in particular the store is unchanged where it refuses.\<close>

lemma capture_Write_cases:
  obtains (refused) e m' where "capture_Write w now r (s, m) = (Some e, s, m')"
  | (failed) j d where "capture_Write w now r (s, m) = (Some CaptureWriteFailed, s\<lparr>cap_dir := d\<rparr>, Add DiskErrors 1 m)"
      "WriteFile w now (capture_path (RequestID r)) (json_print j) (cap_dir s) = (False, d)"
  | (wrote) j where "capture_Write w now r (s, m) =
       (None, s\<lparr>cap_dir := dir_put (capture_path (RequestID r)) \<lparr>content = json_print j, mtime = now\<rparr> (cap_dir s),
          cap_count := (if stored_size (capture_path (RequestID r)) (cap_dir s) = 0 then cap_count s + 1 else cap_count s),
          cap_used := cap_used s + (int (length (json_print j)) - stored_size (capture_path (RequestID r)) (cap_dir s))\<rparr>, m)"
      "capture_json (capture_prompt r) = Some j" "cap_used s + int (length (json_print j)) \<le> cap_limit s"
      "cap_count s < captureMaxRecords" "int (length (json_print j)) \<le> maxBytes s" "requestID (RequestID r)" "w = Wrote"
proof -
  obtain j where j: "capture_json (capture_prompt r) = Some j" using capture_marshals [of r] by blast
  show thesis
  proof (cases "\<not> requestID (RequestID r) \<or> int (length (json_print j)) > maxBytes s \<or>
      cap_used s + int (length (json_print j)) > cap_limit s \<or> cap_count s \<ge> captureMaxRecords")
    case True
    then have "\<exists>e m'. capture_Write w now r (s, m) = (Some e, s, m')"
      by (auto simp: capture_Write_def j Let_def)
    then show thesis using refused by blast
  next
    case no: False
    show thesis
    proof (cases "w = Wrote")
      case True
      then show thesis
        using no by (intro wrote [OF _ j]) (auto simp: capture_Write_def j Let_def WriteFile_def stored_size_def)
    next
      case False
      then obtain d where "WriteFile w now (capture_path (RequestID r)) (json_print j) (cap_dir s) = (False, d)"
        by (cases w) (auto simp: WriteFile_def)
      then show thesis using no by (intro failed) (auto simp: capture_Write_def j Let_def)
    qed
  qed
qed

lemma capture_Write_exact [store_inv]:
  assumes "cap_exact s" "\<forall>k. w \<noteq> Partial k"
  shows "cap_exact (fst (snd (capture_Write w now r (s, m))))"
proof (cases rule: capture_Write_cases [of w now r s m])
  case (failed j d)
  then show ?thesis using assms by (cases w) (auto simp: cap_exact_def WriteFile_def)
next
  case (wrote j)
  then show ?thesis
    using assms(1) accounts_put [of "cap_dir s" "cap_used s" "cap_count s"
        "\<lparr>content = json_print j, mtime = now\<rparr>" "capture_path (RequestID r)"] capture_json_nonempty [OF wrote(2)]
    by (simp add: cap_exact_def size_of_def)
qed (use assms in simp)

lemma stored_size_nonneg: "0 \<le> stored_size n d"
  by (simp add: stored_size_def size_of_def split: option.split)

lemma capture_Write_bounded [store_inv]:
  assumes "cap_bounded s"
  shows "cap_bounded (fst (snd (capture_Write w now r (s, m))))"
proof (cases rule: capture_Write_cases [of w now r s m])
  case (wrote j)
  then show ?thesis using assms stored_size_nonneg [of "capture_path (RequestID r)" "cap_dir s"] by (simp add: cap_bounded_def)
qed (use assms in \<open>auto simp: cap_bounded_def\<close>)

text \<open>A record is stored whole or not at all.\<close>

lemma capture_Write_whole:
  assumes "\<forall>k. w \<noteq> Partial k" "map_of (cap_dir (fst (snd (capture_Write w now r (s, m))))) n = Some f"
  shows "map_of (cap_dir s) n = Some f \<or>
    (\<exists>j. capture_json (capture_prompt r) = Some j \<and> content f = json_print j \<and> n = capture_path (RequestID r))"
proof (cases rule: capture_Write_cases [of w now r s m])
  case (failed j d)
  then show ?thesis using assms by (cases w) (auto simp: WriteFile_def)
next
  case (wrote j)
  then show ?thesis using assms by (auto simp: dir_put_lookup split: if_splits)
qed (use assms in simp)

lemma capture_Write_limit: "cap_limit (fst (snd (capture_Write w now r (s, m)))) = cap_limit s"
  by (cases rule: capture_Write_cases [of w now r s m]) simp_all

section \<open>Lemmas: records read back\<close>

text \<open>A record as it comes back from its file: a prompt that is not JSON is in the raw field, another one is in its compact form.\<close>

definition stored_form :: "captureRecord \<Rightarrow> captureRecord" where
  "stored_form r =
     (let r = capture_prompt r in r\<lparr>Prompt := map_option json_print (Option.bind (Prompt r) json_parse)\<rparr>)"

lemma plain_capture [simp]:
  "plain_name ''request_id''" "plain_name ''trace_id''" "plain_name ''policy_version''" "plain_name ''attempts''"
  "plain_name ''fault''" "plain_name ''prompt''" "plain_name ''completion''" "plain_name ''raw_prompt''"
  "plain_name ''prompt_unparseable''"
  by (simp_all add: plain_name_def is_upper_def)

lemma dec_opt_field: "dec_fields f a (opt_field k zero v) = (if zero then Some a else f k v a)"
  by (simp add: opt_field_def split: option.split)

definition record_ok :: "captureRecord \<Rightarrow> bool" where
  "record_ok r \<longleftrightarrow> int64_ok (PolicyVersion r) \<and> int64_ok (rec_Attempts r) \<and> int64_ok (rec_Status r) \<and> int64_ok (rec_Stored r)"

lemma capture_doc_decodes:
  assumes "record_ok r" and "\<And>a. Prompt a = None \<Longrightarrow> dec_fields capture_field a q = Some (a\<lparr>Prompt := p'\<rparr>)"
  shows "dec_struct capture_field empty_record (capture_doc r q) = Some (r\<lparr>Prompt := p'\<rparr>)"
proof -
  have ints: "int64_ok (PolicyVersion r)" "int64_ok (rec_Attempts r)" "int64_ok (rec_Status r)" "int64_ok (rec_Stored r)"
    using assms(1) by (simp_all add: record_ok_def)
  obtain rid tr pv pr mo ats st fa sto p co rp up tx where r: "r = \<lparr>RequestID = rid, rec_TraceID = tr, PolicyVersion = pv,
      rec_Provider = pr, rec_Model = mo, rec_Attempts = ats, rec_Status = st, rec_Fault = fa, rec_Stored = sto, Prompt = p,
      Completion = co, RawPrompt = rp, PromptUnparseable = up, rec_Text = tx\<rparr>"
    by (cases r)
  note field = capture_field_def key_is_plain dec_opt_field dec_int_itoa dec_bool_def dec_raw_def empty_record_def
  have 1: "dec_fields capture_field empty_record [(''request_id'', JStr rid)] = Some (empty_record\<lparr>RequestID := rid\<rparr>)"
    by (simp add: field)
  let ?r2 = "empty_record\<lparr>RequestID := rid, rec_TraceID := tr\<rparr>"
  have 2: "dec_fields capture_field (empty_record\<lparr>RequestID := rid\<rparr>) (opt_field ''trace_id'' (tr = []) (JStr tr)) = Some ?r2"
    by (simp add: field)
  let ?r3 = "?r2\<lparr>PolicyVersion := pv\<rparr>"
  have 3: "dec_fields capture_field ?r2 (opt_field ''policy_version'' (pv = 0) (JNum (itoa pv))) = Some ?r3"
    using ints by (simp add: field r)
  let ?r4 = "?r3\<lparr>rec_Provider := pr\<rparr>"
  have 4: "dec_fields capture_field ?r3 (opt_field ''provider'' (pr = []) (JStr pr)) = Some ?r4"
    by (simp add: field)
  let ?r5 = "?r4\<lparr>rec_Model := mo\<rparr>"
  have 5: "dec_fields capture_field ?r4 (opt_field ''model'' (mo = []) (JStr mo)) = Some ?r5"
    by (simp add: field)
  let ?r6 = "?r5\<lparr>rec_Attempts := ats, rec_Status := st\<rparr>"
  have 6: "dec_fields capture_field ?r5 [(''attempts'', JNum (itoa ats)), (''status'', JNum (itoa st))] = Some ?r6"
    using ints by (simp add: field r)
  let ?r7 = "?r6\<lparr>rec_Fault := fa\<rparr>"
  have 7: "dec_fields capture_field ?r6 (opt_field ''fault'' (fa = []) (JStr fa)) = Some ?r7"
    by (simp add: field)
  let ?r8 = "?r7\<lparr>rec_Stored := sto\<rparr>"
  have 8: "dec_fields capture_field ?r7 [(''stored_unix'', JNum (itoa sto))] = Some ?r8"
    using ints by (simp add: field r)
  let ?r9 = "?r8\<lparr>Prompt := p'\<rparr>"
  have 9: "dec_fields capture_field ?r8 q = Some ?r9"
    using assms(2) by (simp add: field)
  let ?r10 = "?r9\<lparr>Completion := co\<rparr>"
  have 10: "dec_fields capture_field ?r9 (case co of None \<Rightarrow> [] | Some j \<Rightarrow> [(''completion'', j)]) = Some ?r10"
    by (simp add: field split: option.split)
  let ?r11 = "?r10\<lparr>RawPrompt := rp\<rparr>"
  have 11: "dec_fields capture_field ?r10 (opt_field ''raw_prompt'' (rp = []) (JStr rp)) = Some ?r11"
    by (simp add: field)
  let ?r12 = "?r11\<lparr>PromptUnparseable := up\<rparr>"
  have 12: "dec_fields capture_field ?r11 (opt_field ''prompt_unparseable'' (\<not> up) (JBool True)) = Some ?r12"
    by (simp add: field)
  have 13: "dec_fields capture_field ?r12 (opt_field ''text'' (tx = []) (JStr tx)) = Some (?r12\<lparr>rec_Text := tx\<rparr>)"
    by (simp add: field)
  show ?thesis
    unfolding capture_doc_def r captureRecord.simps
    by (simp only: dec_struct_def json.case dec_fields_append 1 2 3 4 5 6 7 8 9 10 11 12 13 Option.bind.simps)
      (simp add: empty_record_def)
qed


lemma capture_decodes:
  assumes "capture_json r = Some j" "record_ok r"
  shows "dec_struct capture_field empty_record j = Some (r\<lparr>Prompt := map_option json_print (Option.bind (Prompt r) json_parse)\<rparr>)"
proof (cases "Prompt r = None \<or> Prompt r = Some []")
  case True
  then have "j = capture_doc r []" "map_option json_print (Option.bind (Prompt r) json_parse) = None"
    using assms(1) by (auto simp: capture_json_def json_parse_def)
  then show ?thesis using capture_doc_decodes [OF assms(2), of "[]" None] by simp
next
  case False
  then obtain b v where "Prompt r = Some b" "json_parse b = Some v" "j = capture_doc r [(''prompt'', v)]"
    using assms(1) by (auto simp: capture_json_def)
  then show ?thesis
    using capture_doc_decodes [OF assms(2), of "[(''prompt'', v)]" "Some (json_print v)"]
    by (simp add: capture_field_def key_is_plain)
qed

lemma capture_read_back:
  assumes "capture_Write w now r (s, m) = (None, s', m')" "record_ok r"
    and j: "capture_json (capture_prompt r) = Some j" "json_ok j" "json_depth j \<le> max_nesting"
  shows "capture_Read now' (RequestID r) s' =
    (if time_sub now' (from_unix (rec_Stored r)) > cap_ttl s then None else Some (stored_form r))"
proof -
  have ok: "record_ok (capture_prompt r)" "rec_Stored (stored_form r) = rec_Stored r"
    using assms(2) by (auto simp: record_ok_def capture_prompt_def stored_form_def Let_def split: option.splits)
  have "capture_unmarshal (json_print j) = Some (stored_form r)"
    using json_parse_print [OF j(2,3)] capture_decodes [OF j(1) ok(1)]
    by (simp add: capture_unmarshal_def stored_form_def Let_def)
  moreover have "requestID (RequestID r)" "cap_ttl s' = cap_ttl s"
    "map_of (cap_dir s') (capture_path (RequestID r)) = Some \<lparr>content = json_print j, mtime = now\<rparr>"
    by (rule capture_Write_cases [of w now r s m]; use assms(1) j(1) in \<open>auto simp: dir_put_lookup\<close>)+
  ultimately show ?thesis using ok(2) by (simp add: capture_Read_def)
qed

end
