(* ===== verification/Telemetry.thy ===== *)
theory Telemetry
  imports Metrics Policy Disk Capture
begin

text \<open>
  The event of a request and its way out (\<open>telemetry.go\<close>): the record and its wire form,
  the two bounded queues \<open>Emit\<close> feeds, the spool directory \<open>persist\<close> writes, and the
  delivery of spooled events to the control plane in batches. Shown: what the spool holds is
  what the gauges say, an event leaves the spool only when it was acknowledged or counted as
  dropped, and how large a batch can get.
\<close>

section \<open>Events\<close>

record Event =
  ID :: bytes
  ev_RequestID :: bytes
  ev_TraceID :: bytes
  SpanID :: bytes
  ParentID :: bytes
  ev_Provider :: bytes
  ev_Status :: int
  ev_Attempts :: int
  Start :: int64
  End :: int64
  ev_PolicyVersion :: int64
  ev_Model :: bytes
  ev_Fault :: bytes
  Replayed :: bool
  BudgetSkipped :: "bytes list"
  StreamFailed :: bool
  ev_Usage :: tokenUsage
  Ext :: "(bytes \<times> json) list"

definition empty_Event :: Event where
  "empty_Event = \<lparr>ID = [], ev_RequestID = [], ev_TraceID = [], SpanID = [], ParentID = [], ev_Provider = [],
     ev_Status = 0, ev_Attempts = 0, Start = 0, End = 0, ev_PolicyVersion = 0, ev_Model = [], ev_Fault = [],
     Replayed = False, BudgetSkipped = [], StreamFailed = False, ev_Usage = no_usage, Ext = []\<rparr>"

definition usage_attrs :: "tokenUsage \<Rightarrow> (bytes \<times> int) list" where
  "usage_attrs u =
     (if Input u = 0 \<and> Output u = 0 then []
      else
        [(''gen_ai.usage.input_tokens'', Input u), (''gen_ai.usage.output_tokens'', Output u)]
        @ filter (\<lambda>(k, v). 0 < v)
            [(''gen_ai.usage.reasoning.output_tokens'', Reasoning u),
             (''gen_ai.usage.cache_read.input_tokens'', CacheRead u),
             (''gen_ai.usage.cache_write.input_tokens'', CacheWrite u)])"

definition set_if :: "bool \<Rightarrow> bytes \<Rightarrow> json \<Rightarrow> (bytes \<times> json) list \<Rightarrow> (bytes \<times> json) list" where
  "set_if b k v m = (if b then AList.update k v m else m)"

definition Event_wire :: "Event \<Rightarrow> Event" where
  "Event_wire e =
     (let ext = Ext e;
          ext = set_if (ev_Model e \<noteq> []) ''model'' (JStr (ev_Model e)) ext;
          ext = set_if (ev_Fault e \<noteq> []) ''fault'' (JStr (ev_Fault e)) ext;
          ext = set_if (StreamFailed e) ''stream_failed'' (JBool True) ext;
          ext = set_if (Replayed e) ''idempotent_replay'' (JBool True) ext;
          ext = set_if (BudgetSkipped e \<noteq> []) ''budget_skipped'' (JArr (map JStr (BudgetSkipped e))) ext;
          ext = fold (\<lambda>(k, v). AList.update k (JNum (itoa v))) (usage_attrs (ev_Usage e)) ext
      in if ext = [] then e else e\<lparr>Ext := ext\<rparr>)"

text \<open>\<open>json.Marshal\<close> writes the keys of the extension map in order.\<close>

definition event_json :: "Event \<Rightarrow> json" where
  "event_json e = JObj (
     [(''id'', JStr (ID e)), (''request_id'', JStr (ev_RequestID e)), (''trace_id'', JStr (ev_TraceID e)),
      (''span_id'', JStr (SpanID e))]
     @ opt_field ''parent_id'' (ParentID e = []) (JStr (ParentID e))
     @ [(''provider'', JStr (ev_Provider e)), (''status'', JNum (itoa (ev_Status e))),
        (''attempts'', JNum (itoa (ev_Attempts e))), (''start_ns'', JNum (itoa (Start e))),
        (''end_ns'', JNum (itoa (End e)))]
     @ opt_field ''policy_version'' (ev_PolicyVersion e = 0) (JNum (itoa (ev_PolicyVersion e)))
     @ opt_field ''ext'' (Ext e = []) (JObj (sort_key fst (Ext e))))"

definition dec_any_map :: "(bytes \<times> json) list \<Rightarrow> json \<Rightarrow> (bytes \<times> json) list option" where
  "dec_any_map old j =
     (case j of JObj kvs \<Rightarrow> Some (fold (\<lambda>(k, v). AList.update k v) kvs old) | JNull \<Rightarrow> Some [] | _ \<Rightarrow> None)"

definition Event_field :: "bytes \<Rightarrow> json \<Rightarrow> Event \<Rightarrow> Event option" where
  "Event_field k v e =
     (if key_is ''id'' k then map_option (\<lambda>x. e\<lparr>ID := x\<rparr>) (dec_string (ID e) v)
      else if key_is ''request_id'' k then map_option (\<lambda>x. e\<lparr>ev_RequestID := x\<rparr>) (dec_string (ev_RequestID e) v)
      else if key_is ''trace_id'' k then map_option (\<lambda>x. e\<lparr>ev_TraceID := x\<rparr>) (dec_string (ev_TraceID e) v)
      else if key_is ''span_id'' k then map_option (\<lambda>x. e\<lparr>SpanID := x\<rparr>) (dec_string (SpanID e) v)
      else if key_is ''parent_id'' k then map_option (\<lambda>x. e\<lparr>ParentID := x\<rparr>) (dec_string (ParentID e) v)
      else if key_is ''provider'' k then map_option (\<lambda>x. e\<lparr>ev_Provider := x\<rparr>) (dec_string (ev_Provider e) v)
      else if key_is ''status'' k then map_option (\<lambda>x. e\<lparr>ev_Status := x\<rparr>) (dec_int (ev_Status e) v)
      else if key_is ''attempts'' k then map_option (\<lambda>x. e\<lparr>ev_Attempts := x\<rparr>) (dec_int (ev_Attempts e) v)
      else if key_is ''start_ns'' k then map_option (\<lambda>x. e\<lparr>Start := x\<rparr>) (dec_int (Start e) v)
      else if key_is ''end_ns'' k then map_option (\<lambda>x. e\<lparr>End := x\<rparr>) (dec_int (End e) v)
      else if key_is ''policy_version'' k then map_option (\<lambda>x. e\<lparr>ev_PolicyVersion := x\<rparr>) (dec_int (ev_PolicyVersion e) v)
      else if key_is ''ext'' k then map_option (\<lambda>x. e\<lparr>Ext := x\<rparr>) (dec_any_map (Ext e) v)
      else Some e)"

definition event_unmarshal :: "bytes \<Rightarrow> Event option" where
  "event_unmarshal b = Option.bind (json_parse b) (dec_struct Event_field empty_Event)"

section \<open>Queues and the spool\<close>

record Telemetry =
  queue :: "Event list"
  otlp :: "Event list"
  spool :: dir
  perEvent :: bool
  posts :: "(bytes \<times> bytes) list"

definition Emit :: "Config \<Rightarrow> Event \<Rightarrow> Telemetry \<times> counters \<Rightarrow> Telemetry \<times> counters" where
  "Emit c e tm =
     (let (t, m) = tm;
          (t, m) = (if OTLPURL c \<noteq> [] then
                      (if int (length (otlp t)) < QueueSize c then (t\<lparr>otlp := otlp t @ [e]\<rparr>, m)
                       else (t, Add ExportErrors 1 m))
                    else (t, m))
      in if int (length (queue t)) < QueueSize c then (t\<lparr>queue := queue t @ [e]\<rparr>, m)
         else (t, Add Dropped 1 m))"

text \<open>
  The effect of \<open>atomicFile\<close> on a directory: the file is there whole once the rename is
  done, even when syncing the directory then fails.
\<close>

definition spool_file :: "file_script \<Rightarrow> instant \<Rightarrow> bytes \<Rightarrow> bytes \<Rightarrow> dir \<Rightarrow> bool \<times> dir" where
  "spool_file io now n b d =
     (if create_ok io \<and> chmod_ok io \<and> length b \<le> written io \<and> sync_ok io \<and> close_ok io \<and> rename_ok io
      then (opendir_ok io \<and> dirsync_ok io, dir_put n \<lparr>content = b, mtime = now\<rparr> d)
      else (False, d))"

definition persist :: "Config \<Rightarrow> file_script \<Rightarrow> instant \<Rightarrow> Event \<Rightarrow> Telemetry \<times> counters \<Rightarrow> Telemetry \<times> counters" where
  "persist c io now e tm =
     (let (t, m) = tm;
          b = json_print (event_json (Event_wire e))
      in if m SpoolUsed + int (length b) > SpoolBytes c \<or> m SpoolCount \<ge> 10000 then (t, Add Dropped 1 m)
         else
           let (ok, d) = spool_file io now (ID e @ ''.json'') b (spool t);
               t = t\<lparr>spool := d\<rparr>
           in if \<not> ok then (t, Add Dropped 1 (Add DiskErrors 1 m))
              else (t, Add SpoolCount 1 (Add SpoolUsed (int (length b)) m)))"

text \<open>\<open>NewTelemetry\<close>: the gauges are recounted from the directory.\<close>

definition NewTelemetry :: "dir \<Rightarrow> counters \<Rightarrow> Telemetry \<times> counters" where
  "NewTelemetry d m =
     (\<lparr>queue = [], otlp = [], spool = d, perEvent = False, posts = []\<rparr>,
      fold (\<lambda>(n, f) m. if has_suffix ''.json'' n then Add SpoolCount 1 (Add SpoolUsed (size_of f) m) else m)
        (ReadDir d) m)"

section \<open>Delivery\<close>

definition deliverBatch :: nat where "deliverBatch = 200"
definition deliverBatches :: nat where "deliverBatches = 5"
definition deliverBytes :: nat where "deliverBytes = 57344"

record spooled =
  sp_path :: bytes
  sp_id :: bytes
  sp_size :: int64
  sp_event :: bytes

text \<open>The control plane's answer to the n-th request of this process.\<close>

datatype reply = Unreached | Answered int bytes bool

record tel_env =
  listable :: bool
  reply_to :: "nat \<Rightarrow> reply"
  removable :: "bytes \<Rightarrow> bool"
  readable :: "bytes \<Rightarrow> bool"
  cancelled :: "nat \<Rightarrow> bool"

definition post :: "tel_env \<Rightarrow> bytes \<Rightarrow> bytes \<Rightarrow> Telemetry \<Rightarrow> reply \<times> Telemetry" where
  "post env path body t = (reply_to env (length (posts t)), t\<lparr>posts := posts t @ [(path, body)]\<rparr>)"

definition tel_remove :: "tel_env \<Rightarrow> spooled \<Rightarrow> Telemetry \<times> counters \<Rightarrow> Telemetry \<times> counters" where
  "tel_remove env sp tm =
     (let (t, m) = tm in
      if \<not> removable env (sp_path sp) \<or> map_of (spool t) (sp_path sp) = None then (t, Add DiskErrors 1 m)
      else (t\<lparr>spool := dir_remove (sp_path sp) (spool t)\<rparr>, Add SpoolCount (- 1) (Add SpoolUsed (- sp_size sp) m)))"

definition id_field :: "bytes \<Rightarrow> json \<Rightarrow> bytes \<Rightarrow> bytes option" where
  "id_field k v old = (if key_is ''id'' k then dec_string old v else Some old)"

fun sendPerEvent :: "tel_env \<Rightarrow> spooled list \<Rightarrow> Telemetry \<times> counters \<Rightarrow> bool \<times> Telemetry \<times> counters" where
  "sendPerEvent env [] tm = (True, tm)"
| "sendPerEvent env (sp # sps) (t, m) =
     (let (r, t) = post env ''/v1/telemetry'' (sp_event sp) t in
      case r of
        Unreached \<Rightarrow> (False, t, Add ExportErrors 1 m)
      | Answered status ack read_ok \<Rightarrow>
          if \<not> read_ok \<or> status \<noteq> 200 \<or>
             Option.bind (json_parse (take 8193 ack)) (dec_struct id_field []) \<noteq> Some (sp_id sp) then
            (let m = Add ExportErrors 1 m in
             if status \<ge> 400 \<and> status < 500 \<and> status \<noteq> 429
             then sendPerEvent env sps (tel_remove env sp (t, Add Dropped 1 m))
             else (False, t, m))
          else sendPerEvent env sps (tel_remove env sp (t, m)))"

definition accepted_field :: "bytes \<Rightarrow> json \<Rightarrow> bytes list option \<Rightarrow> bytes list option option" where
  "accepted_field k v a =
     (if key_is ''accepted'' k then
        (if v = JNull then Some None
         else map_option Some (dec_slice dec_string [] (case a of None \<Rightarrow> [] | Some l \<Rightarrow> l) v))
      else Some a)"

definition batch_body :: "spooled list \<Rightarrow> bytes" where
  "batch_body batch =
     [CHR 0x7B, CHR 0x22] @ ''events'' @ [CHR 0x22, CHR 0x3A, CHR 0x5B]
     @ intersperse '','' (map sp_event batch) @ [CHR 0x5D, CHR 0x7D]"

definition settle_batch :: "tel_env \<Rightarrow> bytes list \<Rightarrow> spooled list \<Rightarrow> Telemetry \<times> counters \<Rightarrow> Telemetry \<times> counters" where
  "settle_batch env ok batch tm =
     fold (\<lambda>sp (t, m). if sp_id sp \<in> set ok then tel_remove env sp (t, m)
                       else tel_remove env sp (t, Add Dropped 1 m)) batch tm"

definition send :: "tel_env \<Rightarrow> spooled list \<Rightarrow> Telemetry \<times> counters \<Rightarrow> bool \<times> Telemetry \<times> counters" where
  "send env batch tm =
     (let (t, m) = tm in
      if perEvent t then sendPerEvent env batch (t, m)
      else
        let (r, t) = post env ''/v1/telemetry/batch'' (batch_body batch) t in
        case r of
          Unreached \<Rightarrow> (False, t, Add ExportErrors 1 m)
        | Answered status ack read_ok \<Rightarrow>
            if status = 404 \<or> status = 405 then sendPerEvent env batch (t\<lparr>perEvent := True\<rparr>, m)
            else if status \<noteq> 200 then (False, t, Add ExportErrors 1 m)
            else
              case Option.bind (json_parse (take (2 ^ 20) ack)) (dec_struct accepted_field None) of
                Some (Some ok) \<Rightarrow> (True, settle_batch env ok batch (t, m))
              | _ \<Rightarrow> sendPerEvent env batch (t\<lparr>perEvent := True\<rparr>, m))"

fun deliver_run ::
  "tel_env \<Rightarrow> (bytes \<times> disk_file) list \<Rightarrow> spooled list \<Rightarrow> nat \<Rightarrow> nat \<Rightarrow> Telemetry \<times> counters \<Rightarrow> Telemetry \<times> counters" where
  "deliver_run env [] batch batchBytes sentBatches tm =
     (if batch \<noteq> [] \<and> sentBatches < deliverBatches then snd (send env batch tm) else tm)"
| "deliver_run env ((name, f) # fs) batch batchBytes sentBatches (t, m) =
     (if cancelled env (length fs) \<or> sentBatches \<ge> deliverBatches then (t, m)
      else if \<not> has_suffix ''.json'' name then deliver_run env fs batch batchBytes sentBatches (t, m)
      else
        case (if readable env name then map_option content (map_of (spool t) name) else None) of
          None \<Rightarrow> deliver_run env fs batch batchBytes sentBatches (t, Add DiskErrors 1 m)
        | Some b \<Rightarrow>
            if length b > 8192 then deliver_run env fs batch batchBytes sentBatches (t, Add DiskErrors 1 m)
            else
              case event_unmarshal b of
                None \<Rightarrow> deliver_run env fs batch batchBytes sentBatches (t, Add DiskErrors 1 m)
              | Some event \<Rightarrow>
                  (let batch = batch @ [\<lparr>sp_path = name, sp_id = ID event, sp_size = int (length b), sp_event = b\<rparr>];
                       batchBytes = batchBytes + length b
                   in if length batch < deliverBatch \<and> batchBytes < deliverBytes
                      then deliver_run env fs batch batchBytes sentBatches (t, m)
                      else
                        let (ok, tm) = send env batch (t, m) in
                        if \<not> ok then tm else deliver_run env fs [] 0 (sentBatches + 1) tm))"

definition deliver :: "tel_env \<Rightarrow> Telemetry \<times> counters \<Rightarrow> Telemetry \<times> counters" where
  "deliver env tm =
     (if \<not> listable env then (fst tm, Add DiskErrors 1 (snd tm))
      else deliver_run env (ReadDir (spool (fst tm))) [] 0 0 tm)"

section \<open>Spans\<close>

record semconv =
  sc_provider :: bytes
  sc_operation :: bytes

definition semconvOf :: "bytes \<Rightarrow> semconv" where
  "semconvOf p =
     (if p = ''openai'' then \<lparr>sc_provider = ''openai'', sc_operation = ''chat''\<rparr>
      else if p = ''anthropic'' then \<lparr>sc_provider = ''anthropic'', sc_operation = ''chat''\<rparr>
      else if p = ''gemini'' then \<lparr>sc_provider = ''gcp.gemini'', sc_operation = ''generate_content''\<rparr>
      else if p = ''bedrock'' then \<lparr>sc_provider = ''aws.bedrock'', sc_operation = ''chat''\<rparr>
      else \<lparr>sc_provider = p, sc_operation = ''chat''\<rparr>)"

definition str_attr :: "bytes \<Rightarrow> bytes \<Rightarrow> json" where
  "str_attr k v = JObj [(''key'', JStr k), (''value'', JObj [(''stringValue'', JStr v)])]"

definition int_attr :: "bytes \<Rightarrow> int \<Rightarrow> json" where
  "int_attr k v = JObj [(''key'', JStr k), (''value'', JObj [(''intValue'', JStr (itoa v))])]"

definition span_attrs :: "Event \<Rightarrow> json list" where
  "span_attrs e =
     (let sc = semconvOf (ev_Provider e) in
      (if ev_Provider e \<noteq> [] then
         [str_attr ''gen_ai.provider.name'' (sc_provider sc), str_attr ''gen_ai.operation.name'' (sc_operation sc)]
       else [])
      @ [int_attr ''http.response.status_code'' (ev_Status e), int_attr ''switchboard.attempts'' (ev_Attempts e)]
      @ (if ev_PolicyVersion e > 0 then [int_attr ''switchboard.policy_version'' (ev_PolicyVersion e)] else [])
      @ (if ev_Model e \<noteq> [] then [str_attr ''gen_ai.request.model'' (ev_Model e)] else [])
      @ (if ev_Fault e \<noteq> [] then [str_attr ''switchboard.fault'' (ev_Fault e)] else [])
      @ map (\<lambda>(k, v). int_attr k v) (usage_attrs (ev_Usage e))
      @ (if ev_Status e \<ge> 400 \<or> StreamFailed e then
           [str_attr ''error.type'' (if StreamFailed e \<and> ev_Status e < 400 then ''stream_error'' else itoa (ev_Status e))]
         else []))"

definition spanOf :: "Event \<Rightarrow> json" where
  "spanOf e =
     (let sc = semconvOf (ev_Provider e);
          name = (if ev_Provider e = [] then ''switchboard.refused''
                  else sc_operation sc @ (if ev_Model e \<noteq> [] then '' '' @ ev_Model e else []))
      in JObj (
        [(''attributes'', JArr (span_attrs e)), (''endTimeUnixNano'', JStr (itoa (End e))), (''kind'', JNum ''2''),
         (''name'', JStr name)]
        @ opt_field ''parentSpanId'' (ParentID e = []) (JStr (ParentID e))
        @ [(''spanId'', JStr (SpanID e)), (''startTimeUnixNano'', JStr (itoa (Start e)))]
        @ opt_field ''status'' (\<not> (ev_Status e \<ge> 400 \<or> StreamFailed e)) (JObj [(''code'', JNum ''2'')])
        @ [(''traceId'', JStr (ev_TraceID e))]))"

section \<open>Metric labels\<close>

definition routeKey_labels :: "bool \<Rightarrow> routeKey \<Rightarrow> (bytes \<times> bytes) list" where
  "routeKey_labels withError k =
     (let sc = semconvOf (rk_provider k) in
      [(''gen_ai_operation_name'', sc_operation sc), (''gen_ai_provider_name'', sc_provider sc)]
      @ (if rk_model k \<noteq> [] then [(''gen_ai_request_model'', rk_model k)] else [])
      @ (if withError \<and> errorType k \<noteq> [] then [(''error_type'', errorType k)] else []))"

definition label_escape :: "bytes \<Rightarrow> bytes" where
  "label_escape s = concat (map (\<lambda>c.
     if c = CHR 0x5C then [CHR 0x5C, CHR 0x5C]
     else if c = CHR 0x22 then [CHR 0x5C, CHR 0x22]
     else if c = CHR 10 then [CHR 0x5C, CHR ''n''] else [c]) s)"

definition joinLabels :: "(bytes \<times> bytes) list \<Rightarrow> (bytes \<times> bytes) list \<Rightarrow> bytes" where
  "joinLabels pairs extra =
     intersperse '','' (map (\<lambda>(k, v). k @ [CHR ''='', CHR 0x22] @ label_escape v @ [CHR 0x22]) (pairs @ extra))"

section \<open>The spool and its gauges\<close>

definition contents :: "dir \<Rightarrow> files" where
  "contents d = (\<lambda>n. map_option content (map_of d n))"

lemma spool_file_atomic:
  assumes "map_of d tmp = None" "tmp \<noteq> n"
  shows "fst (spool_file io now n b d) = fst (atomicFile io tmp n b (contents d))"
    "contents (snd (spool_file io now n b d)) = last (snd (atomicFile io tmp n b (contents d)))"
  using assms by (auto simp: spool_file_def atomicFile_def contents_def table_simps fun_eq_iff Let_def)

text \<open>The gauges state what the directory holds, and every file in it is one \<open>deliver\<close> looks at.\<close>

definition spool_exact :: "Telemetry \<times> counters \<Rightarrow> bool" where
  "spool_exact tm \<longleftrightarrow>
     dir_ok (spool (fst tm)) \<and> snd tm SpoolUsed = dir_bytes (spool (fst tm)) \<and>
     snd tm SpoolCount = int (length (spool (fst tm))) \<and>
     list_all (\<lambda>(n, f). has_suffix ''.json'' n) (spool (fst tm))"

lemma has_suffix_append [simp]: "has_suffix p (s @ p)"
  by (simp add: has_suffix_def has_prefix_def)

lemma all_put: "list_all (\<lambda>(n, f). P n) d \<Longrightarrow> P n \<Longrightarrow> list_all (\<lambda>(n, f). P n) (dir_put n f d)"
  unfolding dir_put_def by (induction d) auto

lemma all_remove: "list_all P d \<Longrightarrow> list_all P (dir_remove n d)"
  by (simp add: dir_remove_filter list_all_iff)

lemma fold_gauges:
  "list_all (\<lambda>(n, f). has_suffix ''.json'' n) fs \<Longrightarrow>
   fold (\<lambda>(n, f) m. if has_suffix ''.json'' n then Add SpoolCount 1 (Add SpoolUsed (size_of f) m) else m) fs m =
   m(SpoolUsed := m SpoolUsed + dir_bytes fs, SpoolCount := m SpoolCount + int (length fs))"
  by (induction fs arbitrary: m) (auto simp: Add_def dir_bytes_def fun_eq_iff)

lemma NewTelemetry_exact:
  assumes "dir_ok d" "list_all (\<lambda>(n, f). has_suffix ''.json'' n) d" "m SpoolUsed = 0" "m SpoolCount = 0"
  shows "spool_exact (NewTelemetry d m)"
proof -
  have "list_all (\<lambda>(n, f). has_suffix ''.json'' n) (ReadDir d)"
    using assms(2) by (simp add: list_all_iff ReadDir_set)
  moreover have "dir_bytes (ReadDir d) = dir_bytes d" "length (ReadDir d) = length d"
    using ReadDir_sum [of "\<lambda>(n, f). size_of f" "\<lambda>_. True" d] ReadDir_length [of "\<lambda>_. True" d]
    by (simp_all add: dir_bytes_def)
  ultimately show ?thesis
    using assms by (simp add: spool_exact_def NewTelemetry_def fold_gauges)
qed

lemma persist_exact:
  assumes "spool_exact tm" "map_of (spool (fst tm)) (ID e @ ''.json'') = None"
    and "rename_ok io \<Longrightarrow> opendir_ok io \<and> dirsync_ok io"
  shows "spool_exact (persist c io now e tm)"
proof -
  obtain t m where tm: "tm = (t, m)" by (cases tm)
  let ?n = "ID e @ ''.json''" and ?b = "json_print (event_json (Event_wire e))"
  have new: "stored_size ?n (spool t) = 0" using assms(2) by (simp add: tm stored_size_def)
  show ?thesis
    using assms unfolding tm
    by (auto simp: persist_def spool_file_def spool_exact_def Add_def Let_def dir_put_ok dir_bytes_put new
        dir_length_put all_put size_of_def)
qed

lemma persist_bounded:
  "snd tm SpoolUsed \<le> SpoolBytes c \<Longrightarrow> snd (persist c io now e tm) SpoolUsed \<le> SpoolBytes c"
  "snd tm SpoolCount \<le> 10000 \<Longrightarrow> snd (persist c io now e tm) SpoolCount \<le> 10000"
  by (auto simp: persist_def Add_def Let_def split: prod.splits)

section \<open>Delivery settles what it removes\<close>

text \<open>An id is acknowledged when one of the answers so far names it.\<close>

definition acks :: "reply \<Rightarrow> bytes \<Rightarrow> bool" where
  "acks r i =
     (case r of
        Unreached \<Rightarrow> False
      | Answered status ack read_ok \<Rightarrow>
          status = 200 \<and>
          (Option.bind (json_parse (take 8193 ack)) (dec_struct id_field []) = Some i \<or>
           (\<exists>ok. Option.bind (json_parse (take (2 ^ 20) ack)) (dec_struct accepted_field None) = Some (Some ok) \<and> i \<in> set ok)))"

definition acknowledged :: "tel_env \<Rightarrow> Telemetry \<Rightarrow> bytes \<Rightarrow> bool" where
  "acknowledged env t i \<longleftrightarrow> (\<exists>k < length (posts t). acks (reply_to env k) i)"

definition file_id :: "dir \<Rightarrow> bytes \<Rightarrow> bytes" where
  "file_id d n = (case Option.bind (map_of d n) (\<lambda>f. event_unmarshal (content f)) of None \<Rightarrow> [] | Some e \<Rightarrow> ID e)"

text \<open>Files that are gone although no answer named their event.\<close>

definition lost :: "tel_env \<Rightarrow> Telemetry \<Rightarrow> Telemetry \<Rightarrow> bytes set" where
  "lost env t t' = {n. map_of (spool t) n \<noteq> None \<and> map_of (spool t') n = None \<and>
     \<not> acknowledged env t' (file_id (spool t) n)}"

definition settles :: "tel_env \<Rightarrow> Telemetry \<times> counters \<Rightarrow> Telemetry \<times> counters \<Rightarrow> bool" where
  "settles env tm tm' \<longleftrightarrow>
     length (posts (fst tm)) \<le> length (posts (fst tm')) \<and>
     map_of (spool (fst tm')) \<subseteq>\<^sub>m map_of (spool (fst tm)) \<and>
     int (card (lost env (fst tm) (fst tm'))) \<le> snd tm' Dropped - snd tm Dropped \<and>
     (spool_exact tm \<longrightarrow> spool_exact tm')"

lemma acknowledged_mono:
  "acknowledged env t i \<Longrightarrow> length (posts t) \<le> length (posts t') \<Longrightarrow> acknowledged env t' i"
  unfolding acknowledged_def using less_le_trans by blast

lemma finite_lost [simp]: "finite (lost env t t')"
  by (rule finite_subset [of _ "dom (map_of (spool t))"]) (auto simp: lost_def finite_dom_map_of)

lemma lost_same [simp]: "spool t' = spool t \<Longrightarrow> lost env t t' = {}"
  by (auto simp: lost_def)

lemma file_id_le: "map_of d' \<subseteq>\<^sub>m map_of d \<Longrightarrow> map_of d' n \<noteq> None \<Longrightarrow> file_id d' n = file_id d n"
  unfolding file_id_def by (auto simp: map_le_def dom_def split: option.splits)

lemma settles_refl [simp]: "settles env tm tm"
  by (simp add: settles_def)

lemma settles_trans:
  assumes "settles env a b" "settles env b c"
  shows "settles env a c"
proof -
  have "lost env (fst a) (fst c) \<subseteq> lost env (fst a) (fst b) \<union> lost env (fst b) (fst c)"
  proof
    fix n assume n: "n \<in> lost env (fst a) (fst c)"
    show "n \<in> lost env (fst a) (fst b) \<union> lost env (fst b) (fst c)"
    proof (cases "map_of (spool (fst b)) n")
      case None
      then show ?thesis
        using n assms(2) acknowledged_mono [of env "fst b" _ "fst c"] by (auto simp: lost_def settles_def)
    next
      case (Some f)
      then have "file_id (spool (fst b)) n = file_id (spool (fst a)) n"
        using assms(1) file_id_le by (auto simp: settles_def)
      then show ?thesis using n Some by (auto simp: lost_def)
    qed
  qed
  then have "card (lost env (fst a) (fst c)) \<le> card (lost env (fst a) (fst b)) + card (lost env (fst b) (fst c))"
    by (meson card_mono card_Un_le finite_UnI finite_lost le_trans)
  then show ?thesis
    using assms map_le_trans by (auto simp: settles_def)
qed

text \<open>An entry of a batch: read from the file it names.\<close>

definition entry_of :: "Telemetry \<Rightarrow> spooled \<Rightarrow> bool" where
  "entry_of t sp \<longleftrightarrow>
     (\<forall>f. map_of (spool t) (sp_path sp) = Some f \<longrightarrow>
        sp_size sp = size_of f \<and> file_id (spool t) (sp_path sp) = sp_id sp)"

lemma entry_of_le: "entry_of t sp \<Longrightarrow> map_of (spool t') \<subseteq>\<^sub>m map_of (spool t) \<Longrightarrow> entry_of t' sp"
  unfolding entry_of_def using file_id_le [of "spool t'" "spool t" "sp_path sp"]
  by (auto simp: map_le_def dom_def)

lemma entries_settle: "list_all (entry_of (fst a)) b \<Longrightarrow> settles env a c \<Longrightarrow> list_all (entry_of (fst c)) b"
  using entry_of_le by (auto simp: list_all_iff settles_def)

lemma tel_remove_settles:
  assumes "entry_of t sp" "0 \<le> k" "acknowledged env t (sp_id sp) \<or> 1 \<le> k"
  shows "settles env (t, m) (tel_remove env sp (t, Add Dropped k m))"
proof (cases "\<not> removable env (sp_path sp) \<or> map_of (spool t) (sp_path sp) = None")
  case True
  then show ?thesis using assms by (simp add: tel_remove_def settles_def Add_def spool_exact_def)
next
  case False
  then obtain f where Some: "map_of (spool t) (sp_path sp) = Some f" by auto
  let ?t' = "t\<lparr>spool := dir_remove (sp_path sp) (spool t)\<rparr>"
  have f: "sp_size sp = size_of f" "file_id (spool t) (sp_path sp) = sp_id sp"
    using assms(1) Some by (auto simp: entry_of_def)
  have "lost env t ?t' \<subseteq> (if acknowledged env t (sp_id sp) then {} else {sp_path sp})"
    using f by (auto simp: lost_def table_simps acknowledged_def split: if_splits)
  then have "int (card (lost env t ?t')) \<le> k"
    using assms(2,3) card_mono [of "{sp_path sp}" "lost env t ?t'"] by (auto split: if_splits)
  then show ?thesis
    using False Some f
    by (auto simp: tel_remove_def settles_def Add_def spool_exact_def table_simps dir_remove_ok dir_bytes_remove
        dir_length_remove stored_size_def all_remove map_le_def)
qed

lemmas remove_dropped = tel_remove_settles [where k = 1, simplified]
lemmas remove_acked = tel_remove_settles [where k = 0, simplified]

lemma Add_zero [simp]: "Add c 0 m = m"
  by (simp add: Add_def)

lemma settles_counts [simp]:
  "settles env (t, Add ExportErrors n m) tm' = settles env (t, m) tm'"
  "settles env (t, Add DiskErrors n m) tm' = settles env (t, m) tm'"
  by (simp_all add: settles_def spool_exact_def Add_def)

lemma settles_posted:
  "settles env (t, m) (t\<lparr>posts := posts t @ [p]\<rparr>, m)" "settles env (t, m) (t\<lparr>posts := posts t @ [p], perEvent := b\<rparr>, m)"
  by (simp_all add: settles_def spool_exact_def)

lemma settles_step:
  assumes "settles env (t, m) tm'" "list_all (entry_of t) sps"
    and "list_all (entry_of (fst tm')) sps \<Longrightarrow> settles env tm' tm''"
  shows "settles env (t, m) tm''"
  using assms entries_settle [of "(t, m)" sps env tm'] settles_trans by auto

lemma sendPerEvent_settles:
  "list_all (entry_of (fst tm)) batch \<Longrightarrow> settles env tm (snd (sendPerEvent env batch tm))"
proof (induction batch arbitrary: tm)
  case (Cons sp sps)
  obtain t m where tm: "tm = (t, m)" by (cases tm)
  let ?t = "t\<lparr>posts := posts t @ [(''/v1/telemetry'', sp_event sp)]\<rparr>"
  have ents: "entry_of ?t sp" "list_all (entry_of ?t) sps" "settles env (t, m) (?t, m)"
    using Cons.prems settles_posted(1) [of env t m] by (auto simp: tm entry_of_def list_all_iff)
  have next_one: "settles env (t, m) (snd (sendPerEvent env sps tm'))" if "settles env (?t, m) tm'" for tm'
    using settles_trans [OF ents(3) settles_step [OF that ents(2) Cons.IH]] .
  have failed: "settles env (t, m) (?t, Add ExportErrors 1 m)"
    using ents(3) by (simp add: settles_def spool_exact_def Add_def)
  show ?case
  proof (cases "reply_to env (length (posts t))")
    case Unreached
    then show ?thesis using failed by (simp add: tm post_def)
  next
    case (Answered status ack read_ok)
    let ?m = "Add ExportErrors 1 m"
    show ?thesis
    proof (cases "\<not> read_ok \<or> status \<noteq> 200 \<or>
        Option.bind (json_parse (take 8193 ack)) (dec_struct id_field []) \<noteq> Some (sp_id sp)")
      case True
      have "settles env (?t, m) (tel_remove env sp (?t, Add Dropped 1 ?m))"
        using remove_dropped [OF ents(1), of env ?m] by simp
      then show ?thesis
        using True Answered failed by (auto simp: tm post_def Let_def intro!: next_one)
    next
      case False
      have "acknowledged env ?t (sp_id sp)"
        using False Answered by (auto simp: acknowledged_def acks_def intro!: exI [of _ "length (posts t)"])
      then have "settles env (?t, m) (tel_remove env sp (?t, m))" using remove_acked [OF ents(1)] by simp
      then show ?thesis using False Answered by (simp add: tm post_def Let_def next_one)
    qed
  qed
qed simp

lemma settle_batch_settles:
  assumes "list_all (entry_of (fst tm)) batch" "\<forall>i \<in> set ok. acknowledged env (fst tm) i"
  shows "settles env tm (settle_batch env ok batch tm)"
  using assms unfolding settle_batch_def
proof (induction batch arbitrary: tm)
  case (Cons sp batch)
  obtain t m where tm: "tm = (t, m)" by (cases tm)
  let ?tm' = "if sp_id sp \<in> set ok then tel_remove env sp (t, m) else tel_remove env sp (t, Add Dropped 1 m)"
  have s: "settles env tm ?tm'"
    using Cons.prems remove_acked [of t sp env m] remove_dropped [of t sp env m] by (simp add: tm)
  then have "list_all (entry_of (fst ?tm')) batch" "\<forall>i \<in> set ok. acknowledged env (fst ?tm') i"
    using Cons.prems entries_settle [of tm batch env ?tm'] acknowledged_mono [of env "fst tm" _ "fst ?tm'"]
    by (auto simp: settles_def)
  then show ?case using Cons.IH settles_trans [OF s] by (simp add: tm)
qed simp

lemma send_settles:
  assumes "list_all (entry_of (fst tm)) batch"
  shows "settles env tm (snd (send env batch tm))"
proof -
  obtain t m where tm: "tm = (t, m)" by (cases tm)
  let ?t = "t\<lparr>posts := posts t @ [(''/v1/telemetry/batch'', batch_body batch)]\<rparr>"
  have ents: "list_all (entry_of ?t) batch" "list_all (entry_of (?t\<lparr>perEvent := True\<rparr>)) batch"
    using assms by (simp_all add: tm list_all_iff entry_of_def)
  have fallback: "settles env (t, m) (snd (sendPerEvent env batch (?t\<lparr>perEvent := True\<rparr>, m)))"
    by (rule settles_trans [OF _ sendPerEvent_settles]) (use ents(2) settles_posted(2) [of env t m] in simp_all)
  have failed: "settles env (t, m) (?t, Add ExportErrors 1 m)"
    using settles_posted(1) [of env t m] by (simp add: settles_def spool_exact_def Add_def)
  have settled: "settles env (t, m) (settle_batch env ok batch (?t, m))"
    if "\<forall>i \<in> set ok. acknowledged env ?t i" for ok
    by (rule settles_trans [OF _ settle_batch_settles]) (use that ents(1) settles_posted(1) [of env t m] in simp_all)
  show ?thesis
  proof (cases "perEvent t")
    case True
    then show ?thesis using assms sendPerEvent_settles by (auto simp: tm send_def)
  next
    case False
    show ?thesis
    proof (cases "reply_to env (length (posts t))")
      case Unreached
      then show ?thesis using False failed by (simp add: tm send_def post_def)
    next
      case (Answered status ack read_ok)
      have acked: "\<forall>i \<in> set ok. acknowledged env ?t i"
        if "status = 200" "Option.bind (json_parse (take (2 ^ 20) ack)) (dec_struct accepted_field None) = Some (Some ok)" for ok
        using Answered that by (auto simp: acknowledged_def acks_def intro!: exI [of _ "length (posts t)"])
      then show ?thesis
        using False Answered fallback failed settled
        by (auto simp: tm send_def post_def Let_def split: option.splits simp del: power_numeral)
    qed
  qed
qed

lemma deliver_run_settles:
  assumes "list_all (entry_of t) batch"
  shows "settles env (t, m) (deliver_run env fs batch n k (t, m))"
  using assms
proof (induction fs arbitrary: batch n k t m)
  case Nil
  then show ?case using send_settles [of "(t, m)" batch env] by simp
next
  case (Cons nf fs)
  obtain name f where nf: "nf = (name, f)" by (cases nf)
  have skip: "settles env (t, m) (deliver_run env fs batch n k (t, Add DiskErrors 1 m))"
    using Cons.IH [OF Cons.prems, of "Add DiskErrors 1 m" n k] by simp
  show ?case
  proof (cases "readable env name \<and> (\<exists>g e. map_of (spool t) name = Some g \<and> length (content g) \<le> 8192 \<and> event_unmarshal (content g) = Some e)")
    case True
    then obtain g e where g: "readable env name" "map_of (spool t) name = Some g" "length (content g) \<le> 8192" "event_unmarshal (content g) = Some e"
      by auto
    let ?sp = "\<lparr>sp_path = name, sp_id = ID e, sp_size = int (length (content g)), sp_event = content g\<rparr>"
    have b: "list_all (entry_of t) (batch @ [?sp])"
      using Cons.prems g by (simp add: entry_of_def [of t ?sp] file_id_def size_of_def)
    have sent: "settles env (t, m) (snd (send env (batch @ [?sp]) (t, m)))" using send_settles b by fastforce
    have "settles env (t, m) (deliver_run env fs [] 0 (k + 1) (snd (send env (batch @ [?sp]) (t, m))))"
      using settles_trans [OF sent] Cons.IH [of "fst (snd (send env (batch @ [?sp]) (t, m)))" "[]"
          "snd (snd (send env (batch @ [?sp]) (t, m)))" 0 "k + 1"] by simp
    then show ?thesis
      using Cons.IH [OF Cons.prems] Cons.IH [OF b] g sent by (auto simp: nf Let_def split: prod.splits)
  next
    case False
    then show ?thesis
      using skip Cons.IH [OF Cons.prems] by (auto simp: nf split: option.splits)
  qed
qed

lemma deliver_settles: "settles env tm (deliver env tm)"
proof (cases "listable env")
  case True
  then show ?thesis using deliver_run_settles [of "fst tm" "[]" env "snd tm"] by (simp add: deliver_def)
qed (simp add: deliver_def settles_def spool_exact_def Add_def)

section \<open>The size of a delivery\<close>

definition small_posts :: "Telemetry \<Rightarrow> bool" where
  "small_posts t \<longleftrightarrow> list_all (\<lambda>(path, body). length body \<le> 65747) (posts t)"

definition batch_small :: "spooled list \<Rightarrow> nat \<Rightarrow> bool" where
  "batch_small batch n \<longleftrightarrow>
     n = sum_list (map (length \<circ> sp_event) batch) \<and> list_all (\<lambda>sp. length (sp_event sp) \<le> 8192) batch"

lemma length_intersperse:
  "length (intersperse [c] xs) = sum_list (map length xs) + (length xs - 1)"
  by (induction "[c]" xs rule: intersperse.induct) auto

lemma batch_body_small:
  assumes "batch_small batch n" "n \<le> 65535" "length batch \<le> 200"
  shows "length (batch_body batch) \<le> 65747"
  using assms by (simp add: batch_body_def length_intersperse batch_small_def comp_def)

lemma tel_remove_posts [simp]: "posts (fst (tel_remove env sp tm)) = posts (fst tm)"
  by (simp add: tel_remove_def split: prod.splits)

lemma sendPerEvent_small:
  "list_all (\<lambda>sp. length (sp_event sp) \<le> 8192) batch \<Longrightarrow> small_posts (fst tm) \<Longrightarrow>
   small_posts (fst (snd (sendPerEvent env batch tm)))"
proof (induction env batch tm rule: sendPerEvent.induct)
  case (2 env sp sps t m)
  have "small_posts (t\<lparr>posts := posts t @ [(''/v1/telemetry'', sp_event sp)]\<rparr>)"
    using 2(3,4) by (simp add: small_posts_def)
  then show ?case
    using 2 by (auto simp: post_def Let_def small_posts_def split: reply.splits)
qed simp

lemma settle_batch_posts: "posts (fst (settle_batch env ok batch tm)) = posts (fst tm)"
  unfolding settle_batch_def by (induction batch arbitrary: tm) (auto simp: split: prod.splits)

lemma send_small:
  assumes "batch_small batch n" "n \<le> 65535" "length batch \<le> 200" "small_posts (fst tm)"
  shows "small_posts (fst (snd (send env batch tm)))"
proof -
  obtain t m where tm: "tm = (t, m)" by (cases tm)
  let ?t = "t\<lparr>posts := posts t @ [(''/v1/telemetry/batch'', batch_body batch)]\<rparr>"
  have small: "small_posts ?t" "small_posts (?t\<lparr>perEvent := True\<rparr>)"
    using assms(4) batch_body_small [OF assms(1-3)] by (simp_all add: small_posts_def tm)
  have evs: "list_all (\<lambda>sp. length (sp_event sp) \<le> 8192) batch" using assms(1) by (simp add: batch_small_def)
  have settled: "small_posts (fst (settle_batch env ok batch (?t, m)))" for ok
    using small(1) settle_batch_posts [of env ok batch "(?t, m)"] by (simp add: small_posts_def)
  have fallback: "small_posts (fst (snd (sendPerEvent env batch (?t\<lparr>perEvent := True\<rparr>, m))))"
    using sendPerEvent_small [OF evs] small(2) by simp
  show ?thesis
    using small(1) settled fallback sendPerEvent_small [OF evs assms(4)]
    by (auto simp: tm send_def post_def Let_def split: reply.splits option.splits simp del: power_numeral)
qed

lemma deliver_run_small:
  assumes "batch_small batch n" "n < deliverBytes" "length batch < deliverBatch" "small_posts t"
  shows "small_posts (fst (deliver_run env fs batch n k (t, m)))"
  using assms
proof (induction fs arbitrary: batch n k t m)
  case Nil
  then show ?case using send_small [of batch n "(t, m)" env] by (simp add: deliverBytes_def deliverBatch_def)
next
  case (Cons nf fs)
  obtain name f where nf: "nf = (name, f)" by (cases nf)
  have skip: "small_posts (fst (deliver_run env fs batch n k (t, m')))" for m'
    using Cons.IH Cons.prems by blast
  have none: "batch_small [] 0" "0 < deliverBytes" "length ([] :: spooled list) < deliverBatch"
    by (simp_all add: batch_small_def deliverBytes_def deliverBatch_def)
  have taken: "small_posts (fst (let batch' = batch @ [sp]; n' = n + length (sp_event sp)
      in if length batch' < deliverBatch \<and> n' < deliverBytes then deliver_run env fs batch' n' k (t, m)
         else let (ok, tm) = send env batch' (t, m) in if \<not> ok then tm else deliver_run env fs [] 0 (k + 1) tm))"
    if "length (sp_event sp) \<le> 8192" for sp
  proof -
    have b: "batch_small (batch @ [sp]) (n + length (sp_event sp))"
      using Cons.prems(1) that by (simp add: batch_small_def)
    have "small_posts (fst (snd (send env (batch @ [sp]) (t, m))))"
      using send_small [OF b] Cons.prems that by (simp add: deliverBytes_def deliverBatch_def)
    then show ?thesis
      using Cons.IH [OF b] Cons.IH [OF none] Cons.prems(4) by (auto simp: Let_def split: prod.splits)
  qed
  show ?case
    using skip taken [of "\<lparr>sp_path = name, sp_id = i, sp_size = j, sp_event = b\<rparr>" for i j b] Cons.prems(4)
    by (auto simp: nf Let_def split: option.splits)
qed

lemma deliver_small: "small_posts (fst tm) \<Longrightarrow> small_posts (fst (deliver env tm))"
  using deliver_run_small [of "[]" 0 "fst tm" env _ 0 "snd tm"]
  by (simp add: deliver_def batch_small_def deliverBytes_def deliverBatch_def)

section \<open>A batch the receiver refuses\<close>

text \<open>An event of a given length, and a spool of eight of them.\<close>

definition padded :: "nat \<Rightarrow> bytes" where
  "padded n = json_print (JObj [(''id'', JStr (replicate n CHR ''a''))])"

lemma quote_as: "quote_body (replicate n CHR ''a'') = replicate n CHR ''a''"
  by (induction n) (simp_all add: escape_char_def)

lemma padded_length: "length (padded n) = n + 9"
proof -
  have "quote ''id'' = [CHR 0x22] @ ''id'' @ [CHR 0x22]" by code_simp
  then show ?thesis by (simp add: padded_def quote_def [of "replicate n CHR ''a''"] quote_as)
qed

lemma padded_decodes: "event_unmarshal (padded n) = Some (empty_Event\<lparr>ID := replicate n CHR ''a''\<rparr>)"
proof -
  have "ascii (replicate n CHR ''a'')" by (induction n) (simp_all add: ascii_def)
  then have "json_ok (JObj [(''id'', JStr (replicate n CHR ''a''))])" by (simp add: ascii_utf8_valid)
  then have "json_parse (padded n) = Some (JObj [(''id'', JStr (replicate n CHR ''a''))])"
    unfolding padded_def by (rule json_parse_print) (simp add: max_nesting_def)
  then show ?thesis
    by (simp add: event_unmarshal_def dec_struct_def Event_field_def key_is_plain plain_name_def is_upper_def)
qed

definition full_spool :: dir where
  "full_spool =
     map (\<lambda>n. (n, \<lparr>content = padded 8182, mtime = 0\<rparr>))
       [''1.json'', ''2.json'', ''3.json'', ''4.json'', ''5.json'', ''6.json'', ''7.json''] @
     [(''8.json'', \<lparr>content = padded 8183, mtime = 0\<rparr>)]"

definition deliverable :: "tel_env \<Rightarrow> Telemetry \<Rightarrow> bytes \<times> disk_file \<Rightarrow> bool" where
  "deliverable env t nf \<longleftrightarrow>
     (case nf of (n, f) \<Rightarrow> has_suffix ''.json'' n \<and> readable env n \<and> map_of (spool t) n = Some f \<and>
        length (content f) \<le> 8192 \<and> event_unmarshal (content f) \<noteq> None)"

definition spooled_of :: "bytes \<times> disk_file \<Rightarrow> spooled" where
  "spooled_of nf =
     (case nf of (n, f) \<Rightarrow> \<lparr>sp_path = n, sp_id = ID (the (event_unmarshal (content f))), sp_size = int (length (content f)),
        sp_event = content f\<rparr>)"

lemma deliver_gathers:
  assumes "list_all (deliverable env t) fs" "\<forall>k. \<not> cancelled env k"
    and "length batch + length fs < 200" "k + sum_list (map (\<lambda>(n, f). length (content f)) fs) < 57344"
  shows "deliver_run env (fs @ rest) batch k 0 (t, m) =
    deliver_run env rest (batch @ map spooled_of fs) (k + sum_list (map (\<lambda>(n, f). length (content f)) fs)) 0 (t, m)"
  using assms
proof (induction fs arbitrary: batch k)
  case (Cons nf fs)
  obtain n f where nf: "nf = (n, f)" by (cases nf)
  show ?case
    using Cons.prems Cons.IH [of "batch @ [spooled_of nf]" "k + length (content f)"]
    by (auto simp: nf deliverable_def spooled_of_def deliverBatches_def deliverBatch_def deliverBytes_def Let_def add.assoc)
qed simp

lemma full_spool_gathered:
  assumes "spool t = full_spool" "\<forall>n. readable env n" "\<forall>k. \<not> cancelled env k"
  shows "deliver_run env (ReadDir full_spool) [] 0 0 (t, m) = snd (send env (map spooled_of full_spool) (t, m))"
proof -
  have sorted: "ReadDir full_spool = full_spool"
    unfolding ReadDir_def
  proof (rule sort_key_id_if_sorted)
    show "sorted (map fst full_spool)" by (simp add: full_spool_def)
  qed
  have deliverable: "list_all (deliverable env t) full_spool"
    by (simp add: full_spool_def deliverable_def assms padded_length padded_decodes has_suffix_def has_prefix_def)
  let ?fs = "butlast full_spool" and ?l = "last full_spool"
  have split: "full_spool = ?fs @ [?l]" by (simp add: full_spool_def)
  have "deliver_run env (?fs @ [?l]) [] 0 0 (t, m) =
      deliver_run env [?l] (map spooled_of ?fs) (sum_list (map (\<lambda>(n, f). length (content f)) ?fs)) 0 (t, m)"
    using deliver_gathers [where env = env and t = t and fs = ?fs and batch = "[]" and k = 0 and rest = "[?l]" and m = m] deliverable assms(3)
    by (subst (asm) split) (simp add: full_spool_def padded_length)
  also have "\<dots> = snd (send env (map spooled_of full_spool) (t, m))"
    using assms deliverable
    by (simp add: full_spool_def deliverable_def spooled_of_def padded_length padded_decodes deliverBatches_def deliverBatch_def
        deliverBytes_def Let_def case_prod_unfold)
  finally show ?thesis using sorted split by simp
qed

lemma full_batch_length: "length (batch_body (map spooled_of full_spool)) = 65549"
  by (simp add: batch_body_def length_intersperse full_spool_def spooled_of_def padded_length)

lemma full_spool_stuck:
  assumes "spool t = full_spool" "\<not> perEvent t" "listable env" "\<forall>n. readable env n" "\<forall>k. \<not> cancelled env k"
    and "reply_to env (length (posts t)) = Answered 413 ack ok"
  shows "deliver env (t, m) =
    (t\<lparr>posts := posts t @ [(''/v1/telemetry/batch'', batch_body (map spooled_of full_spool))]\<rparr>, Add ExportErrors 1 m)"
  using full_spool_gathered [OF assms(1,4,5), of m] assms by (simp add: deliver_def send_def post_def)

section \<open>Labels and spans\<close>

text \<open>A rendered label value has no line break, and its only quotes are escaped.\<close>

fun label_unescape :: "bytes \<Rightarrow> bytes" where
  "label_unescape [] = []"
| "label_unescape [c] = [c]"
| "label_unescape (c # d # cs) =
     (if c = CHR 0x5C then (if d = CHR ''n'' then CHR 10 else d) # label_unescape cs else c # label_unescape (d # cs))"

lemma label_unescape_plain: "c \<noteq> CHR 0x5C \<Longrightarrow> label_unescape (c # cs) = c # label_unescape cs"
  by (cases cs) auto

lemma label_roundtrip: "label_unescape (label_escape s) = s"
  unfolding label_escape_def by (induction s) (auto simp: label_unescape_plain)

lemma label_one_line: "CHR 10 \<notin> set (label_escape s)"
  by (auto simp: label_escape_def)

lemma error_type_iff:
  "(\<exists>v. str_attr ''error.type'' v \<in> set (span_attrs e)) \<longleftrightarrow> ev_Status e \<ge> 400 \<or> StreamFailed e"
  by (auto simp: span_attrs_def Let_def str_attr_def int_attr_def usage_attrs_def)

end
