(* ===== verification/Server.thy ===== *)
theory Server
  imports Circuit Learned Stream Telemetry Fault
begin

text \<open>
  The state the gateway shares between requests (\<open>Server\<close> in \<open>server.go\<close>) and the
  operations around the request handler: readiness, the startup check of the providers, the
  policy and fleet synchronisation, and the watch on the policy's expiry. Goroutines share
  the record; each operation is one atomic update of it. What the process asks of the
  outside (the environment, SHA-256, dates, Ed25519) is the record \<open>world\<close>.
\<close>

section \<open>State\<close>

record world =
  sha :: hash
  parse_time :: "bytes \<Rightarrow> instant option"
  ed :: ed_verify
  os :: host
  wire_out :: transport

record Server =
  C :: Config
  Policies :: PolicyStore
  disk :: files
  metrics :: counters
  route_table :: routeTable
  tel :: "Telemetry option"
  slots :: int
  rate_limit :: bucket
  retry :: bucket
  circuits :: "bytes \<Rightarrow> circuit"
  budgets :: budgetTable
  prefixes :: "prefixCache option"
  fleet :: "fleetHealth option"
  instanceID :: bytes
  reported :: "(bytes \<times> fault) list"
  temps :: temperatureTable
  Idem :: "idemStore option"
  Captures :: "captureStore option"
  Draining :: bool
  unhealthy :: "bytes list"
  syncState :: bytes
  expiryState :: bytes

definition New ::
  "Config \<Rightarrow> PolicyStore \<Rightarrow> files \<Rightarrow> counters \<Rightarrow> Telemetry option \<Rightarrow> idemStore option \<Rightarrow> captureStore option \<Rightarrow>
   bytes \<Rightarrow> instant \<Rightarrow> Server" where
  "New c p fs m t idem cap iid now =
     \<lparr>C = c, Policies = p, disk = fs, metrics = m, route_table = Mapping.empty, tel = t, slots = 0,
      rate_limit = newBucket now (Rate c) (Burst c), retry = newBucket now (RetryRate c) (RetryRate c),
      circuits = (\<lambda>_. new_circuit), budgets = newBudgetTable, prefixes = promptCacheFor c, fleet = fleetFor c,
      instanceID = iid, reported = [], temps = newTemperatureTable, Idem = idem, Captures = cap,
      Draining = False, unhealthy = [], syncState = [], expiryState = []\<rparr>"

abbreviation count_metric :: "counter \<Rightarrow> Server \<Rightarrow> Server" where
  "count_metric k s \<equiv> s\<lparr>metrics := Add k 1 (metrics s)\<rparr>"

definition on_circuit :: "bytes \<Rightarrow> (circuit \<Rightarrow> circuit) \<Rightarrow> Server \<Rightarrow> Server" where
  "on_circuit p f s = s\<lparr>circuits := (circuits s)(p := f (circuits s p))\<rparr>"

section \<open>Readiness and health\<close>

definition share :: "bytes \<Rightarrow> fault \<Rightarrow> Server \<Rightarrow> Server" where
  "share provider f s =
     (if fleet s = None \<or> \<not> shareable f then s else s\<lparr>reported := AList.update provider f (reported s)\<rparr>)"

definition drainReports :: "Server \<Rightarrow> (bytes \<times> fault) list \<times> Server" where
  "drainReports s = (if fleet s = None then ([], s) else (reported s, s\<lparr>reported := []\<rparr>))"

definition notReady :: "instant \<Rightarrow> Server \<Rightarrow> bytes" where
  "notReady now s =
     (if Draining s then ''draining''
      else
        case Current now (Policies s) of
          Some p \<Rightarrow>
            if list_ex (\<lambda>r. map_of (Providers (C s)) (Provider r) \<noteq> None) (Routes p) then []
            else ''policy v'' @ itoa (Version p) @ '' names no provider this gateway has configured''
        | None \<Rightarrow>
            if Expired now (Policies s) then ''the cached policy expired and no newer one has been accepted''
            else if syncState s \<noteq> [] then ''no policy yet: '' @ syncState s
            else if ControlURL (C s) = [] then ''no policy: none cached, and no control plane is configured to fetch one''
            else ''no policy yet: waiting for the first control-plane sync to succeed'')"

definition ready :: "instant \<Rightarrow> Server \<Rightarrow> bool" where
  "ready now s \<longleftrightarrow> notReady now s = []"

definition anyUnhealthy :: "Server \<Rightarrow> bool" where
  "anyUnhealthy s \<longleftrightarrow> unhealthy s \<noteq> []"

definition readyzReason :: "instant \<Rightarrow> Server \<Rightarrow> bytes" where
  "readyzReason now s =
     (if notReady now s \<noteq> [] then notReady now s
      else if ProviderCheckStrict (C s) \<and> anyUnhealthy s
      then ''a configured provider failed its startup check and provider_check_strict is set''
      else [])"

definition readyz :: "instant \<Rightarrow> Server \<Rightarrow> bool" where
  "readyz now s \<longleftrightarrow> readyzReason now s = []"

definition markUnhealthy :: "bytes \<Rightarrow> Server \<Rightarrow> Server" where
  "markUnhealthy provider s = s\<lparr>unhealthy := List.insert provider (unhealthy s)\<rparr>"

definition markHealthy :: "bytes \<Rightarrow> Server \<Rightarrow> Server" where
  "markHealthy provider s =
     (if unhealthy s \<noteq> [] then s\<lparr>unhealthy := removeAll provider (unhealthy s)\<rparr> else s)"

definition authorized :: "world \<Rightarrow> bytes \<Rightarrow> Server \<Rightarrow> bool" where
  "authorized w header s \<longleftrightarrow> sha w header = sha w (''Bearer '' @ Getenv (os w) (LocalTokenEnv (C s)))"

fun split_on :: "char \<Rightarrow> bytes \<Rightarrow> bytes \<Rightarrow> bytes list" where
  "split_on c a [] = [rev a]"
| "split_on c a (x # xs) = (if x = c then rev a # split_on c [] xs else split_on c (x # a) xs)"

definition is_hex :: "bytes \<Rightarrow> bool" where
  "is_hex s \<longleftrightarrow> even (length s) \<and> list_all (\<lambda>c. hex_digit c \<noteq> None) s"

definition traceIDs :: "bytes \<Rightarrow> bytes \<Rightarrow> bytes \<times> bytes" where
  "traceIDs fresh h =
     (case split_on (CHR ''-'') [] h of
        [v, t, p, fl] \<Rightarrow>
          if v = ''00'' \<and> length t = 32 \<and> length p = 16 \<and> length fl = 2 \<and> is_hex t \<and> is_hex p \<and> is_hex fl
             \<and> list_ex (\<lambda>c. c \<noteq> CHR ''0'') t \<and> list_ex (\<lambda>c. c \<noteq> CHR ''0'') p
          then (go_to_lower t, go_to_lower p) else (fresh, [])
      | _ \<Rightarrow> (fresh, []))"

definition streams :: "bytes \<Rightarrow> bool" where
  "streams p = True"

definition routable :: "instant \<Rightarrow> Route \<Rightarrow> bool \<Rightarrow> Server \<Rightarrow> bool" where
  "routable now route streaming s =
     (if map_of (Providers (C s)) (Provider route) = None then False
      else if streaming \<and> \<not> streams (Provider route) then False
      else circuit_wouldAllow now (circuits s (Provider route)))"

section \<open>The startup check\<close>

record http_response =
  StatusCode :: int
  RetryAfter :: bytes
  payload :: stream_response

datatype http_result = TransportError | Responded http_response

datatype probe_reason = NotBuilt upstream_error | Unreachable | CredentialsRejected bytes | AccountCannotServe bytes

definition ping :: Chat where
  "ping = empty_Chat\<lparr>MaxTokens := 8, Messages := [\<lparr>Role = ''user'', Content = ''ping''\<rparr>]\<rparr>"

definition probeOne :: "world \<Rightarrow> http_result \<Rightarrow> Route \<Rightarrow> ProviderConfig \<Rightarrow> probe_reason option" where
  "probeOne w res route pc =
     (case upstream (wire_out w) (os w) ping route pc of
        Inl e \<Rightarrow> Some (NotBuilt e)
      | Inr req \<Rightarrow>
          (case res of
             TransportError \<Rightarrow> Some Unreachable
           | Responded r \<Rightarrow>
               let body = take (2 ^ 16) (body_bytes (payload r)) in
               if StatusCode r = 200 then None
               else if StatusCode r = 401 \<or> StatusCode r = 403 then Some (CredentialsRejected (providerReason body))
               else if classify (StatusCode r) body = faultAccount then Some (AccountCannotServe (providerReason body))
               else None))"

text \<open>\<open>awaitPolicy\<close> polls once a second; the polls before the context ends are given.\<close>

fun awaitPolicy :: "(instant \<times> PolicyStore) list \<Rightarrow> Policy option" where
  "awaitPolicy [] = None"
| "awaitPolicy ((now, ps) # polls) = (case Current now ps of Some p \<Rightarrow> Some p | None \<Rightarrow> awaitPolicy polls)"

fun probe_routes ::
  "world \<Rightarrow> (bytes \<Rightarrow> instant \<times> http_result) \<Rightarrow> bytes list \<Rightarrow> Route list \<Rightarrow> Server \<Rightarrow> Server" where
  "probe_routes w answers done [] s = s"
| "probe_routes w answers done (route # routes) s =
     (if Provider route \<in> set done then probe_routes w answers done routes s
      else
        let done = Provider route # done in
        case map_of (Providers (C s)) (Provider route) of
          None \<Rightarrow> probe_routes w answers done routes s
        | Some pc \<Rightarrow>
            let (now, res) = answers (Provider route) in
            if probeOne w res route pc \<noteq> None then
              probe_routes w answers done routes
                (on_circuit (Provider route) (circuit_cooldown now accountCooldown)
                  (markUnhealthy (Provider route) (count_metric ProviderProbeFailed s)))
            else probe_routes w answers done routes s)"

definition ProbeProviders ::
  "world \<Rightarrow> (instant \<times> PolicyStore) list \<Rightarrow> (bytes \<Rightarrow> instant \<times> http_result) \<Rightarrow> Server \<Rightarrow> Server" where
  "ProbeProviders w polls answers s =
     (case awaitPolicy polls of None \<Rightarrow> s | Some p \<Rightarrow> probe_routes w answers [] (Routes p) s)"

section \<open>Synchronisation with the control plane\<close>

definition noteSync :: "bytes \<Rightarrow> Server \<Rightarrow> Server" where
  "noteSync reason s = (if syncState s = reason then s else s\<lparr>syncState := reason\<rparr>)"

definition syncHint :: "int \<Rightarrow> bytes" where
  "syncHint status =
     (if status = 401 then ''the control token is wrong, unregistered, or its principal has been revoked or expired''
      else if status = 403 then ''this principal exists but lacks the agent role''
      else if status = 404 then ''no policy has been published for this tenant yet''
      else if status = 503 then ''the control plane reached an internal fault; check its own logs''
      else ''see the control plane'' @ [CHR 0x27] @ ''s logs for this request'')"

definition policy_request :: "world \<Rightarrow> Server \<Rightarrow> request" where
  "policy_request w s =
     \<lparr>req_url = trimURL (ControlURL (C s)) @ ''/v1/policy?max_schema='' @ itoa policySchema, req_body = [],
      req_headers = [(''Authorization'', ''Bearer '' @ Getenv (os w) (ControlTokenEnv (C s)))]\<rparr>"

definition syncOnce :: "world \<Rightarrow> instant \<Rightarrow> reply \<Rightarrow> file_script \<Rightarrow> bytes \<Rightarrow> Server \<Rightarrow> Server" where
  "syncOnce w now r io tmp s =
     (case r of
        Unreached \<Rightarrow> noteSync ''control plane unreachable'' (count_metric PolicyErrors s)
      | Answered status body read_ok \<Rightarrow>
          if \<not> read_ok then
            noteSync ''control plane response could not be read'' (count_metric PolicyErrors s)
          else if status \<noteq> 200 then
            noteSync ''control plane refused the policy request'' (count_metric PolicyErrors s)
          else
            let (err, ps, fs) = Apply (ed w) now io tmp (take 65537 body) True (Policies s) (disk s);
                s = s\<lparr>Policies := ps, disk := fs\<rparr>
            in if err \<noteq> None then noteSync ''policy rejected'' (count_metric PolicyErrors s)
               else noteSync [] s)"

definition fleet_entry_field :: "bytes \<Rightarrow> json \<Rightarrow> fleet_entry \<Rightarrow> fleet_entry option" where
  "fleet_entry_field k v e =
     (if key_is ''provider'' k then map_option (\<lambda>x. e\<lparr>fe_provider := x\<rparr>) (dec_string (fe_provider e) v)
      else if key_is ''fault'' k then map_option (\<lambda>x. e\<lparr>fe_fault := x\<rparr>) (dec_string (fe_fault e) v)
      else if key_is ''seconds'' k then map_option (\<lambda>x. e\<lparr>fe_seconds := x\<rparr>) (dec_int (fe_seconds e) v)
      else Some e)"

definition fleet_answer_field :: "bytes \<Rightarrow> json \<Rightarrow> fleet_entry list \<Rightarrow> fleet_entry list option" where
  "fleet_answer_field k v us =
     (if key_is ''unhealthy'' k
      then dec_slice (dec_struct fleet_entry_field) \<lparr>fe_provider = [], fe_fault = [], fe_seconds = 0\<rparr> us v
      else Some us)"

text \<open>A stream decoder reads the first value and leaves the rest: the shortest prefix that is a value.\<close>

definition json_first :: "bytes \<Rightarrow> json option" where
  "json_first b = Option.bind (find (\<lambda>n. json_parse (take n b) \<noteq> None) [0..<Suc (length b)]) (\<lambda>n. json_parse (take n b))"

definition fleet_body :: "bytes \<Rightarrow> (bytes \<times> fault) list \<Rightarrow> json" where
  "fleet_body iid reports = JObj
     [(''instance_id'', JStr iid),
      (''reports'', JArr (map (\<lambda>(p, f). JObj [(''fault'', JStr (fault_String f)), (''provider'', JStr p),
         (''ttl_seconds'', JNum (itoa (fleetHintMax div second)))]) reports))]"

definition fleetSyncOnce :: "instant \<Rightarrow> reply \<Rightarrow> Server \<Rightarrow> json option \<times> Server" where
  "fleetSyncOnce now r s =
     (if fleet s = None \<or> ControlURL (C s) = [] then (None, s)
      else
        let (reports, s) = drainReports s;
            body = fleet_body (instanceID s) reports
        in (Some body,
            case r of
              Unreached \<Rightarrow> s
            | Answered status ack read_ok \<Rightarrow>
                if status \<noteq> 200 then s
                else
                  case Option.bind (json_first (take (2 ^ 16) ack)) (dec_struct fleet_answer_field []) of
                    None \<Rightarrow> s
                  | Some us \<Rightarrow>
                      let nxt = fleet_reports us in
                      s\<lparr>fleet := map_option (fleet_apply now nxt fleetHintMax) (fleet s),
                        metrics := Store FleetHints (int (Mapping.size nxt)) (metrics s)\<rparr>))"

section \<open>The policy's remaining time\<close>

definition policyExpiryWarn :: duration where
  "policyExpiryWarn = 48 * hour"

definition trunc :: "rat \<Rightarrow> int" where
  "trunc r = (if r < 0 then - \<lfloor>- r\<rfloor> else \<lfloor>r\<rfloor>)"

definition samplePolicyExpiry :: "instant \<Rightarrow> Server \<Rightarrow> Server" where
  "samplePolicyExpiry now s =
     (let expires = store_ExpiresAt (Policies s) in
      if expires = 0 then s
      else
        let left = time_sub (from_unix expires) now;
            s = s\<lparr>metrics := Store PolicyExpiresIn (trunc (duration_Seconds left)) (metrics s)\<rparr>;
            band = (if left \<le> 0 then ''expired'' else if left \<le> policyExpiryWarn then ''expiring'' else ''ok'')
        in if expiryState s = band then s else s\<lparr>expiryState := band\<rparr>)"

end
