(* ===== verification/Handler.thy ===== *)
theory Handler
  imports Server
begin

text \<open>
  The request handler (\<open>Server.chat\<close> in \<open>server.go\<close>), from the admission checks to the
  deferred bookkeeping. The handler is cut where the code has its early returns; the routing
  loop is a recursive function over the index of the route. Everything the handler does
  not decide itself is in \<open>chat_env\<close>: the request, the identifiers drawn, and for every
  turn of the loop the clock, what the provider answers, whether a deadline passes, and what
  other goroutines do to the shared state meanwhile. Every request given to the HTTP client
  is recorded in \<open>sent_log\<close>, everything written to the caller in \<open>client_log\<close>.
\<close>

section \<open>State\<close>

record emptyRoute =
  er_provider :: bytes
  er_model :: bytes
  er_budget :: int
  er_reasoning :: int

definition emptyRoute_String :: "emptyRoute \<Rightarrow> bytes" where
  "emptyRoute_String e =
     (if er_reasoning e > 0 then
        er_provider e @ ''/'' @ er_model e @ '' spent all '' @ itoa (er_reasoning e) @
        '' tokens on internal reasoning and returned none''
      else er_provider e @ ''/'' @ er_model e @ '' returned no output'')"

record turn =
  turn_others :: "Server \<Rightarrow> Server"
  turn_now :: instant
  jitter_done :: bool
  first_answer :: http_result
  second_answer :: http_result
  answer_others :: "Server \<Rightarrow> Server"
  answer_now :: instant
  client_gone :: bool
  wait_done :: bool
  idem_fate :: write_fate
  turn_accepts :: "nat \<Rightarrow> bool"

record chat_env =
  world_of :: world
  auth_header :: bytes
  traceparent :: bytes
  idem_key :: bytes
  req_bytes :: bytes
  req_unreadable :: bool
  start_at :: instant
  route_at :: instant
  end_at :: instant
  fresh_id :: bytes
  fresh_event :: bytes
  fresh_trace :: bytes
  fresh_span :: bytes
  claim_fate :: write_fate
  capture_fate :: write_fate
  turns :: "nat \<Rightarrow> turn"

record chat_state =
  srv :: Server
  event :: Event
  headers :: "(bytes \<times> bytes) list"
  client_log :: "client_write list"
  sent_log :: "(Route \<times> request) list"
  empties :: "emptyRoute list"
  retriedRoute :: "nat list"
  idemSettled :: bool
  capturedPrompt :: "bytes option"
  capturedCompletion :: "json option"
  capturedText :: bytes

abbreviation on_srv :: "(Server \<Rightarrow> Server) \<Rightarrow> chat_state \<Rightarrow> chat_state" where
  "on_srv f st \<equiv> st\<lparr>srv := f (srv st)\<rparr>"

abbreviation on_event :: "(Event \<Rightarrow> Event) \<Rightarrow> chat_state \<Rightarrow> chat_state" where
  "on_event f st \<equiv> st\<lparr>event := f (event st)\<rparr>"

definition set_header :: "bytes \<Rightarrow> bytes \<Rightarrow> chat_state \<Rightarrow> chat_state" where
  "set_header k v st = st\<lparr>headers := AList.update k v (headers st)\<rparr>"

definition del_header :: "bytes \<Rightarrow> chat_state \<Rightarrow> chat_state" where
  "del_header k st = st\<lparr>headers := AList.delete k (headers st)\<rparr>"

definition count_chat :: "counter \<Rightarrow> chat_state \<Rightarrow> chat_state" where
  "count_chat k = on_srv (count_metric k)"

definition problem :: "int \<Rightarrow> problem_text \<Rightarrow> chat_state \<Rightarrow> chat_state" where
  "problem status msg st =
     (let st = set_header ''Content-Type'' ''application/json''
                 (del_header ''X-Accel-Buffering'' (del_header ''Cache-Control'' st))
      in st\<lparr>client_log := client_log st @ [WProblem status msg]\<rparr>)"

definition fail :: "int \<Rightarrow> problem_text \<Rightarrow> chat_state \<Rightarrow> chat_state" where
  "fail status msg st = problem status msg (on_event (ev_Status_update (\<lambda>_. status)) st)"

section \<open>Idempotency in the handler\<close>

definition idem_settle :: "chat_env \<Rightarrow> write_fate \<Rightarrow> instant \<Rightarrow> idemEntry \<Rightarrow> chat_state \<Rightarrow> chat_state" where
  "idem_settle env w now e st =
     (if idem_key env = [] then st
      else
        case Idem (srv st) of
          None \<Rightarrow> st
        | Some i \<Rightarrow>
            let (i, m) = idem_finish (sha (world_of env)) w now (idem_key env) e (i, metrics (srv st))
            in st\<lparr>srv := (srv st)\<lparr>Idem := Some i, metrics := m\<rparr>, idemSettled := True\<rparr>)"

definition settleUnknown :: "chat_env \<Rightarrow> write_fate \<Rightarrow> instant \<Rightarrow> chat_state \<Rightarrow> chat_state" where
  "settleUnknown env w now =
     idem_settle env w now
       (empty_idemEntry\<lparr>State := idemUnknown, BodyHash := hashBody (sha (world_of env)) (req_bytes env), Stored := unix now\<rparr>)"

definition replay :: "chat_env \<Rightarrow> idemEntry \<Rightarrow> chat_state \<Rightarrow> chat_state" where
  "replay env e st =
     (let st = on_event (\<lambda>ev. ev\<lparr>ev_Status := entry_Status e, Replayed := True\<rparr>) st;
          st = set_header ''X-Switchboard-Replayed'' ''true'' st
      in if \<not> entry_Stream e then
           (let st = set_header ''Content-Type'' ''application/json'' st
            in st\<lparr>client_log := client_log st @
                 [WBody (entry_Status e) (Response e)]\<rparr>)
         else
           (let st = set_header ''X-Accel-Buffering'' ''no'' (set_header ''Cache-Control'' ''no-cache''
                       (set_header ''Content-Type'' ''text/event-stream'' st))
            in st\<lparr>client_log := client_log st @
                 [WChunk (chunk (ev_RequestID (event st)) \<lparr>Provider = [], Model = []\<rparr>
                            (empty_normalized\<lparr>Text := entry_Text e, n_Finish := entry_Finish e\<rparr>) (unix (start_at env))),
                  WDone]\<rparr>))"

section \<open>One turn of the routing loop\<close>

text \<open>
  A turn ends by going on to the next route, by trying the same route again, by leaving the
  loop, or by returning. A stage of a turn either hands a value to the next stage or ends it.
\<close>

datatype flow = NextRoute | SameRoute | LeaveLoop | Returned

datatype 'a stage = Go 'a chat_state | Stop flow chat_state

fun and_then :: "'a stage \<Rightarrow> ('a \<Rightarrow> chat_state \<Rightarrow> 'b stage) \<Rightarrow> 'b stage" where
  "and_then (Go x st) f = f x st"
| "and_then (Stop fl st) f = Stop fl st"

text \<open>The checks before a route is taken: configured, not skipped, attempts left, breaker.\<close>

definition route_gate :: "turn \<Rightarrow> Chat \<Rightarrow> nat list \<Rightarrow> nat \<Rightarrow> Route \<Rightarrow> chat_state \<Rightarrow> ProviderConfig stage" where
  "route_gate tn c skip i route st =
     (let p = Provider route in
      case map_of (Providers (C (srv st))) p of
        None \<Rightarrow> Stop NextRoute st
      | Some pc \<Rightarrow>
          if i \<in> set skip then
            Stop NextRoute
              (on_event (\<lambda>ev. ev\<lparr>BudgetSkipped := BudgetSkipped ev @ [p @ '':'' @ Model route]\<rparr>) (count_chat BudgetSkip st))
          else if ev_Attempts (event st) \<ge> MaxAttempts (C (srv st)) then Stop LeaveLoop st
          else if Stream c \<and> \<not> streams p then Stop NextRoute st
          else
            let (ok, cc) = circuit_allow (turn_now tn) (circuits (srv st) p);
                st = on_srv (on_circuit p (\<lambda>_. cc)) st
            in if \<not> ok then Stop NextRoute st else Go pc st)"

text \<open>Anything after the first attempt needs the retry budget and survives a short wait.\<close>

definition retry_gate :: "turn \<Rightarrow> Route \<Rightarrow> chat_state \<Rightarrow> unit stage" where
  "retry_gate tn route st =
     (let p = Provider route in
      if ev_Attempts (event st) > 0 then
        (let (ok, b) = bucket_allow (turn_now tn) (retry (srv st));
             st = on_srv (\<lambda>s. s\<lparr>retry := b\<rparr>) st
         in if \<not> ok then Stop LeaveLoop (on_srv (on_circuit p circuit_release) st)
            else
              let st = count_chat Retries st in
              if jitter_done tn then
                Stop Returned (fail 504 (Plain ''deadline exceeded; generation outcome may be unknown'')
                  (on_srv (on_circuit p circuit_release) st))
              else Go () st)
      else Go () st)"

definition take_route :: "Route \<Rightarrow> chat_state \<Rightarrow> chat_state" where
  "take_route route =
     on_event (\<lambda>ev. ev\<lparr>ev_Attempts := ev_Attempts ev + 1, ev_Provider := Provider route, ev_Model := Model route\<rparr>)"

definition drop_temperature :: "turn \<Rightarrow> Chat \<Rightarrow> Route \<Rightarrow> chat_state \<Rightarrow> Chat \<times> chat_state" where
  "drop_temperature tn c route st =
     (if Temperature c = None then (c, st)
      else
        let (omit, t) = temperature_omit (turn_now tn) (Provider route) (Model route) (temps (srv st));
            st = on_srv (\<lambda>s. s\<lparr>temps := t\<rparr>) st
        in if omit then (c\<lparr>Temperature := None\<rparr>, count_chat TemperatureDropped st) else (c, st))"

definition mark_prompt :: "chat_env \<Rightarrow> turn \<Rightarrow> Route \<Rightarrow> Chat \<times> chat_state \<Rightarrow> Chat \<times> chat_state" where
  "mark_prompt env tn route cs =
     (let (sent, st) = cs in
      case (if Provider route = ''anthropic'' then prefixes (srv st) else None) of
        None \<Rightarrow> (sent, st)
      | Some pre \<Rightarrow>
          let (worth, pre) = worthCaching (sha (world_of env)) (turn_now tn) (systemOf sent) pre;
              st = on_srv (\<lambda>s. s\<lparr>prefixes := Some pre\<rparr>) st
          in if worth then
               (sent\<lparr>CacheSystem := True\<rparr>,
                set_header ''X-Switchboard-Prompt-Cache'' ''system'' (count_chat PromptCacheMarked st))
             else (sent, st))"

definition stamp_request :: "chat_state \<Rightarrow> request \<Rightarrow> request" where
  "stamp_request st req = req\<lparr>req_headers := req_headers req @ [(''X-Request-ID'', ev_RequestID (event st))]\<rparr>"

text \<open>Building a request and giving it to the HTTP client; a request that cannot be built ends the turn.\<close>

definition do_request :: "chat_env \<Rightarrow> Chat \<Rightarrow> Route \<Rightarrow> ProviderConfig \<Rightarrow> http_result \<Rightarrow> chat_state \<Rightarrow> http_result stage" where
  "do_request env sent route pc answer st =
     (case upstream (wire_out (world_of env)) (os (world_of env)) sent route pc of
        Inl e \<Rightarrow>
          Stop Returned (fail 500 (Plain ''adapter configuration'') (on_srv (on_circuit (Provider route) circuit_release) st))
      | Inr req \<Rightarrow> Go answer (st\<lparr>sent_log := sent_log st @ [(route, stamp_request st req)]\<rparr>))"

text \<open>
  The exchange with the provider. A refusal of the temperature alone is retried once without
  it. Reading a response for that check cuts its body at 65536 bytes.
\<close>

definition cut_body :: "http_response \<Rightarrow> http_response" where
  "cut_body r = r\<lparr>payload := (payload r)\<lparr>body_bytes := take (2 ^ 16) (body_bytes (payload r)), body_failed := False\<rparr>\<rparr>"

definition exchange ::
  "chat_env \<Rightarrow> turn \<Rightarrow> Chat \<Rightarrow> Route \<Rightarrow> ProviderConfig \<Rightarrow> chat_state \<Rightarrow> http_result stage" where
  "exchange env tn sent route pc st =
     and_then (do_request env sent route pc (first_answer tn) st) (\<lambda>res st.
       let st = on_srv (answer_others tn) st in
       case res of
         Responded r \<Rightarrow>
           if StatusCode r \<ge> 400 \<and> Temperature sent \<noteq> None then
             (let peek = take (2 ^ 16) (body_bytes (payload r)) in
              if rejectsTemperature (StatusCode r) peek then
                do_request env (sent\<lparr>Temperature := None\<rparr>) route pc (second_answer tn)
                  (count_chat TemperatureDropped
                    (on_srv (\<lambda>s. s\<lparr>temps := temperature_observe (answer_now tn) (Provider route) (Model route) (temps s)\<rparr>) st))
              else Go (Responded (cut_body r)) st)
           else Go res st
       | TransportError \<Rightarrow> Go TransportError st)"

definition transport_failed :: "chat_env \<Rightarrow> turn \<Rightarrow> Route \<Rightarrow> chat_state \<Rightarrow> flow \<times> chat_state" where
  "transport_failed env tn route st =
     (let st = on_srv (on_circuit (Provider route)
                 (if client_gone tn then circuit_release else circuit_result (answer_now tn) True)) st;
          st = settleUnknown env (idem_fate tn) (answer_now tn) st
      in (Returned, fail 502 (Plain ''provider transport failed; outcome unknown, no automatic replay'') st))"

text \<open>A rate limit: wait it out and try the same route, or cool down and move on.\<close>

definition rate_limited :: "turn \<Rightarrow> nat \<Rightarrow> Route \<Rightarrow> duration \<Rightarrow> chat_state \<Rightarrow> flow \<times> chat_state" where
  "rate_limited tn i route wait st =
     (let p = Provider route;
          st = count_chat RateLimited st;
          limit = wrap64 (RateLimitRetryMaxMs (C (srv st)) * millisecond)
      in if limit > 0 \<and> wait > 0 \<and> wait \<le> limit \<and> i \<notin> set (retriedRoute st)
            \<and> ev_Attempts (event st) < MaxAttempts (C (srv st)) then
           (let st = st\<lparr>retriedRoute := i # retriedRoute st\<rparr>;
                st = count_chat RateLimitRetry (on_srv (on_circuit p circuit_release) st)
            in if wait_done tn
               then (Returned, fail 504 (Plain ''deadline exceeded while waiting out a rate limit'') st)
               else (SameRoute, st))
         else if wait > 0 then (NextRoute, on_srv (on_circuit p (circuit_cooldown (answer_now tn) wait)) st)
         else (NextRoute, on_srv (on_circuit p circuit_release) st))"

definition caller_fault :: "int \<Rightarrow> bool" where
  "caller_fault status \<longleftrightarrow> status = 400 \<or> status = 422"

definition terminal_refusal :: "turn \<Rightarrow> Route \<Rightarrow> int \<Rightarrow> bytes \<Rightarrow> chat_state \<Rightarrow> flow \<times> chat_state" where
  "terminal_refusal tn route status errBody st =
     (let st = on_srv (on_circuit (Provider route)
                 (if caller_fault status then circuit_release else circuit_result (answer_now tn) True)) st;
          reason = providerReason errBody;
          msg = ''provider rejected request'' @ (if reason \<noteq> [] then '': '' @ reason else [])
      in (Returned,
          if caller_fault status then fail 400 (Plain msg) st else fail 502 (Plain (msg @ ''; not replayed'')) st))"

definition refused :: "chat_env \<Rightarrow> turn \<Rightarrow> nat \<Rightarrow> Route \<Rightarrow> http_response \<Rightarrow> chat_state \<Rightarrow> flow \<times> chat_state" where
  "refused env tn i route r st =
     (let p = Provider route;
          now = answer_now tn;
          errBody = take (2 ^ 16) (body_bytes (payload r));
          wait = retryAfter (parse_time (world_of env)) now (RetryAfter r);
          f = classify (StatusCode r) errBody;
          st = on_event (\<lambda>ev. ev\<lparr>ev_Fault := fault_String f\<rparr>) st
      in case f of
           faultAccount \<Rightarrow>
             (NextRoute, count_chat AccountFailover
               (on_srv (on_circuit p (circuit_cooldown now (max wait accountCooldown))) (on_srv (share p faultAccount) st)))
         | faultRateLimit \<Rightarrow> rate_limited tn i route wait st
         | faultDegraded \<Rightarrow>
             (let st = on_srv (on_circuit p (circuit_result now True)) (on_srv (share p faultDegraded) st)
              in (NextRoute, if wait > 0 then on_srv (on_circuit p (circuit_cooldown now wait)) st else st))
         | faultRefused \<Rightarrow>
             (NextRoute, count_chat RefusedFailover (on_srv (on_circuit p (circuit_cooldown now (max wait accountCooldown))) st))
         | faultTerminal \<Rightarrow> terminal_refusal tn route (StatusCode r) errBody st)"

text \<open>
  Status 200 commits the generation. A stream or a response that says nothing, without a
  byte written to the caller, is the one thing that still moves on.
\<close>

definition empty_answer :: "turn \<Rightarrow> Chat \<Rightarrow> Route \<Rightarrow> int \<Rightarrow> chat_state \<Rightarrow> chat_state" where
  "empty_answer tn c route reasoning st =
     (let st = on_srv (\<lambda>s. s\<lparr>budgets := budget_observe (answer_now tn) (Provider route) (Model route) (MaxTokens c) False (budgets s)\<rparr>) st
      in count_chat EmptyCompletion
           (st\<lparr>empties := empties st @ [\<lparr>er_provider = Provider route, er_model = Model route,
              er_budget = MaxTokens c, er_reasoning = reasoning\<rparr>]\<rparr>))"

definition full_answer :: "turn \<Rightarrow> Chat \<Rightarrow> Route \<Rightarrow> bytes \<Rightarrow> bytes \<Rightarrow> chat_state \<Rightarrow> chat_state" where
  "full_answer tn c route finish text st =
     (let st = on_srv (\<lambda>s. s\<lparr>budgets := budget_observeOutcome (answer_now tn) (Provider route) (Model route) (MaxTokens c)
                                finish text (budgets s)\<rparr>) st
      in if empties st \<noteq> [] then count_chat EmptyCompletionRecovered st else st)"

definition accept_headers :: "Route \<Rightarrow> chat_state \<Rightarrow> chat_state" where
  "accept_headers route st =
     set_header ''X-Switchboard-Attempts'' (itoa (ev_Attempts (event st)))
       (set_header ''X-Switchboard-Provider'' (Provider route) (on_srv (markHealthy (Provider route)) st))"

definition stream_typed :: "Route \<Rightarrow> stream_response \<Rightarrow> bool" where
  "stream_typed route r =
     (let ct = go_to_lower (ContentType r) in
      has_prefix ''text/event-stream'' ct \<or> Provider route = ''bedrock'' \<and> contains ct ''eventstream'')"

definition stream_headers :: "Route \<Rightarrow> stream_response \<Rightarrow> chat_state \<Rightarrow> chat_state" where
  "stream_headers route r st =
     (if stream_typed route r then
        set_header ''X-Accel-Buffering'' ''no'' (set_header ''Cache-Control'' ''no-cache''
          (set_header ''Content-Type'' ''text/event-stream'' st))
      else set_header ''Content-Type'' ''application/json''
             (del_header ''X-Accel-Buffering'' (del_header ''Cache-Control'' st)))"

definition accepted_stream :: "chat_env \<Rightarrow> turn \<Rightarrow> Chat \<Rightarrow> Route \<Rightarrow> http_response \<Rightarrow> chat_state \<Rightarrow> flow \<times> chat_state" where
  "accepted_stream env tn c route r st =
     (let p = Provider route;
          now = answer_now tn;
          (e, ss) = stream \<lparr>env_route = route, env_id = ev_RequestID (event st), env_created = unix (start_at env),
                             accepts = turn_accepts tn\<rparr> (payload r) (metrics (srv st)) (client_log st);
          st = stream_headers route (payload r) st;
          st = on_srv (\<lambda>s. s\<lparr>metrics := stream_counters ss\<rparr>) (st\<lparr>client_log := client ss\<rparr>)
      in if e = StreamEmpty then
           (NextRoute, empty_answer tn c route 0 (on_srv (on_circuit p (circuit_result now False)) st))
         else
           let st = on_event (\<lambda>ev. ev\<lparr>ev_Status := 200, ev_Usage := out_usage ss\<rparr>) st;
               st = on_srv (on_circuit p (circuit_result now (e \<noteq> StreamOK))) st
           in if e \<noteq> StreamOK then
                (Returned, settleUnknown env (idem_fate tn) now (on_event (\<lambda>ev. ev\<lparr>StreamFailed := True\<rparr>) st))
              else
                let st = full_answer tn c route (out_finish ss) (out_text ss) st;
                    st = st\<lparr>capturedText := out_text ss\<rparr>
                in (Returned,
                    idem_settle env (idem_fate tn) now
                      \<lparr>State = idemDone, BodyHash = hashBody (sha (world_of env)) (req_bytes env), Stored = unix now,
                       entry_Status = 200, entry_Stream = True, Response = None, entry_Text = out_text ss,
                       entry_Finish = out_finish ss\<rparr> st))"

definition accepted_whole :: "chat_env \<Rightarrow> turn \<Rightarrow> Chat \<Rightarrow> Route \<Rightarrow> http_response \<Rightarrow> chat_state \<Rightarrow> flow \<times> chat_state" where
  "accepted_whole env tn c route r st =
     (let p = Provider route;
          now = answer_now tn;
          data = body_bytes (payload r)
      in if body_failed (payload r) \<or> length data > 8 * 2 ^ 20 then
           (Returned, fail 502 (Plain ''incomplete provider response; not replayed'')
              (settleUnknown env (idem_fate tn) now (on_srv (on_circuit p (circuit_result now True)) st)))
         else
           let (n, fin, e) = normalize p data False;
               st = (if n_UsageMismatch n then count_chat UsageMismatch st else st);
               st = on_event (\<lambda>ev. ev\<lparr>ev_Usage := usageOf n\<rparr>) st;
               st = on_srv (on_circuit p (circuit_result now e)) st
           in if e then
                (Returned, fail 502 (Plain ''unsupported or incomplete provider response; not replayed'')
                   (settleUnknown env (idem_fate tn) now st))
              else if n_Finish n = ''length'' \<and> Text n = [] then
                (NextRoute, empty_answer tn c route (n_Reasoning n) st)
              else
                let st = full_answer tn c route (n_Finish n) (Text n) st;
                    st = on_event (\<lambda>ev. ev\<lparr>ev_Status := 200\<rparr>) st;
                    body = completion (ev_RequestID (event st)) route n (unix (start_at env));
                    st = st\<lparr>capturedCompletion := Some body\<rparr>;
                    st = idem_settle env (idem_fate tn) now
                           \<lparr>State = idemDone, BodyHash = hashBody (sha (world_of env)) (req_bytes env), Stored = unix now,
                            entry_Status = 200, entry_Stream = False, Response = Some body, entry_Text = [],
                            entry_Finish = []\<rparr> st;
                    st = set_header ''Content-Type'' ''application/json'' st
                in (Returned, st\<lparr>client_log := client_log st @ [WBody 200 (Some body)]\<rparr>))"

definition answered :: "chat_env \<Rightarrow> turn \<Rightarrow> nat \<Rightarrow> Chat \<Rightarrow> Route \<Rightarrow> http_result \<Rightarrow> chat_state \<Rightarrow> flow \<times> chat_state" where
  "answered env tn i c route res st =
     (case res of
        TransportError \<Rightarrow> transport_failed env tn route st
      | Responded r \<Rightarrow>
          if StatusCode r \<noteq> 200 then refused env tn i route r st
          else if Stream c then accepted_stream env tn c route r (accept_headers route st)
          else accepted_whole env tn c route r (accept_headers route st))"

definition chat_turn :: "chat_env \<Rightarrow> turn \<Rightarrow> Chat \<Rightarrow> nat list \<Rightarrow> nat \<Rightarrow> Route \<Rightarrow> chat_state \<Rightarrow> flow \<times> chat_state" where
  "chat_turn env tn c skip i route st =
     (let st = on_srv (turn_others tn) st in
      case and_then (route_gate tn c skip i route st) (\<lambda>pc st.
           and_then (retry_gate tn route st) (\<lambda>_ st.
             let (sent, st) = mark_prompt env tn route (drop_temperature tn c route (take_route route st))
             in exchange env tn sent route pc st)) of
        Stop fl st \<Rightarrow> (fl, st)
      | Go res st \<Rightarrow> answered env tn i c route res st)"

end
