(* ===== verification/Handler_Turns.thy ===== *)
theory Handler_Turns
  imports Handler
begin

text \<open>
  What a turn of the routing loop does for the caller: rules for the stages of a turn, and
  for each stage how it changes the log of responses, the log of requests and the number of
  attempts. Shown: a turn either leaves the caller unanswered and nothing settled, or writes
  one well-formed response; it costs at most one attempt and two requests.
\<close>

section \<open>Reasoning about stages\<close>

definition holds :: "('a \<Rightarrow> chat_state \<Rightarrow> bool) \<Rightarrow> (flow \<Rightarrow> chat_state \<Rightarrow> bool) \<Rightarrow> 'a stage \<Rightarrow> bool" where
  "holds P Q s = (case s of Go x st \<Rightarrow> P x st | Stop fl st \<Rightarrow> Q fl st)"

lemma holds_simps [simp]: "holds P Q (Go x st) = P x st" "holds P Q (Stop fl st) = Q fl st"
  by (simp_all add: holds_def)

lemma holds_then:
  assumes "holds P Q s" "\<And>x st. P x st \<Longrightarrow> holds P' Q (f x st)"
  shows "holds P' Q (and_then s f)"
  using assms by (cases s) auto

lemma turn_rule:
  assumes gate: "holds (\<lambda>_ st. A st) Q (route_gate tn c skip i route (on_srv (turn_others tn) st))"
    and retry: "\<And>st. A st \<Longrightarrow> holds (\<lambda>_ st. B st) Q (retry_gate tn route st)"
    and prepare: "\<And>st sent st'. B st \<Longrightarrow>
      mark_prompt env tn route (drop_temperature tn c route (take_route route st)) = (sent, st') \<Longrightarrow> D st'"
    and exchange: "\<And>st sent pc. D st \<Longrightarrow> holds (\<lambda>_ st. E st) Q (exchange env tn sent route pc st)"
    and answer: "\<And>st res. E st \<Longrightarrow> case answered env tn i c route res st of (fl, st') \<Rightarrow> Q fl st'"
  shows "case chat_turn env tn c skip i route st of (fl, st') \<Rightarrow> Q fl st'"
proof -
  have "holds (\<lambda>_ st. E st) Q (and_then (route_gate tn c skip i route (on_srv (turn_others tn) st)) (\<lambda>pc st.
           and_then (retry_gate tn route st) (\<lambda>_ st.
             let (sent, st) = mark_prompt env tn route (drop_temperature tn c route (take_route route st))
             in exchange env tn sent route pc st)))" (is "holds _ _ ?s")
    by (rule holds_then [OF gate], rule holds_then [OF retry])
      (auto simp: Let_def split: prod.splits intro: exchange prepare)
  then show ?thesis
    using answer by (cases ?s) (auto simp: chat_turn_def Let_def)
qed

lemmas handler_defs = set_header_def del_header_def count_chat_def problem_def fail_def take_route_def
  idem_settle_def settleUnknown_def on_circuit_def

section \<open>What each stage shows\<close>

text \<open>
  \<open>unanswered\<close>: nothing the caller or a later turn can see has changed, except the numbers
  of attempts and requests. \<open>answered_once\<close>: one well-formed response was written, and the
  event has its status.
\<close>

definition unanswered :: "chat_state \<Rightarrow> chat_state \<Rightarrow> bool" where
  "unanswered st s \<longleftrightarrow>
     client_log s = client_log st \<and> retriedRoute s = retriedRoute st \<and> empties s = empties st \<and>
     idemSettled s = idemSettled st \<and> StreamFailed (event s) = StreamFailed (event st) \<and>
     ev_RequestID (event s) = ev_RequestID (event st) \<and> ev_Status (event s) = ev_Status (event st) \<and>
     capturedText s = capturedText st \<and> capturedCompletion s = capturedCompletion st"

definition stream_writes :: "client_write list \<Rightarrow> bool" where
  "stream_writes ws \<longleftrightarrow> ws \<noteq> [] \<and> (\<exists>chs end. ws = map WChunk chs @ end \<and> end \<in> {[], [WDone], [WError]})"

definition response_ok :: "client_write list \<Rightarrow> Event \<Rightarrow> bool" where
  "response_ok ws ev \<longleftrightarrow>
     (\<exists>msg. ws = [WProblem (ev_Status ev) msg]) \<or> (\<exists>j. ws = [WBody (ev_Status ev) j]) \<or>
     ((ev_Status ev = 200 \<or> Replayed ev) \<and> stream_writes ws) \<or>
     (ev_Status ev = 200 \<and> StreamFailed ev \<and> (\<exists>msg. ws = [WProblem 502 msg]))"

definition answered_once :: "chat_state \<Rightarrow> chat_state \<Rightarrow> bool" where
  "answered_once st s \<longleftrightarrow> (\<exists>ws. client_log s = client_log st @ ws \<and> response_ok ws (event s))"

lemma unanswered_refl [simp]: "unanswered st st"
  by (simp add: unanswered_def)

lemma unanswered_trans: "unanswered a b \<Longrightarrow> unanswered b c \<Longrightarrow> unanswered a c"
  by (simp add: unanswered_def)

lemma unanswered_steps [simp]:
  "unanswered st (s\<lparr>srv := x\<rparr>) = unanswered st s" "unanswered st (set_header k v s) = unanswered st s"
  "unanswered st (del_header k s) = unanswered st s" "unanswered st (count_chat m s) = unanswered st s"
  "unanswered st (s\<lparr>sent_log := l\<rparr>) = unanswered st s" "unanswered st (take_route route s) = unanswered st s"
  by (simp_all add: unanswered_def handler_defs)

definition tries :: "chat_state \<Rightarrow> int" where
  "tries st = ev_Attempts (event st)"

lemma tries_steps [simp]:
  "tries (s\<lparr>srv := x\<rparr>) = tries s" "tries (set_header k v s) = tries s" "tries (del_header k s) = tries s"
  "tries (count_chat m s) = tries s" "tries (s\<lparr>sent_log := l\<rparr>) = tries s" "tries (take_route route s) = tries s + 1"
  "tries (fail code msg s) = tries s" "tries (idem_settle env w now e s) = tries s" "tries (settleUnknown env w now s) = tries s"
  "tries (s\<lparr>client_log := cl\<rparr>) = tries s" "tries (s\<lparr>retriedRoute := rr\<rparr>) = tries s"
  by (simp_all add: tries_def handler_defs Let_def case_prod_unfold split: option.splits)

lemma sent_steps [simp]:
  "sent_log (set_header k v s) = sent_log s" "sent_log (del_header k s) = sent_log s"
  "sent_log (count_chat m s) = sent_log s" "sent_log (take_route route s) = sent_log s"
  "sent_log (fail code msg s) = sent_log s" "sent_log (idem_settle env w now e s) = sent_log s"
  "sent_log (settleUnknown env w now s) = sent_log s"
  by (simp_all add: handler_defs Let_def case_prod_unfold split: option.splits)

lemma fail_answers [simp]: "unanswered st s \<Longrightarrow> answered_once st (fail code msg s)"
  by (simp add: answered_once_def unanswered_def response_ok_def handler_defs)

text \<open>What is known when a turn ends before the provider's answer is looked at.\<close>

definition cut_short :: "chat_state \<Rightarrow> flow \<Rightarrow> chat_state \<Rightarrow> bool" where
  "cut_short st fl s \<longleftrightarrow>
     fl \<noteq> SameRoute \<and> (if fl = Returned then answered_once st s else unanswered st s)"

lemma route_gate_shows:
  "holds (\<lambda>_ s. unanswered st s \<and> sent_log s = sent_log st \<and> tries s = tries st \<and> tries st < MaxAttempts (C (srv st)))
     (\<lambda>fl s. cut_short st fl s \<and> fl \<noteq> Returned \<and> sent_log s = sent_log st \<and> tries s = tries st)
     (route_gate tn c skip i route st)"
  by (auto simp: route_gate_def cut_short_def Let_def unanswered_def count_chat_def tries_def split: prod.splits option.splits)

lemma retry_gate_shows:
  "holds (\<lambda>_ s. unanswered st s \<and> sent_log s = sent_log st \<and> tries s = tries st)
     (\<lambda>fl s. cut_short st fl s \<and> sent_log s = sent_log st \<and> tries s = tries st) (retry_gate tn route st)"
  by (auto simp: retry_gate_def cut_short_def Let_def split: prod.splits)

lemma prepare_shows:
  assumes "mark_prompt env tn route (drop_temperature tn c route (take_route route st)) = (sent, s)"
  shows "unanswered st s \<and> sent_log s = sent_log st \<and> tries s = tries st + 1"
  using assms by (auto simp: mark_prompt_def drop_temperature_def Let_def split: prod.splits option.splits if_splits)

text \<open>Between \<open>lo\<close> and \<open>hi\<close> requests were given to the HTTP client.\<close>

definition sends :: "nat \<Rightarrow> nat \<Rightarrow> chat_state \<Rightarrow> chat_state \<Rightarrow> bool" where
  "sends lo hi st s \<longleftrightarrow>
     length (sent_log st) + lo \<le> length (sent_log s) \<and> length (sent_log s) \<le> length (sent_log st) + hi"

lemma sends_steps [simp]:
  "sends lo hi st (s\<lparr>srv := x\<rparr>) = sends lo hi st s" "sends lo hi st (count_chat k s) = sends lo hi st s"
  "sends lo hi st (set_header k' v s) = sends lo hi st s"
  by (simp_all add: sends_def)

definition contacted :: "nat \<Rightarrow> nat \<Rightarrow> chat_state \<Rightarrow> chat_state \<Rightarrow> bool" where
  "contacted lo hi st s \<longleftrightarrow> unanswered st s \<and> sends lo hi st s \<and> tries s = tries st"

definition stopped :: "nat \<Rightarrow> nat \<Rightarrow> chat_state \<Rightarrow> flow \<Rightarrow> chat_state \<Rightarrow> bool" where
  "stopped lo hi st fl s \<longleftrightarrow> cut_short st fl s \<and> sends lo hi st s \<and> tries s = tries st"

lemma contacted_steps [simp]:
  "contacted lo hi st (s\<lparr>srv := x\<rparr>) = contacted lo hi st s" "contacted lo hi st (count_chat k s) = contacted lo hi st s"
  by (simp_all add: contacted_def)

lemma do_request_shows:
  assumes "contacted lo hi st s"
  shows "holds (\<lambda>_. contacted (Suc lo) (Suc hi) st) (stopped lo hi st) (do_request env sent route pc answer s)"
  using assms by (auto simp: do_request_def contacted_def stopped_def sends_def cut_short_def split: sum.splits)

lemma holds_weaken:
  "holds P Q s \<Longrightarrow> (\<And>x st. P x st \<Longrightarrow> P' x st) \<Longrightarrow> (\<And>fl st. Q fl st \<Longrightarrow> Q' fl st) \<Longrightarrow> holds P' Q' s"
  by (cases s) auto

lemma exchange_shows:
  "holds (\<lambda>_. contacted 1 2 st) (stopped 0 2 st) (exchange env tn sent route pc st)"
proof -
  have again: "holds (\<lambda>_. contacted 1 2 st) (stopped 0 2 st) (do_request env sent' route pc answer s)"
    if "contacted 1 1 st s" for sent' answer s
    by (rule holds_weaken [OF do_request_shows [OF that]]) (auto simp: contacted_def stopped_def sends_def)
  have once: "contacted 1 1 st s \<Longrightarrow> contacted 1 2 st s" for s
    by (auto simp: contacted_def sends_def)
  have "holds (\<lambda>_. contacted 1 1 st) (stopped 0 2 st) (do_request env sent route pc (first_answer tn) st)"
    by (rule holds_weaken [OF do_request_shows [of 0 0 st st]]) (auto simp: contacted_def stopped_def sends_def)
  then show ?thesis
    unfolding exchange_def
    by (rule holds_then) (auto simp: Let_def simp del: One_nat_def intro!: again once split: http_result.splits)
qed

lemma on_frame_client:
  assumes "\<exists>ws. client s = cl @ map WChunk ws" "on_frame env b s = (e, s')"
  shows "\<exists>ws. client s' = cl @ map WChunk ws"
proof -
  have "client s' = client s \<or> (\<exists>ch. client s' = client s @ [WChunk ch])"
    using assms(2) by (auto simp: on_frame_def Let_def client_send_def split: prod.splits if_splits)
  moreover have "cl @ map WChunk ws @ [WChunk ch] = cl @ map WChunk (ws @ [ch])" for ws ch by simp
  ultimately show ?thesis using assms(1) by (metis append_assoc)
qed

lemma read_client:
  assumes "readSSE body failed (on_frame env) (stream_init m cl) = (err, s)"
  shows "\<exists>ws. client s = cl @ map WChunk ws"
proof -
  let ?P = "\<lambda>s. \<exists>ws. client s = cl @ map WChunk ws"
  have "?P (stream_init m cl)" by (auto simp: stream_init_def intro: exI [of _ "[]"])
  then have "case err of None \<Rightarrow> ?P s | Some (Callback e) \<Rightarrow> ?P s | Some _ \<Rightarrow> ?P s"
    using assms by (rule readSSE_rule [where fn = "on_frame env", rotated 2]) (rule on_frame_client; assumption)+
  then show ?thesis by (auto split: option.splits sse_error.splits)
qed

lemma stream_shape:
  assumes "stream env res m cl = (e, s)" "e \<noteq> StreamEmpty"
  shows "\<exists>ws. client s = cl @ ws \<and>
    (stream_writes ws \<or> e = StreamBroken \<and> ws = [WProblem 502 (Plain ''expected provider event stream'')])"
  using assms(1)
proof (cases rule: stream_cases)
  case (read body failed err s1)
  obtain ws where ws: "client s1 = cl @ map WChunk ws" using read_client [OF read(1)] by blast
  have "client s = client s1 @ end \<Longrightarrow> end \<in> {[WDone], [WError]} \<Longrightarrow> ?thesis" for "end"
    using ws by (auto simp: stream_writes_def)
  moreover have "client s = client s1 @ WChunk ch # end \<Longrightarrow> end \<in> {[], [WDone]} \<Longrightarrow> ?thesis" for ch "end"
    using ws by (auto simp: stream_writes_def intro!: exI [of _ "ws @ [ch]"])
  ultimately show ?thesis
    using read(2) assms(2)
    by (auto simp: stream_close_def Let_def client_send_def split: if_splits option.splits)
qed auto

text \<open>Leaving a provider's answer behind: nothing was written or settled.\<close>

definition moved_on :: "nat \<Rightarrow> chat_state \<Rightarrow> flow \<Rightarrow> chat_state \<Rightarrow> bool" where
  "moved_on i st fl s \<longleftrightarrow>
     fl \<noteq> LeaveLoop \<and> sent_log s = sent_log st \<and> tries s = tries st \<and>
     (if fl = Returned then answered_once st s
      else unanswered st (s\<lparr>retriedRoute := retriedRoute st, empties := empties st\<rparr>) \<and>
        (if fl = SameRoute then i \<notin> set (retriedRoute st) \<and> retriedRoute s = i # retriedRoute st
         else retriedRoute s = retriedRoute st))"

lemma settle_unanswered:
  "unanswered st ((idem_settle env w now e s)\<lparr>idemSettled := idemSettled st\<rparr>) =
   unanswered st (s\<lparr>idemSettled := idemSettled st\<rparr>)"
  by (simp add: unanswered_def idem_settle_def case_prod_unfold Let_def split: option.splits)

lemma settle_log [simp]:
  "client_log (idem_settle env w now e s) = client_log s" "event (idem_settle env w now e s) = event s"
  "client_log (settleUnknown env w now s) = client_log s" "event (settleUnknown env w now s) = event s"
  by (simp_all add: idem_settle_def settleUnknown_def case_prod_unfold Let_def split: option.splits)

lemma step_log [simp]:
  "client_log (set_header k v s) = client_log s" "event (set_header k v s) = event s"
  "client_log (del_header k s) = client_log s" "event (del_header k s) = event s"
  "client_log (count_chat m s) = client_log s" "event (count_chat m s) = event s"
  "client_log (fail code msg s) = client_log s @ [WProblem code msg]" "event (fail code msg s) = (event s)\<lparr>ev_Status := code\<rparr>"
  by (simp_all add: handler_defs)

lemma transport_failed_shows: "moved_on i st (fst (transport_failed env tn route st)) (snd (transport_failed env tn route st))"
  by (simp add: transport_failed_def moved_on_def answered_once_def response_ok_def Let_def)

lemma rate_limited_shows: "moved_on i st (fst (rate_limited tn i route wait st)) (snd (rate_limited tn i route wait st))"
  by (auto simp: rate_limited_def moved_on_def answered_once_def response_ok_def unanswered_def count_chat_def tries_def Let_def)

lemma terminal_refusal_shows:
  "moved_on i st (fst (terminal_refusal tn route status b st)) (snd (terminal_refusal tn route status b st))"
  by (simp add: terminal_refusal_def moved_on_def answered_once_def response_ok_def Let_def)

lemma moved_on_fault:
  "moved_on i (on_event (\<lambda>ev. ev\<lparr>ev_Fault := x\<rparr>) st) fl s = moved_on i st fl s"
  by (simp add: moved_on_def unanswered_def answered_once_def tries_def)

lemma moved_next: "unanswered st s \<Longrightarrow> sent_log s = sent_log st \<Longrightarrow> tries s = tries st \<Longrightarrow> moved_on i st NextRoute s"
  by (simp add: moved_on_def unanswered_def)

lemma refused_shows: "moved_on i st (fst (refused env tn i route r st)) (snd (refused env tn i route r st))"
proof -
  let ?st = "on_event (\<lambda>ev. ev\<lparr>ev_Fault := fault_String (classify (StatusCode r) (take (2 ^ 16) (body_bytes (payload r))))\<rparr>) st"
  have "moved_on i ?st (fst (refused env tn i route r st)) (snd (refused env tn i route r st))"
    unfolding refused_def Let_def
    by (split fault.split) (auto simp: rate_limited_shows terminal_refusal_shows simp del: power_numeral intro!: moved_next)
  then show ?thesis by (simp only: moved_on_fault)
qed

lemma accept_headers_steps [simp]:
  "unanswered st (accept_headers route s) = unanswered st s" "sent_log (accept_headers route s) = sent_log s"
  "tries (accept_headers route s) = tries s" "client_log (accept_headers route s) = client_log s"
  "event (accept_headers route s) = event s" "retriedRoute (accept_headers route s) = retriedRoute s"
  "idemSettled (accept_headers route s) = idemSettled s" "empties (accept_headers route s) = empties s"
  by (simp_all add: accept_headers_def handler_defs unanswered_def tries_def)

lemma stream_headers_steps [simp]:
  "unanswered st (stream_headers route r s) = unanswered st s" "sent_log (stream_headers route r s) = sent_log s"
  "tries (stream_headers route r s) = tries s" "event (stream_headers route r s) = event s"
  "client_log (stream_headers route r s) = client_log s" "srv (stream_headers route r s) = srv s"
  "empties (stream_headers route r s) = empties s" "idemSettled (stream_headers route r s) = idemSettled s"
  "retriedRoute (stream_headers route r s) = retriedRoute s" "capturedText (stream_headers route r s) = capturedText s"
  "capturedCompletion (stream_headers route r s) = capturedCompletion s"
  by (simp_all add: stream_headers_def) (simp_all add: handler_defs)

lemma full_answer_steps [simp]:
  "unanswered st (full_answer tn c route fin text s) = unanswered st s" "sent_log (full_answer tn c route fin text s) = sent_log s"
  "tries (full_answer tn c route fin text s) = tries s" "event (full_answer tn c route fin text s) = event s"
  "client_log (full_answer tn c route fin text s) = client_log s"
  by (simp_all add: full_answer_def Let_def)

lemma moved_returned:
  "answered_once st s \<Longrightarrow> sent_log s = sent_log st \<Longrightarrow> tries s = tries st \<Longrightarrow> moved_on i st Returned s"
  by (simp add: moved_on_def)

lemma empty_answer_moves:
  assumes "unanswered st s" "sent_log s = sent_log st" "tries s = tries st"
  shows "moved_on i st NextRoute (empty_answer tn c route reasoning s)"
  using assms by (simp add: empty_answer_def moved_on_def unanswered_def count_chat_def tries_def Let_def)

lemma accepted_stream_shows:
  "moved_on i st (fst (accepted_stream env tn c route r st)) (snd (accepted_stream env tn c route r st))"
proof -
  let ?se = "\<lparr>env_route = route, env_id = ev_RequestID (event st), env_created = unix (start_at env), accepts = turn_accepts tn\<rparr>"
  obtain e ss where e: "stream ?se (payload r) (metrics (srv st)) (client_log st) = (e, ss)" by fastforce
  show ?thesis
  proof (cases "e = StreamEmpty")
    case True
    then have "client ss = client_log st" using e stream_empty_sent_nothing(1) by blast
    then show ?thesis
      using e True by (auto simp: accepted_stream_def Let_def unanswered_def tries_def intro!: empty_answer_moves)
  next
    case False
    obtain ws where "client ss = client_log st @ ws"
      "stream_writes ws \<or> e = StreamBroken \<and> ws = [WProblem 502 (Plain ''expected provider event stream'')]"
      using stream_shape [OF e False] by blast
    then show ?thesis
      using e False
      by (cases e) (auto simp: accepted_stream_def Let_def moved_on_def answered_once_def response_ok_def tries_def
          sent_steps)
  qed
qed

lemma accepted_whole_shows:
  "moved_on i st (fst (accepted_whole env tn c route r st)) (snd (accepted_whole env tn c route r st))"
proof -
  obtain n fin e where n: "normalize (Provider route) (body_bytes (payload r)) False = (n, fin, e)" by (metis prod_cases3)
  show ?thesis
    by (auto simp: accepted_whole_def n Let_def answered_once_def response_ok_def tries_def unanswered_def count_chat_def
        intro!: empty_answer_moves moved_returned)
qed

lemma answered_shows: "moved_on i st (fst (answered env tn i c route res st)) (snd (answered env tn i c route res st))"
proof -
  have accepted: "moved_on i (accept_headers route st) fl s = moved_on i st fl s" for fl s
    by (simp add: moved_on_def answered_once_def unanswered_def) (simp add: accept_headers_def handler_defs)
  have "moved_on i st (fst (accepted_stream env tn c route r (accept_headers route st))) (snd (accepted_stream env tn c route r (accept_headers route st)))"
    "moved_on i st (fst (accepted_whole env tn c route r (accept_headers route st))) (snd (accepted_whole env tn c route r (accept_headers route st)))" for r
    using accepted accepted_stream_shows accepted_whole_shows by blast+
  then show ?thesis
    using transport_failed_shows refused_shows by (auto simp: answered_def split: http_result.split)
qed

text \<open>The turn as a whole.\<close>

definition turn_ok :: "turn \<Rightarrow> nat \<Rightarrow> chat_state \<Rightarrow> flow \<Rightarrow> chat_state \<Rightarrow> bool" where
  "turn_ok tn i st fl s \<longleftrightarrow>
     tries st \<le> tries s \<and> tries s \<le> tries st + 1 \<and>
     (tries s \<noteq> tries st \<longrightarrow> tries st < MaxAttempts (C (turn_others tn (srv st)))) \<and>
     length (sent_log st) \<le> length (sent_log s) \<and>
     int (length (sent_log s)) \<le> int (length (sent_log st)) + 2 * (tries s - tries st) \<and>
     (if fl = Returned then answered_once st s
      else unanswered st (s\<lparr>retriedRoute := retriedRoute st, empties := empties st\<rparr>) \<and>
        (if fl = SameRoute then i \<notin> set (retriedRoute st) \<and> retriedRoute s = i # retriedRoute st
         else retriedRoute s = retriedRoute st))"

lemma answered_once_trans: "unanswered a b \<Longrightarrow> answered_once b c \<Longrightarrow> answered_once a c"
  by (simp add: unanswered_def answered_once_def)

lemma turn_shows:
  "case chat_turn env tn c skip i route st of (fl, s) \<Rightarrow> turn_ok tn i st fl s"
proof (rule turn_rule)
  let ?st = "on_srv (turn_others tn) st"
  let ?P = "\<lambda>s. unanswered st s \<and> sent_log s = sent_log st \<and> tries s = tries st \<and> tries st < MaxAttempts (C (srv ?st))"
  let ?R = "\<lambda>s. unanswered st s \<and> sent_log s = sent_log st \<and> tries s = tries st + 1 \<and> tries st < MaxAttempts (C (srv ?st))"
  let ?E = "\<lambda>s. unanswered st s \<and> sends 1 2 st s \<and> tries s = tries st + 1 \<and> tries st < MaxAttempts (C (srv ?st))"
  have same: "unanswered ?st s = unanswered st s" "tries ?st = tries st" "sent_log ?st = sent_log st" "answered_once ?st s = answered_once st s" for s
    by (simp_all add: unanswered_def tries_def answered_once_def)
  show "holds (\<lambda>_. ?P) (turn_ok tn i st) (route_gate tn c skip i route ?st)"
    by (rule holds_weaken [OF route_gate_shows]) (auto simp: same turn_ok_def cut_short_def unanswered_def)
  fix s assume s: "?P s"
  show "holds (\<lambda>_. ?P) (turn_ok tn i st) (retry_gate tn route s)"
    by (rule holds_weaken [OF retry_gate_shows])
      (use s in \<open>auto simp: turn_ok_def cut_short_def unanswered_def answered_once_def split: if_splits\<close>)
next
  fix s sent s'
  let ?st = "on_srv (turn_others tn) st"
  assume "unanswered st s \<and> sent_log s = sent_log st \<and> tries s = tries st \<and> tries st < MaxAttempts (C (srv ?st))"
    and "mark_prompt env tn route (drop_temperature tn c route (take_route route s)) = (sent, s')"
  then show "unanswered st s' \<and> sent_log s' = sent_log st \<and> tries s' = tries st + 1 \<and> tries st < MaxAttempts (C (srv ?st))"
    using prepare_shows unanswered_trans by metis
next
  fix s sent pc
  let ?st = "on_srv (turn_others tn) st"
  assume s: "unanswered st s \<and> sent_log s = sent_log st \<and> tries s = tries st + 1 \<and> tries st < MaxAttempts (C (srv ?st))"
  show "holds (\<lambda>_ s. unanswered st s \<and> sends 1 2 st s \<and> tries s = tries st + 1 \<and> tries st < MaxAttempts (C (srv ?st)))
      (turn_ok tn i st) (exchange env tn sent route pc s)"
    by (rule holds_weaken [OF exchange_shows])
      (use s unanswered_trans in \<open>auto simp: contacted_def stopped_def turn_ok_def cut_short_def sends_def unanswered_def answered_once_def split: if_splits\<close>)
next
  fix s res
  let ?st = "on_srv (turn_others tn) st"
  assume s: "unanswered st s \<and> sends 1 2 st s \<and> tries s = tries st + 1 \<and> tries st < MaxAttempts (C (srv ?st))"
  show "case answered env tn i c route res s of (fl, s') \<Rightarrow> turn_ok tn i st fl s'"
    using s answered_shows [of i s env tn c route res]
    by (auto simp: turn_ok_def moved_on_def sends_def unanswered_def answered_once_def split: prod.splits if_splits)
qed

end
