(* ===== verification/Handler_Frame.thy ===== *)
theory Handler_Frame
  imports Handler_Turns
begin

text \<open>
  What a turn of the routing loop does to the state shared with other requests: the locale
  \<open>server_inv\<close> for the parts it leaves alone, and the recovery probes of the breakers,
  which a turn claims and always gives back.
\<close>

section \<open>What a turn keeps of the shared state\<close>

lemma srv_steps [simp]:
  "srv (set_header k v st) = srv st" "srv (del_header k st) = srv st" "srv (problem code msg st) = srv st"
  "srv (fail code msg st) = srv st" "srv (take_route route st) = srv st"
  "srv (count_chat m st) = count_metric m (srv st)"
  by (simp_all add: handler_defs Let_def)

text \<open>
  A turn changes the shared record only through the operations named here, so a property
  they all keep is kept by a turn, if other goroutines keep it too.
\<close>

locale server_inv =
  fixes I :: "Server \<Rightarrow> bool"
  assumes metrics: "I s \<Longrightarrow> I (s\<lparr>metrics := m\<rparr>)"
    and retry: "I s \<Longrightarrow> I (s\<lparr>retry := b\<rparr>)"
    and temps: "I s \<Longrightarrow> I (s\<lparr>temps := t\<rparr>)"
    and prefixes: "I s \<Longrightarrow> I (s\<lparr>prefixes := p\<rparr>)"
    and budgets: "I s \<Longrightarrow> I (s\<lparr>budgets := bt\<rparr>)"
    and Idem: "I s \<Longrightarrow> I (s\<lparr>Idem := i\<rparr>)"
    and reported: "I s \<Longrightarrow> I (s\<lparr>reported := rp\<rparr>)"
    and unhealthy: "I s \<Longrightarrow> I (s\<lparr>unhealthy := u\<rparr>)"
    and circuits: "I s \<Longrightarrow> I (s\<lparr>circuits := cs\<rparr>)"
begin

lemmas primitive = metrics retry temps prefixes budgets Idem reported unhealthy circuits

lemma composite:
  assumes "I s"
  shows "I (on_circuit p f s)" "I (share p fl s)" "I (markHealthy p s)"
  using assms by (auto simp: on_circuit_def share_def markHealthy_def primitive)

lemma settle_keeps:
  assumes "I (srv st)"
  shows "I (srv (idem_settle env w now e st))" "I (srv (settleUnknown env w now st))"
  using assms
  by (auto simp: idem_settle_def settleUnknown_def Let_def case_prod_unfold primitive split: option.splits)

lemmas keeps = primitive composite settle_keeps

lemma parts_keep:
  assumes "I (srv st)"
  shows "I (srv (snd (transport_failed env tn route st)))" "I (srv (snd (rate_limited tn i route wait st)))"
    "I (srv (snd (terminal_refusal tn route status b st)))" "I (srv (accept_headers route st))"
    "I (srv (empty_answer tn c route reasoning st))" "I (srv (full_answer tn c route fin text st))"
  using assms
  by (auto simp: transport_failed_def rate_limited_def terminal_refusal_def accept_headers_def
      empty_answer_def full_answer_def Let_def intro!: keeps)

lemma refused_keeps: "I (srv st) \<Longrightarrow> I (srv (snd (refused env tn i route r st)))"
  unfolding refused_def Let_def by (split fault.split) (auto intro!: keeps parts_keep)

lemma accepted_stream_keeps:
  assumes "I (srv st)"
  shows "I (srv (snd (accepted_stream env tn c route r st)))"
proof -
  let ?se = "\<lparr>env_route = route, env_id = ev_RequestID (event st), env_created = unix (start_at env), accepts = turn_accepts tn\<rparr>"
  obtain e ss where e: "stream ?se (payload r) (metrics (srv st)) (client_log st) = (e, ss)" by fastforce
  show ?thesis
    using assms by (simp add: accepted_stream_def e Let_def keeps parts_keep)
qed

lemma accepted_whole_keeps:
  assumes "I (srv st)"
  shows "I (srv (snd (accepted_whole env tn c route r st)))"
proof -
  obtain n fin e where n: "normalize (Provider route) (body_bytes (payload r)) False = (n, fin, e)" by (metis prod_cases3)
  show ?thesis
    using assms by (simp add: accepted_whole_def n Let_def keeps parts_keep)
qed

lemma answered_keeps: "I (srv st) \<Longrightarrow> I (srv (snd (answered env tn i c route res st)))"
  by (simp add: answered_def parts_keep refused_keeps accepted_stream_keeps accepted_whole_keeps split: http_result.split)

lemma turn_keeps:
  assumes "\<And>s. I s \<Longrightarrow> I (turn_others tn s)" "\<And>s. I s \<Longrightarrow> I (answer_others tn s)" "I (srv st)"
  shows "I (srv (snd (chat_turn env tn c skip i route st)))"
proof -
  have "case chat_turn env tn c skip i route st of (fl, s) \<Rightarrow> I (srv s)"
  proof (rule turn_rule [where A = "\<lambda>s. I (srv s)" and B = "\<lambda>s. I (srv s)" and D = "\<lambda>s. I (srv s)" and E = "\<lambda>s. I (srv s)"])
    show "holds (\<lambda>_ s. I (srv s)) (\<lambda>_ s. I (srv s)) (route_gate tn c skip i route (on_srv (turn_others tn) st))"
      using assms(1) [OF assms(3)]
      by (auto simp: route_gate_def Let_def case_prod_unfold intro!: keeps split: option.split)
  next
    fix s :: chat_state assume "I (srv s)"
    then show "holds (\<lambda>_ s. I (srv s)) (\<lambda>_ s. I (srv s)) (retry_gate tn route s)"
      by (auto simp: retry_gate_def Let_def case_prod_unfold intro!: keeps)
  next
    fix s s' :: chat_state and sent assume "I (srv s)" "mark_prompt env tn route (drop_temperature tn c route (take_route route s)) = (sent, s')"
    then show "I (srv s')"
      by (auto simp: mark_prompt_def drop_temperature_def Let_def case_prod_unfold intro!: keeps
          split: option.splits if_splits)
  next
    fix s :: chat_state and sent pc assume "I (srv s)"
    then show "holds (\<lambda>_ s. I (srv s)) (\<lambda>_ s. I (srv s)) (exchange env tn sent route pc s)"
      by (auto simp: exchange_def do_request_def Let_def intro!: keeps assms(2) split: sum.split http_result.split)
  next
    fix s :: chat_state and res assume "I (srv s)"
    then show "case answered env tn i c route res s of (fl, s') \<Rightarrow> I (srv s')"
      using answered_keeps by (simp add: case_prod_unfold)
  qed
  then show ?thesis by (simp add: case_prod_unfold)
qed

end

text \<open>The parts of the record that no turn writes.\<close>

definition frame where
  "frame s = (C s, Policies s, disk s, route_table s, tel s, slots s, rate_limit s, fleet s, instanceID s,
     Captures s, Draining s, syncState s, expiryState s)"

interpretation frame: server_inv "\<lambda>s. frame s = x" for x
  by unfold_locales (simp_all add: frame_def)

interpretation config: server_inv "\<lambda>s. C s = x" for x
  by unfold_locales simp_all

section \<open>Recovery probes\<close>

text \<open>
  A breaker lets one request through after its open window and waits for its outcome. A
  turn that takes a route may claim that probe; on every way out of the turn it is given
  back. \<open>no_probe_but P s\<close>: outside \<open>P\<close> no probe is out.
\<close>

definition no_probe_but :: "bytes set \<Rightarrow> Server \<Rightarrow> bool" where
  "no_probe_but P s \<longleftrightarrow> (\<forall>q. q \<notin> P \<longrightarrow> \<not> probe (circuits s q))"

abbreviation no_probe :: "Server \<Rightarrow> bool" where
  "no_probe \<equiv> no_probe_but {}"

lemma probe_given_back [simp]:
  "\<not> probe (circuit_release c)" "\<not> probe (circuit_result now f c)" "\<not> probe (circuit_cooldown now d c)"
  by (simp_all add: circuit_release_def circuit_result_def circuit_cooldown_def Let_def)

lemma no_probe_circuit:
  "no_probe_but P s \<Longrightarrow> no_probe_but P (on_circuit p f s)" if "p \<in> P \<or> (\<forall>c. \<not> probe (f c))"
  using that by (auto simp: no_probe_but_def on_circuit_def)

lemma no_probe_release:
  "no_probe_but {p} s \<Longrightarrow> (\<And>c. \<not> probe (f c)) \<Longrightarrow> no_probe (on_circuit p f s)"
  by (auto simp: no_probe_but_def on_circuit_def)

lemma circuits_steps [simp]:
  "circuits (share p fl s) = circuits s" "circuits (markHealthy p s) = circuits s"
  by (simp_all add: share_def markHealthy_def)

lemma circuits_settle [simp]:
  "circuits (srv (idem_settle env w now e st)) = circuits (srv st)" "circuits (srv (settleUnknown env w now st)) = circuits (srv st)"
  by (simp_all add: idem_settle_def settleUnknown_def Let_def case_prod_unfold split: option.split)

lemma no_probe_cong: "circuits s = circuits s' \<Longrightarrow> no_probe_but P s = no_probe_but P s'"
  by (simp add: no_probe_but_def)

lemma parts_release:
  assumes "no_probe_but {Provider route} (srv st)"
  shows "no_probe (srv (snd (transport_failed env tn route st)))" "no_probe (srv (snd (rate_limited tn i route wait st)))"
    "no_probe (srv (snd (terminal_refusal tn route status b st)))"
  using assms
  by (auto simp: transport_failed_def rate_limited_def terminal_refusal_def Let_def no_probe_but_def on_circuit_def)

lemma refused_release:
  assumes "no_probe_but {Provider route} (srv st)"
  shows "no_probe (srv (snd (refused env tn i route r st)))"
proof -
  have "no_probe_but {Provider route} (srv (on_event g st))" for g using assms by simp
  note ends = parts_release(2,3) [OF this]
  show ?thesis
    using assms
    by (cases "classify (StatusCode r) (take (2 ^ 16) (body_bytes (payload r)))")
      (simp_all add: refused_def Let_def ends, simp_all add: no_probe_but_def on_circuit_def)
qed

lemma accepted_stream_release:
  assumes "no_probe_but {Provider route} (srv st)"
  shows "no_probe (srv (snd (accepted_stream env tn c route r st)))"
proof -
  let ?se = "\<lparr>env_route = route, env_id = ev_RequestID (event st), env_created = unix (start_at env), accepts = turn_accepts tn\<rparr>"
  obtain e ss where e: "stream ?se (payload r) (metrics (srv st)) (client_log st) = (e, ss)" by fastforce
  show ?thesis
    using assms
    by (simp add: accepted_stream_def e Let_def no_probe_but_def on_circuit_def full_answer_def empty_answer_def)
qed

lemma accepted_whole_release:
  assumes "no_probe_but {Provider route} (srv st)"
  shows "no_probe (srv (snd (accepted_whole env tn c route r st)))"
proof -
  obtain n fin e where n: "normalize (Provider route) (body_bytes (payload r)) False = (n, fin, e)" by (metis prod_cases3)
  show ?thesis
    using assms
    by (simp add: accepted_whole_def n Let_def no_probe_but_def on_circuit_def full_answer_def empty_answer_def)
qed

lemma answered_release:
  assumes "no_probe_but {Provider route} (srv st)"
  shows "no_probe (srv (snd (answered env tn i c route res st)))"
proof -
  have "no_probe_but {Provider route} (srv (accept_headers route st))"
    using assms by (simp add: accept_headers_def no_probe_but_def)
  then show ?thesis
    using assms
    by (simp add: answered_def parts_release refused_release accepted_stream_release accepted_whole_release split: http_result.split)
qed

text \<open>Other goroutines must not leave a probe behind themselves.\<close>

definition probe_safe :: "(Server \<Rightarrow> Server) \<Rightarrow> bool" where
  "probe_safe f \<longleftrightarrow> (\<forall>s q. probe (circuits (f s) q) \<longrightarrow> probe (circuits s q))"

lemma probe_safe_keeps: "probe_safe f \<Longrightarrow> no_probe_but P s \<Longrightarrow> no_probe_but P (f s)"
  by (auto simp: probe_safe_def no_probe_but_def)

lemma turn_release:
  assumes "probe_safe (turn_others tn)" "probe_safe (answer_others tn)" "no_probe (srv st)"
  shows "no_probe (srv (snd (chat_turn env tn c skip i route st)))"
proof -
  let ?K = "\<lambda>s :: chat_state. no_probe_but {Provider route} (srv s)" and ?J = "\<lambda>_ s :: chat_state. no_probe (srv s)"
  have "case chat_turn env tn c skip i route st of (fl, s) \<Rightarrow> no_probe (srv s)"
  proof (rule turn_rule [where A = ?K and B = ?K and D = ?K and E = ?K])
    have "no_probe (turn_others tn (srv st))" using assms probe_safe_keeps by blast
    then show "holds (\<lambda>_. ?K) ?J (route_gate tn c skip i route (on_srv (turn_others tn) st))"
      by (auto simp: route_gate_def Let_def case_prod_unfold no_probe_but_def on_circuit_def circuit_allow_def
          split: option.splits)
  next
    fix s :: chat_state assume "?K s"
    then show "holds (\<lambda>_. ?K) ?J (retry_gate tn route s)"
      by (auto simp: retry_gate_def Let_def case_prod_unfold no_probe_but_def on_circuit_def)
  next
    fix s s' :: chat_state and sent assume "?K s" "mark_prompt env tn route (drop_temperature tn c route (take_route route s)) = (sent, s')"
    then show "?K s'"
      by (auto simp: mark_prompt_def drop_temperature_def Let_def case_prod_unfold no_probe_but_def split: option.splits if_splits)
  next
    fix s :: chat_state and sent pc assume k: "?K s"
    have "?K (on_srv (answer_others tn) s)" using k probe_safe_keeps [OF assms(2)] by simp
    then show "holds (\<lambda>_. ?K) ?J (exchange env tn sent route pc s)"
      using k by (auto simp: exchange_def do_request_def Let_def no_probe_but_def on_circuit_def split: sum.split http_result.split)
  next
    fix s :: chat_state and res assume "?K s"
    then show "case answered env tn i c route res s of (fl, s') \<Rightarrow> no_probe (srv s')"
      using answered_release by (simp add: case_prod_unfold)
  qed
  then show ?thesis by (simp add: case_prod_unfold)
qed

end
