(* ===== verification/Requests.thy ===== *)
theory Requests
  imports Handler_Frame
begin

text \<open>
  The request handler put together (\<open>Server.chat\<close> in \<open>server.go\<close>): the routing loop with
  its termination, admission, the claim of an idempotency key, and the deferred bookkeeping.
\<close>

section \<open>The routing loop\<close>

text \<open>
  \<open>k\<close> counts the turns, \<open>i\<close> is the route. The flag says whether the handler has returned.
\<close>

lemma turn_repeats:
  assumes "chat_turn env tn c skip i route st = (SameRoute, s)"
  shows "i \<notin> set (retriedRoute st)" "i \<in> set (retriedRoute s)"
  using turn_shows [where st = st and tn = tn and i = i and env = env and c = c and skip = skip and route = route] assms
  by (auto simp: turn_ok_def)

function route_loop :: "chat_env \<Rightarrow> Chat \<Rightarrow> nat list \<Rightarrow> Route list \<Rightarrow> nat \<Rightarrow> nat \<Rightarrow> chat_state \<Rightarrow> bool \<times> chat_state" where
  "route_loop env c skip routes k i st =
     (if i < length routes then
        case chat_turn env (turns env k) c skip i (routes ! i) st of
          (NextRoute, st) \<Rightarrow> route_loop env c skip routes (Suc k) (Suc i) st
        | (SameRoute, st) \<Rightarrow> route_loop env c skip routes (Suc k) i st
        | (LeaveLoop, st) \<Rightarrow> (False, st)
        | (Returned, st) \<Rightarrow> (True, st)
      else (False, st))"
  by pat_completeness auto

text \<open>Each route is visited at most twice, the second time only after it entered \<open>retriedRoute\<close>.\<close>

termination route_loop
  by (relation "measure (\<lambda>(env, c, skip, routes, k, i, st).
        2 * (length routes - i) - (if i \<in> set (retriedRoute st) then 1 else 0))")
    (auto dest: turn_repeats turn_repeats [OF sym])

declare route_loop.simps [simp del]

text \<open>
  Routes to pass over: those seen returning nothing at this budget, and those the fleet
  reports. If that is every route that could be tried, none is passed over.
\<close>

definition eligible_routes :: "instant \<Rightarrow> Chat \<Rightarrow> Route list \<Rightarrow> Server \<Rightarrow> nat list" where
  "eligible_routes now c routes s = filter (\<lambda>i. routable now (routes ! i) (Stream c) s) [0..<length routes]"

definition passed_over :: "instant \<Rightarrow> Chat \<Rightarrow> Route \<Rightarrow> Server \<Rightarrow> bool" where
  "passed_over now c route s \<longleftrightarrow>
     budget_skip now (Provider route) (Model route) (MaxTokens c) (budgets s) \<or>
     fleet_unhealthy now (Provider route) (fleet s)"

definition skip_routes :: "instant \<Rightarrow> Chat \<Rightarrow> Route list \<Rightarrow> Server \<Rightarrow> nat list" where
  "skip_routes now c routes s =
     (let eligible = eligible_routes now c routes s;
          skip = filter (\<lambda>i. passed_over now c (routes ! i) s) eligible
      in if length skip = length eligible then [] else skip)"

definition exhausted :: "Chat \<Rightarrow> chat_state \<Rightarrow> chat_state" where
  "exhausted c st =
     (let st = set_header ''Retry-After'' ''1'' st in
      if empties st \<noteq> [] then
        fail 503 (Plain (''no provider produced output within max_tokens='' @ itoa (MaxTokens c) @ '': '' @
            intersperse ''; '' (map emptyRoute_String (empties st)) @ ''; retry with a higher max_tokens''))
          (count_chat EmptyCompletionFailed st)
      else fail 503 (Plain ''routes unavailable or retry budget exhausted'') st)"

definition chat_routed :: "chat_env \<Rightarrow> Chat \<Rightarrow> chat_state \<Rightarrow> chat_state" where
  "chat_routed env c st =
     (case Current (route_at env) (Policies (srv st)) of
        None \<Rightarrow> fail 503 (Plain ''policy expired'') st
      | Some p \<Rightarrow>
          let st = on_event (\<lambda>ev. ev\<lparr>ev_PolicyVersion := Version p\<rparr>) st;
              skip = skip_routes (route_at env) c (Routes p) (srv st);
              (returned, st) = route_loop env c skip (Routes p) 0 0 st
          in if returned then st else exhausted c st)"

section \<open>Claiming a key\<close>

definition release_unsettled :: "chat_env \<Rightarrow> chat_state \<Rightarrow> chat_state" where
  "release_unsettled env st =
     (if idemSettled st then st
      else on_srv (\<lambda>s. s\<lparr>Idem := map_option (idem_release (sha (world_of env)) (idem_key env)) (Idem s)\<rparr>) st)"

definition chat_claimed :: "chat_env \<Rightarrow> Chat \<Rightarrow> idemStore \<Rightarrow> chat_state \<Rightarrow> chat_state" where
  "chat_claimed env c i st =
     (let (r, i, m) = idem_begin (sha (world_of env)) (claim_fate env) (route_at env) (idem_key env) (req_bytes env)
                        (i, metrics (srv st));
          st = on_srv (\<lambda>s. s\<lparr>Idem := Some i, metrics := m\<rparr>) st
      in if r = Inl errIdemMismatch then
           fail 422 (Plain ''this Idempotency-Key was already used with a different request body'') st
         else if r = Inl errIdemConflict then
           fail 409 (Plain (''this Idempotency-Key is in use, or its original outcome is unknown and '' @
             ''replaying it could charge a second time'')) st
         else
           case r of
             Inr (Some prior) \<Rightarrow> replay env prior st
           | _ \<Rightarrow> release_unsettled env (chat_routed env c st))"

section \<open>Admission\<close>

definition chat_init :: "chat_env \<Rightarrow> Server \<Rightarrow> chat_state" where
  "chat_init env s =
     (let (trace, parent) = traceIDs (fresh_trace env) (traceparent env);
          ev = empty_Event\<lparr>ID := fresh_event env, ev_RequestID := fresh_id env, ev_TraceID := trace, SpanID := fresh_span env,
                 ParentID := parent, Start := start_at env, ev_Status := 500\<rparr>
      in \<lparr>srv = count_metric Requests s, event = ev,
          headers = [(''X-Request-ID'', fresh_id env), (''traceparent'', ''00-'' @ trace @ ''-'' @ fresh_span env @ ''-01'')],
          client_log = [], sent_log = [], empties = [], retriedRoute = [], idemSettled = False,
          capturedPrompt = None, capturedCompletion = None, capturedText = []\<rparr>)"

text \<open>\<open>Inl\<close>: turned away. \<open>Inr\<close>: the request holds one of the concurrency slots.\<close>

definition chat_admit :: "chat_env \<Rightarrow> chat_state \<Rightarrow> chat_state + chat_state" where
  "chat_admit env st =
     (if \<not> authorized (world_of env) (auth_header env) (srv st) then Inl (fail 401 (Plain ''unauthorized'') st)
      else if \<not> ready (start_at env) (srv st) then Inl (fail 503 (Plain ''no valid routing policy or draining'') st)
      else if idem_key env \<noteq> [] \<and> Idem (srv st) = None then
        Inl (fail 400 (Plain (''idempotency keys are unsupported; set idempotency_ttl_seconds to enable them, '' @
          ''and do not automatically replay ambiguous inference failures'')) st)
      else
        let (ok, b) = bucket_allow (start_at env) (rate_limit (srv st));
            st = on_srv (\<lambda>s. s\<lparr>rate_limit := b\<rparr>) st
        in if \<not> ok then
             Inl (fail 429 (Plain ''rate limit'') (set_header ''Retry-After'' ''1'' (count_chat Rejected st)))
           else if slots (srv st) < Concurrency (C (srv st)) then
             Inr (on_srv (\<lambda>s. s\<lparr>metrics := Add Active 1 (metrics s)\<rparr>) (on_srv (\<lambda>s. s\<lparr>slots := slots s + 1\<rparr>) st))
           else
             Inl (fail 429 (Plain ''concurrency limit'') (set_header ''Retry-After'' ''1'' (count_chat Rejected st))))"

definition chat_admitted :: "chat_env \<Rightarrow> chat_state \<Rightarrow> chat_state" where
  "chat_admitted env st =
     (if req_unreadable env \<or> length (req_bytes env) > 2 ^ 20 then
        fail 413 (Plain ''request body too large or unreadable'') st
      else
        let st = st\<lparr>capturedPrompt := Some (req_bytes env)\<rparr> in
        case ParseChat (req_bytes env) of
          Inl e \<Rightarrow> fail 400 (OfParse e) st
        | Inr c \<Rightarrow>
            (case (if idem_key env \<noteq> [] then Idem (srv st) else None) of
               None \<Rightarrow> chat_routed env c st
             | Some i \<Rightarrow> chat_claimed env c i st))"

text \<open>Giving the slot back.\<close>

definition leave_slot :: "chat_state \<Rightarrow> chat_state" where
  "leave_slot st = on_srv (\<lambda>s. s\<lparr>slots := slots s - 1, metrics := Add Active (- 1) (metrics s)\<rparr>) st"

section \<open>The deferred bookkeeping\<close>

definition capture_of :: "chat_env \<Rightarrow> chat_state \<Rightarrow> captureRecord" where
  "capture_of env st =
     \<lparr>RequestID = ev_RequestID (event st), rec_TraceID = ev_TraceID (event st), PolicyVersion = ev_PolicyVersion (event st),
      rec_Provider = ev_Provider (event st), rec_Model = ev_Model (event st), rec_Attempts = ev_Attempts (event st),
      rec_Status = ev_Status (event st), rec_Fault = ev_Fault (event st), rec_Stored = unix (end_at env),
      Prompt = capturedPrompt st, Completion = capturedCompletion st, RawPrompt = [], PromptUnparseable = False,
      rec_Text = capturedText st\<rparr>"

definition elapsed_ms :: "chat_env \<Rightarrow> int64" where
  "elapsed_ms env = (let d = time_sub (end_at env) (start_at env) in sgn d * (\<bar>d\<bar> div millisecond))"

definition observe_route :: "chat_env \<Rightarrow> chat_state \<Rightarrow> chat_state" where
  "observe_route env st =
     (let ev = event st in
      if ev_Attempts ev > 0 then
        (let (t, m) = ObserveRoute (ev_Provider ev) (ev_Model ev) (ev_Status ev) (elapsed_ms env) (ev_Usage ev)
                        (route_table (srv st), metrics (srv st))
         in on_srv (\<lambda>s. s\<lparr>route_table := t, metrics := m\<rparr>) st)
      else st)"

definition count_error :: "chat_state \<Rightarrow> chat_state" where
  "count_error st = (if ev_Status (event st) \<ge> 400 \<or> StreamFailed (event st) then count_chat Errors st else st)"

definition emit_event :: "chat_state \<Rightarrow> chat_state" where
  "emit_event st =
     (case tel (srv st) of
        None \<Rightarrow> st
      | Some t \<Rightarrow>
          let (t, m) = Emit (C (srv st)) (event st) (t, metrics (srv st))
          in on_srv (\<lambda>s. s\<lparr>tel := Some t, metrics := m\<rparr>) st)"

definition write_capture :: "chat_env \<Rightarrow> chat_state \<Rightarrow> chat_state" where
  "write_capture env st =
     (case Captures (srv st) of
        None \<Rightarrow> st
      | Some cs \<Rightarrow>
          let (err, cs, m) = capture_Write (capture_fate env) (end_at env) (capture_of env st) (cs, metrics (srv st))
          in on_srv (\<lambda>s. s\<lparr>Captures := Some cs, metrics := m\<rparr>) st)"

definition chat_deferred :: "chat_env \<Rightarrow> chat_state \<Rightarrow> chat_state" where
  "chat_deferred env st =
     write_capture env (emit_event (count_error (observe_route env (on_event (\<lambda>ev. ev\<lparr>End := end_at env\<rparr>) st))))"

definition chat :: "chat_env \<Rightarrow> Server \<Rightarrow> chat_state" where
  "chat env s =
     chat_deferred env
       (case chat_admit env (chat_init env s) of
          Inl st \<Rightarrow> st
        | Inr st \<Rightarrow> leave_slot (chat_admitted env st))"

section \<open>Reasoning about the loop\<close>

lemma loop_rule:
  assumes turn: "\<And>k i st. P st \<Longrightarrow> i < length routes \<Longrightarrow>
      case chat_turn env (turns env k) c skip i (routes ! i) st of (fl, s) \<Rightarrow> if fl = Returned then Q s else P s"
    and "P st"
  shows "case route_loop env c skip routes k i st of (returned, s) \<Rightarrow> if returned then Q s else P s"
  using assms
proof (induction env c skip routes k i st rule: route_loop.induct)
  case (1 env c skip routes k i st)
  obtain fl s where t: "chat_turn env (turns env k) c skip i (routes ! i) st = (fl, s)" by fastforce
  show ?case
  proof (cases "i < length routes")
    case True
    then show ?thesis
      using 1(1,2) [OF True t [symmetric]] 1(3) [OF 1(4) True, of k] t 1(3)
      by (cases fl) (simp_all add: route_loop.simps [of env c skip routes k i st])
  next
    case False
    then show ?thesis using 1(4) by (simp add: route_loop.simps [of env c skip routes k i st])
  qed
qed

text \<open>The caller is answered once: by the turn that returns, or by what follows the loop.\<close>

definition still_open :: "chat_state \<Rightarrow> chat_state \<Rightarrow> bool" where
  "still_open st s \<longleftrightarrow> unanswered st (s\<lparr>retriedRoute := retriedRoute st, empties := empties st\<rparr>)"

lemma still_open_refl [simp]: "still_open st st"
  by (simp add: still_open_def)

lemma loop_answers:
  "case route_loop env c skip routes k i st of (returned, s) \<Rightarrow> if returned then answered_once st s else still_open st s"
proof (rule loop_rule)
  fix k i s assume "still_open st s"
  then show "case chat_turn env (turns env k) c skip i (routes ! i) s of
      (fl, s') \<Rightarrow> if fl = Returned then answered_once st s' else still_open st s'"
    using turn_shows [where st = s and tn = "turns env k" and i = i and env = env and c = c and skip = skip and route = "routes ! i"]
    by (auto simp: turn_ok_def still_open_def unanswered_def answered_once_def split: prod.splits if_splits)
qed simp

lemma open_fail: "still_open st s \<Longrightarrow> answered_once st (fail code msg s)"
  by (simp add: still_open_def answered_once_def unanswered_def response_ok_def)

lemma exhausted_answers: "still_open st s \<Longrightarrow> answered_once st (exhausted c s)"
  by (auto simp: exhausted_def Let_def still_open_def unanswered_def answered_once_def response_ok_def)

lemma answered_event: "answered_once (on_event g st) s = answered_once st s" "answered_once (on_srv h st) s = answered_once st s"
  by (simp_all add: answered_once_def)

lemma routed_answers: "answered_once st (chat_routed env c st)"
proof (cases "Current (route_at env) (Policies (srv st))")
  case None
  then show ?thesis by (simp add: chat_routed_def open_fail)
next
  case (Some p)
  let ?st = "on_event (\<lambda>ev. ev\<lparr>ev_PolicyVersion := Version p\<rparr>) st"
  let ?r = "route_loop env c (skip_routes (route_at env) c (Routes p) (srv ?st)) (Routes p) 0 0 ?st"
  have "answered_once ?st (if fst ?r then snd ?r else exhausted c (snd ?r))"
    using loop_answers [where st = ?st] exhausted_answers by (auto simp: case_prod_unfold split: if_splits)
  then show ?thesis
    using Some by (simp add: chat_routed_def Let_def case_prod_unfold answered_event)
qed

lemma release_unsettled_steps [simp]:
  "client_log (release_unsettled env st) = client_log st" "event (release_unsettled env st) = event st"
  "sent_log (release_unsettled env st) = sent_log st" "headers (release_unsettled env st) = headers st"
  by (simp_all add: release_unsettled_def)

lemma replay_answers: "answered_once st (replay env e st)"
  by (simp add: replay_def answered_once_def response_ok_def stream_writes_def Let_def)
    (metis append.simps(1) append.simps(2) list.simps(8) list.simps(9))

lemma claimed_answers: "answered_once st (chat_claimed env c i st)"
proof -
  obtain r i' m where b: "idem_begin (sha (world_of env)) (claim_fate env) (route_at env) (idem_key env) (req_bytes env)
      (i, metrics (srv st)) = (r, i', m)" by (metis prod_cases3)
  let ?st = "on_srv (\<lambda>s. s\<lparr>Idem := Some i', metrics := m\<rparr>) st"
  have "answered_once st (replay env e ?st)" "answered_once st (release_unsettled env (chat_routed env c ?st))"
    "answered_once st (fail code msg ?st)" for e code msg
    using replay_answers [of ?st env e] routed_answers [of ?st env c] open_fail [of ?st ?st code msg]
    by (simp_all add: answered_once_def)
  then show ?thesis
    by (auto simp: chat_claimed_def b Let_def split: sum.split option.split)
qed

lemma admitted_answers: "answered_once st (chat_admitted env st)"
proof -
  let ?st = "st\<lparr>capturedPrompt := Some (req_bytes env)\<rparr>"
  have "answered_once st (chat_routed env c ?st)" "answered_once st (chat_claimed env c i ?st)" for c i
    using routed_answers [of ?st env c] claimed_answers [of ?st env c i] by (simp_all add: answered_once_def)
  then show ?thesis
    by (auto simp: chat_admitted_def Let_def open_fail answered_once_def response_ok_def split: sum.split option.split)
qed

lemma admit_answers:
  "case chat_admit env st of Inl s \<Rightarrow> answered_once st s \<and> sent_log s = sent_log st | Inr s \<Rightarrow> unanswered st s \<and> sent_log s = sent_log st"
  by (auto simp: chat_admit_def Let_def case_prod_unfold answered_once_def response_ok_def)

lemma write_capture_steps [simp]:
  "client_log (write_capture env st) = client_log st" "sent_log (write_capture env st) = sent_log st"
  "event (write_capture env st) = event st" "headers (write_capture env st) = headers st"
  by (auto simp: write_capture_def Let_def case_prod_unfold split: option.split)

lemma emit_event_steps [simp]:
  "client_log (emit_event st) = client_log st" "sent_log (emit_event st) = sent_log st"
  "event (emit_event st) = event st" "headers (emit_event st) = headers st"
  by (auto simp: emit_event_def Let_def case_prod_unfold split: option.split)

lemma count_error_steps [simp]:
  "client_log (count_error st) = client_log st" "sent_log (count_error st) = sent_log st"
  "event (count_error st) = event st" "headers (count_error st) = headers st"
  by (simp_all add: count_error_def) (simp add: count_chat_def)

lemma observe_route_steps [simp]:
  "client_log (observe_route env st) = client_log st" "sent_log (observe_route env st) = sent_log st"
  "event (observe_route env st) = event st" "headers (observe_route env st) = headers st"
  by (auto simp: observe_route_def Let_def case_prod_unfold)

lemma deferred_steps:
  "client_log (chat_deferred env st) = client_log st" "sent_log (chat_deferred env st) = sent_log st"
  "event (chat_deferred env st) = (event st)\<lparr>End := end_at env\<rparr>" "headers (chat_deferred env st) = headers st"
  by (simp_all add: chat_deferred_def)

lemma leave_slot_steps [simp]:
  "client_log (leave_slot st) = client_log st" "event (leave_slot st) = event st" "sent_log (leave_slot st) = sent_log st"
  "headers (leave_slot st) = headers st"
  by (simp_all add: leave_slot_def)

lemma answered_leave: "answered_once st (leave_slot s) = answered_once st s"
  by (simp add: answered_once_def)

lemma chat_answers: "response_ok (client_log (chat env s)) (event (chat env s))"
proof -
  have fresh: "client_log (chat_init env s) = []" by (simp add: chat_init_def case_prod_unfold Let_def)
  have "answered_once (chat_init env s) (case chat_admit env (chat_init env s) of Inl st \<Rightarrow> st | Inr st \<Rightarrow> leave_slot (chat_admitted env st))"
    using admit_answers [where st = "chat_init env s" and env = env] answered_once_trans [OF _ admitted_answers]
    by (auto simp: answered_leave split: sum.splits)
  then show ?thesis
    by (auto simp: chat_def deferred_steps answered_once_def fresh response_ok_def)
qed

section \<open>Attempts and requests\<close>

text \<open>Other goroutines do not change the configuration.\<close>

definition config_fixed :: "chat_env \<Rightarrow> bool" where
  "config_fixed env \<longleftrightarrow>
     (\<forall>k s. C (turn_others (turns env k) s) = C s \<and> C (answer_others (turns env k) s) = C s)"

definition spent_within :: "Config \<Rightarrow> chat_state \<Rightarrow> bool" where
  "spent_within cfg s \<longleftrightarrow>
     C (srv s) = cfg \<and> 0 \<le> tries s \<and> tries s \<le> max 0 (MaxAttempts cfg) \<and> int (length (sent_log s)) \<le> 2 * tries s"

lemma turn_within:
  assumes "config_fixed env" "spent_within cfg st"
  shows "spent_within cfg (snd (chat_turn env (turns env k) c skip i route st))"
proof -
  have "C (srv (snd (chat_turn env (turns env k) c skip i route st))) = cfg"
    using assms config.turn_keeps [where x = cfg and tn = "turns env k"] by (simp add: config_fixed_def spent_within_def)
  then show ?thesis
    using assms turn_shows [where st = st and tn = "turns env k" and i = i and env = env and c = c and skip = skip and route = route]
    by (auto simp: spent_within_def turn_ok_def config_fixed_def case_prod_unfold)
qed

lemma loop_within:
  assumes "config_fixed env" "spent_within cfg st"
  shows "spent_within cfg (snd (route_loop env c skip routes k i st))"
  using loop_rule [where P = "spent_within cfg" and Q = "spent_within cfg" and env = env and routes = routes and c = c and skip = skip
      and st = st and k = k and i = i] turn_within [OF assms(1), of cfg] assms(2)
  by (auto simp: case_prod_unfold)

lemma within_steps [simp]:
  "spent_within cfg (fail code msg s) = spent_within cfg s" "spent_within cfg (set_header k v s) = spent_within cfg s"
  "spent_within cfg (count_chat m s) = spent_within cfg s"
  by (simp_all add: spent_within_def)

lemma routed_within:
  assumes "config_fixed env" "spent_within cfg st"
  shows "spent_within cfg (chat_routed env c st)"
proof -
  have "spent_within cfg (on_event (\<lambda>ev. ev\<lparr>ev_PolicyVersion := v\<rparr>) st)" for v
    using assms(2) by (simp add: spent_within_def tries_def)
  then show ?thesis
    using assms(2) loop_within [OF assms(1)]
    by (auto simp: chat_routed_def exhausted_def Let_def case_prod_unfold split: option.split)
qed

lemma within_release: "spent_within cfg (release_unsettled env s) = spent_within cfg s"
  by (simp add: spent_within_def tries_def) (simp add: release_unsettled_def)

lemma replay_within: "spent_within cfg (replay env e s) = spent_within cfg s"
  by (simp add: spent_within_def tries_def replay_def Let_def)

lemma claimed_within:
  assumes "config_fixed env" "spent_within cfg st"
  shows "spent_within cfg (chat_claimed env c i st)"
proof -
  obtain r i' m where b: "idem_begin (sha (world_of env)) (claim_fate env) (route_at env) (idem_key env) (req_bytes env)
      (i, metrics (srv st)) = (r, i', m)" by (metis prod_cases3)
  have "spent_within cfg (on_srv (\<lambda>s. s\<lparr>Idem := Some i', metrics := m\<rparr>) st)"
    using assms(2) by (simp add: spent_within_def)
  then show ?thesis
    using routed_within [OF assms(1)]
    by (auto simp: chat_claimed_def b Let_def within_release replay_within split: sum.split option.split)
qed

lemma admitted_within:
  assumes "config_fixed env" "spent_within cfg st"
  shows "spent_within cfg (chat_admitted env st)"
proof -
  have "spent_within cfg (st\<lparr>capturedPrompt := Some (req_bytes env)\<rparr>)" using assms(2) by (simp add: spent_within_def tries_def)
  then show ?thesis
    using assms routed_within claimed_within
    by (auto simp: chat_admitted_def Let_def split: sum.split option.split)
qed

lemma admit_within:
  assumes "spent_within cfg st"
  shows "case chat_admit env st of Inl s \<Rightarrow> spent_within cfg s | Inr s \<Rightarrow> spent_within cfg s"
  using assms by (auto simp: chat_admit_def Let_def case_prod_unfold) (simp_all add: spent_within_def)

lemma chat_within:
  assumes "config_fixed env"
  shows "ev_Attempts (event (chat env s)) \<le> max 0 (MaxAttempts (C s))"
    and "int (length (sent_log (chat env s))) \<le> 2 * ev_Attempts (event (chat env s))"
proof -
  have "spent_within (C s) (chat_init env s)"
    by (simp add: spent_within_def tries_def chat_init_def empty_Event_def Let_def case_prod_unfold)
  then have "spent_within (C s) (case chat_admit env (chat_init env s) of Inl st \<Rightarrow> st | Inr st \<Rightarrow> chat_admitted env st)"
    using admit_within [where cfg = "C s" and st = "chat_init env s" and env = env] admitted_within [OF assms]
    by (auto split: sum.splits)
  then show "ev_Attempts (event (chat env s)) \<le> max 0 (MaxAttempts (C s))"
    "int (length (sent_log (chat env s))) \<le> 2 * ev_Attempts (event (chat env s))"
    by (auto simp: chat_def deferred_steps spent_within_def tries_def split: sum.splits)
qed

end
