(* ===== verification/Guarantees.thy ===== *)
theory Guarantees
  imports Requests
begin

text \<open>
  What a whole request guarantees: the recovery probes are given back, an idempotency key is
  settled exactly when a provider may have generated, a settled key is never sent to a
  provider again, and a route that could be tried is tried.
\<close>

section \<open>Shared state through a whole request\<close>

context server_inv
begin

lemma loop_keeps:
  assumes "\<And>k s. I s \<Longrightarrow> I (turn_others (turns env k) s)" "\<And>k s. I s \<Longrightarrow> I (answer_others (turns env k) s)" "I (srv st)"
  shows "I (srv (snd (route_loop env c skip routes k i st)))"
proof -
  have "case route_loop env c skip routes k i st of (returned, s) \<Rightarrow> if returned then I (srv s) else I (srv s)"
    using assms by (intro loop_rule) (auto simp: case_prod_unfold intro!: turn_keeps)
  then show ?thesis by (simp add: case_prod_unfold)
qed

lemma routed_keeps:
  assumes "\<And>k s. I s \<Longrightarrow> I (turn_others (turns env k) s)" "\<And>k s. I s \<Longrightarrow> I (answer_others (turns env k) s)" "I (srv st)"
  shows "I (srv (chat_routed env c st))"
  using assms
  by (auto simp: chat_routed_def exhausted_def Let_def case_prod_unfold intro!: loop_keeps primitive split: option.split)

lemma claimed_keeps:
  assumes "\<And>k s. I s \<Longrightarrow> I (turn_others (turns env k) s)" "\<And>k s. I s \<Longrightarrow> I (answer_others (turns env k) s)" "I (srv st)"
  shows "I (srv (chat_claimed env c i st))"
proof -
  obtain r i' m where b: "idem_begin (sha (world_of env)) (claim_fate env) (route_at env) (idem_key env) (req_bytes env)
      (i, metrics (srv st)) = (r, i', m)" by (metis prod_cases3)
  have "I (srv (on_srv (\<lambda>s. s\<lparr>Idem := Some i', metrics := m\<rparr>) st))" using assms(3) by (simp add: primitive)
  then show ?thesis
    using routed_keeps [OF assms(1,2)]
    by (auto simp: chat_claimed_def b Let_def replay_def release_unsettled_def intro!: primitive split: sum.split option.split)
qed

lemma admitted_keeps:
  assumes "\<And>k s. I s \<Longrightarrow> I (turn_others (turns env k) s)" "\<And>k s. I s \<Longrightarrow> I (answer_others (turns env k) s)" "I (srv st)"
  shows "I (srv (chat_admitted env st))"
  using assms routed_keeps [OF assms(1,2)] claimed_keeps [OF assms(1,2)]
  by (auto simp: chat_admitted_def Let_def split: sum.split option.split)

end

section \<open>The concurrency slot\<close>

interpretation slot: server_inv "\<lambda>s. slots s = n" for n
  by unfold_locales simp_all

lemma deferred_srv:
  "slots (srv (chat_deferred env st)) = slots (srv st)" "circuits (srv (chat_deferred env st)) = circuits (srv st)"
  "Idem (srv (chat_deferred env st)) = Idem (srv st)"
proof -
  have "slots (srv (write_capture env st)) = slots (srv st) \<and> circuits (srv (write_capture env st)) = circuits (srv st) \<and> Idem (srv (write_capture env st)) = Idem (srv st)"
    "slots (srv (emit_event st)) = slots (srv st) \<and> circuits (srv (emit_event st)) = circuits (srv st) \<and> Idem (srv (emit_event st)) = Idem (srv st)"
    "slots (srv (count_error st)) = slots (srv st) \<and> circuits (srv (count_error st)) = circuits (srv st) \<and> Idem (srv (count_error st)) = Idem (srv st)"
    "slots (srv (observe_route env st)) = slots (srv st) \<and> circuits (srv (observe_route env st)) = circuits (srv st) \<and> Idem (srv (observe_route env st)) = Idem (srv st)" for st
    by (simp_all add: write_capture_def emit_event_def count_error_def observe_route_def Let_def case_prod_unfold split: option.split)
  then show "slots (srv (chat_deferred env st)) = slots (srv st)" "circuits (srv (chat_deferred env st)) = circuits (srv st)"
    "Idem (srv (chat_deferred env st)) = Idem (srv st)"
    by (simp_all add: chat_deferred_def)
qed

lemma init_srv: "srv (chat_init env s) = count_metric Requests s"
  by (simp add: chat_init_def Let_def case_prod_unfold)

lemma admit_slot:
  "case chat_admit env st of
     Inl s \<Rightarrow> slots (srv s) = slots (srv st)
   | Inr s \<Rightarrow> slots (srv s) = slots (srv st) + 1 \<and> slots (srv s) \<le> Concurrency (C (srv st))"
  by (simp add: chat_admit_def Let_def case_prod_unfold)

lemma chat_slots:
  assumes "\<And>k s. slots (turn_others (turns env k) s) = slots s" "\<And>k s. slots (answer_others (turns env k) s) = slots s"
  shows "slots (srv (chat env s)) = slots s"
proof -
  have "slots (srv (chat_admitted env st)) = slots (srv st)" for st
    using assms by (intro slot.admitted_keeps) auto
  then show ?thesis
    using admit_slot [where env = env and st = "chat_init env s"]
    by (auto simp: chat_def deferred_srv leave_slot_def init_srv split: sum.splits)
qed

section \<open>Recovery probes through a whole request\<close>

definition probes_safe :: "chat_env \<Rightarrow> bool" where
  "probes_safe env \<longleftrightarrow> (\<forall>k. probe_safe (turn_others (turns env k)) \<and> probe_safe (answer_others (turns env k)))"

lemma loop_release:
  assumes "probes_safe env" "no_probe (srv st)"
  shows "no_probe (srv (snd (route_loop env c skip routes k i st)))"
proof -
  have "case route_loop env c skip routes k i st of (returned, s) \<Rightarrow> if returned then no_probe (srv s) else no_probe (srv s)"
    using assms by (intro loop_rule) (auto simp: case_prod_unfold probes_safe_def intro!: turn_release)
  then show ?thesis by (simp add: case_prod_unfold)
qed

lemma no_probe_fields [simp]:
  "no_probe_but P (s\<lparr>metrics := m\<rparr>) = no_probe_but P s" "no_probe_but P (s\<lparr>Idem := i\<rparr>) = no_probe_but P s"
  "no_probe_but P (s\<lparr>slots := n\<rparr>) = no_probe_but P s" "no_probe_but P (s\<lparr>rate_limit := b\<rparr>) = no_probe_but P s"
  by (simp_all add: no_probe_but_def)

lemma routed_release:
  assumes "probes_safe env" "no_probe (srv st)"
  shows "no_probe (srv (chat_routed env c st))"
  using assms loop_release [OF assms(1)]
  by (auto simp: chat_routed_def exhausted_def Let_def case_prod_unfold split: option.split)

lemma claimed_release:
  assumes "probes_safe env" "no_probe (srv st)"
  shows "no_probe (srv (chat_claimed env c i st))"
proof -
  obtain r i' m where b: "idem_begin (sha (world_of env)) (claim_fate env) (route_at env) (idem_key env) (req_bytes env)
      (i, metrics (srv st)) = (r, i', m)" by (metis prod_cases3)
  show ?thesis
    using assms(2) routed_release [OF assms(1)]
    by (auto simp: chat_claimed_def b Let_def replay_def release_unsettled_def split: sum.split option.split)
qed

lemma chat_release:
  assumes "probes_safe env" "no_probe s"
  shows "no_probe (srv (chat env s))"
proof -
  have "no_probe (srv (chat_admitted env st))" if "no_probe (srv st)" for st
    using that routed_release [OF assms(1)] claimed_release [OF assms(1)]
    by (auto simp: chat_admitted_def Let_def split: sum.split option.split)
  moreover have "case chat_admit env (chat_init env s) of Inl st \<Rightarrow> no_probe (srv st) | Inr st \<Rightarrow> no_probe (srv st)"
    using assms(2) by (simp add: chat_admit_def Let_def case_prod_unfold init_srv)
  ultimately show ?thesis
    by (auto simp: chat_def no_probe_cong [OF deferred_srv(2)] leave_slot_def split: sum.splits)
qed

section \<open>Idempotency keys through a whole request\<close>

text \<open>
  What a request that holds a key leaves in the store: the claim as it was and an error
  response, or an entry that repeats the response, or an entry that says the outcome is
  unknown.
\<close>

definition repeats :: "idemEntry \<Rightarrow> client_write list \<Rightarrow> bool" where
  "repeats e ws \<longleftrightarrow>
     entry_Status e = 200 \<and>
     (if entry_Stream e then \<exists>chs. ws = map WChunk chs @ [WDone] \<and> entry_Text e = concat (map chunk_text chs)
      else \<exists>body. Response e = Some body \<and> ws = [WBody 200 (Some body)])"

definition entry_for :: "chat_env \<Rightarrow> instant \<Rightarrow> idemEntry \<Rightarrow> client_write list \<Rightarrow> bool" where
  "entry_for env now e ws \<longleftrightarrow>
     Stored e = unix now \<and> BodyHash e = hashBody (sha (world_of env)) (req_bytes env) \<and>
     (State e = idemUnknown \<or> State e = idemDone \<and> repeats e ws)"

definition settled_by :: "chat_env \<Rightarrow> turn \<Rightarrow> idemStore \<Rightarrow> idemEntry \<Rightarrow> chat_state \<Rightarrow> bool" where
  "settled_by env tn i e s \<longleftrightarrow>
     idemSettled s \<and>
     (\<exists>m. Idem (srv s) = Some (fst (idem_finish (sha (world_of env)) (idem_fate tn) (answer_now tn) (idem_key env) e (i, m))))"

definition holding :: "idemStore \<Rightarrow> chat_state \<Rightarrow> bool" where
  "holding i s \<longleftrightarrow> \<not> idemSettled s \<and> Idem (srv s) = Some i"

definition key_left :: "chat_env \<Rightarrow> turn \<Rightarrow> idemStore \<Rightarrow> chat_state \<Rightarrow> flow \<Rightarrow> chat_state \<Rightarrow> bool" where
  "key_left env tn i st fl s \<longleftrightarrow>
     (if fl = Returned then
        (holding i s \<and> (\<exists>code msg. client_log s = client_log st @ [WProblem code msg])) \<or>
        (\<exists>e ws. settled_by env tn i e s \<and> client_log s = client_log st @ ws \<and> entry_for env (answer_now tn) e ws)
      else holding i s \<and> client_log s = client_log st)"

lemma idem_seen [simp]:
  "idemSettled (set_header k v s) = idemSettled s" "idemSettled (del_header k s) = idemSettled s"
  "idemSettled (count_chat m s) = idemSettled s" "idemSettled (fail code msg s) = idemSettled s"
  "idemSettled (take_route route s) = idemSettled s" "idemSettled (empty_answer tn c route reasoning s) = idemSettled s"
  "idemSettled (full_answer tn c route fin text s) = idemSettled s"
  "Idem (on_circuit p f x) = Idem x" "Idem (share p fl x) = Idem x" "Idem (markHealthy p x) = Idem x"
  "Idem (srv (empty_answer tn c route reasoning s)) = Idem (srv s)" "Idem (srv (full_answer tn c route fin text s)) = Idem (srv s)"
  "Idem (srv (accept_headers route s)) = Idem (srv s)"
  by (simp_all add: handler_defs empty_answer_def full_answer_def share_def markHealthy_def accept_headers_def Let_def)

lemma settle_settles:
  assumes "holding i s" "idem_key env \<noteq> []"
  shows "settled_by env tn i e (idem_settle env (idem_fate tn) (answer_now tn) e s)"
  using assms by (auto simp: settled_by_def idem_settle_def holding_def Let_def case_prod_unfold)

lemma settled_by_steps [simp]:
  "settled_by env tn i e (fail code msg s) = settled_by env tn i e s" "settled_by env tn i e (set_header k v s) = settled_by env tn i e s"
  "settled_by env tn i e (s\<lparr>client_log := cl\<rparr>) = settled_by env tn i e s"
  by (simp_all add: settled_by_def handler_defs Let_def)

definition unknown_entry :: "chat_env \<Rightarrow> instant \<Rightarrow> idemEntry" where
  "unknown_entry env now =
     empty_idemEntry\<lparr>State := idemUnknown, BodyHash := hashBody (sha (world_of env)) (req_bytes env), Stored := unix now\<rparr>"

lemma unknown_entry_for [simp]: "entry_for env now (unknown_entry env now) ws"
  by (simp add: entry_for_def unknown_entry_def)

lemma settle_unknown:
  assumes "holding i s" "idem_key env \<noteq> []"
  shows "settled_by env tn i (unknown_entry env (answer_now tn)) (settleUnknown env (idem_fate tn) (answer_now tn) s)"
  unfolding settleUnknown_def unknown_entry_def [symmetric] using settle_settles [OF assms] .

lemma parts_key:
  assumes "holding i st" "idem_key env \<noteq> []"
  shows "key_left env tn i st (fst (transport_failed env tn route st)) (snd (transport_failed env tn route st))"
    "key_left env tn i st (fst (rate_limited tn j route wait st)) (snd (rate_limited tn j route wait st))"
    "key_left env tn i st (fst (terminal_refusal tn route status b st)) (snd (terminal_refusal tn route status b st))"
proof -
  let ?st = "on_srv (on_circuit (Provider route) (if client_gone tn then circuit_release else circuit_result (answer_now tn) True)) st"
  have "settled_by env tn i (unknown_entry env (answer_now tn)) (settleUnknown env (idem_fate tn) (answer_now tn) ?st)"
    using assms by (intro settle_unknown) (simp_all add: holding_def)
  then show "key_left env tn i st (fst (transport_failed env tn route st)) (snd (transport_failed env tn route st))"
    by (auto simp: transport_failed_def key_left_def Let_def)
  show "key_left env tn i st (fst (rate_limited tn j route wait st)) (snd (rate_limited tn j route wait st))"
    "key_left env tn i st (fst (terminal_refusal tn route status b st)) (snd (terminal_refusal tn route status b st))"
    using assms by (auto simp: rate_limited_def terminal_refusal_def key_left_def Let_def)
      (auto simp: holding_def)
qed

lemma key_left_event: "key_left env tn i (on_event g st) fl s = key_left env tn i st fl s"
  by (simp add: key_left_def)

lemma refused_key:
  assumes "holding i st" "idem_key env \<noteq> []"
  shows "key_left env tn i st (fst (refused env tn j route r st)) (snd (refused env tn j route r st))"
proof -
  have "holding i (on_event g st)" for g using assms(1) by (simp add: holding_def)
  note ends = parts_key(2,3) [OF this assms(2), unfolded key_left_event]
  show ?thesis
    using assms
    by (cases "classify (StatusCode r) (take (2 ^ 16) (body_bytes (payload r)))")
      (simp_all add: refused_def Let_def ends, simp_all add: key_left_def holding_def)
qed

lemma empty_answer_log [simp]: "client_log (empty_answer tn c route reasoning s) = client_log s"
  by (simp add: empty_answer_def Let_def)

lemma accepted_stream_key:
  assumes "holding i st" "idem_key env \<noteq> []"
  shows "key_left env tn i st (fst (accepted_stream env tn c route r st)) (snd (accepted_stream env tn c route r st))"
proof -
  let ?se = "\<lparr>env_route = route, env_id = ev_RequestID (event st), env_created = unix (start_at env), accepts = turn_accepts tn\<rparr>"
  obtain e ss where e: "stream ?se (payload r) (metrics (srv st)) (client_log st) = (e, ss)" by fastforce
  let ?now = "answer_now tn"
  let ?s1 = "on_srv (\<lambda>s. s\<lparr>metrics := stream_counters ss\<rparr>) ((stream_headers route (payload r) st)\<lparr>client_log := client ss\<rparr>)"
  let ?s2 = "on_srv (on_circuit (Provider route) (circuit_result ?now (e \<noteq> StreamOK)))
    (on_event (\<lambda>ev. ev\<lparr>ev_Status := 200, ev_Usage := out_usage ss\<rparr>) ?s1)"
  have hold: "holding i ?s1" "holding i ?s2" using assms(1) by (simp_all add: holding_def)
  show ?thesis
  proof (cases e)
    case StreamEmpty
    then have "client ss = client_log st" using e stream_empty_sent_nothing(1) by blast
    then show ?thesis
      using StreamEmpty hold(1) by (simp add: accepted_stream_def e Let_def key_left_def holding_def)
  next
    case StreamBroken
    have "settled_by env tn i (unknown_entry env ?now) (settleUnknown env (idem_fate tn) ?now (on_event (\<lambda>ev. ev\<lparr>StreamFailed := True\<rparr>) ?s2))"
      using hold(2) assms(2) by (intro settle_unknown) (simp_all add: holding_def)
    moreover obtain ws where "client ss = client_log st @ ws" using stream_shape [OF e] StreamBroken by auto
    ultimately show ?thesis
      using StreamBroken by (auto simp: accepted_stream_def e Let_def key_left_def)
  next
    case StreamOK
    let ?e = "\<lparr>State = idemDone, BodyHash = hashBody (sha (world_of env)) (req_bytes env), Stored = unix ?now,
      entry_Status = 200, entry_Stream = True, Response = None, entry_Text = out_text ss, entry_Finish = out_finish ss\<rparr>"
    obtain ws where ws: "client ss = client_log st @ map WChunk ws @ [WDone]" "out_text ss = concat (map chunk_text ws)"
      using stream_ok_relayed e StreamOK by blast
    have "settled_by env tn i ?e (idem_settle env (idem_fate tn) ?now ?e
        ((full_answer tn c route (out_finish ss) (out_text ss) ?s2)\<lparr>capturedText := out_text ss\<rparr>))"
      using hold(2) assms(2) by (intro settle_settles) (simp_all add: holding_def)
    moreover have "entry_for env ?now ?e (map WChunk ws @ [WDone])"
      using ws(2) by (auto simp: entry_for_def repeats_def)
    ultimately show ?thesis
      using StreamOK ws(1) by (auto simp: accepted_stream_def e Let_def key_left_def)
  qed
qed

lemma accepted_whole_key:
  assumes "holding i st" "idem_key env \<noteq> []"
  shows "key_left env tn i st (fst (accepted_whole env tn c route r st)) (snd (accepted_whole env tn c route r st))"
proof -
  obtain n fin e where n: "normalize (Provider route) (body_bytes (payload r)) False = (n, fin, e)" by (metis prod_cases3)
  let ?now = "answer_now tn"
  have unknown: "\<exists>e. settled_by env tn i e (settleUnknown env (idem_fate tn) ?now s) \<and> entry_for env ?now e ws" if "holding i s" for s ws
    using settle_unknown [OF that assms(2)] unknown_entry_for by blast
  have stored: "\<exists>e. settled_by env tn i e (idem_settle env (idem_fate tn) ?now
        \<lparr>State = idemDone, BodyHash = hashBody (sha (world_of env)) (req_bytes env), Stored = unix ?now,
         entry_Status = 200, entry_Stream = False, Response = Some body, entry_Text = [], entry_Finish = []\<rparr> s) \<and>
      entry_for env ?now e [WBody 200 (Some body)]" if "holding i s" for s body
    by (rule exI, rule conjI, rule settle_settles [OF that assms(2)]) (simp add: entry_for_def repeats_def)
  show ?thesis
    using assms(1)
    by (auto simp: accepted_whole_def n Let_def key_left_def intro!: unknown stored) (simp_all add: holding_def)
qed

lemma answered_key:
  assumes "holding i st" "idem_key env \<noteq> []"
  shows "key_left env tn i st (fst (answered env tn j c route res st)) (snd (answered env tn j c route res st))"
proof -
  have "holding i (accept_headers route st)" using assms(1) by (simp add: holding_def)
  note accepted = accepted_stream_key [OF this assms(2)] accepted_whole_key [OF this assms(2)]
  have same: "key_left env tn i (accept_headers route st) fl s = key_left env tn i st fl s" for tn fl s
    by (simp add: key_left_def)
  show ?thesis
    using accepted [unfolded same] parts_key(1) [OF assms] refused_key [OF assms]
    by (simp add: answered_def split: http_result.split)
qed

text \<open>No other request touches the store meanwhile.\<close>

definition store_fixed :: "chat_env \<Rightarrow> bool" where
  "store_fixed env \<longleftrightarrow>
     (\<forall>k s. Idem (turn_others (turns env k) s) = Idem s \<and> Idem (answer_others (turns env k) s) = Idem s)"

lemma turn_key:
  assumes "Idem (turn_others tn (srv st)) = Idem (srv st)" "\<And>s. Idem (answer_others tn s) = Idem s"
    and "holding i st" "idem_key env \<noteq> []"
  shows "case chat_turn env tn c skip j route st of (fl, s) \<Rightarrow> key_left env tn i st fl s"
proof (rule turn_rule)
  let ?H = "\<lambda>s :: chat_state. holding i s \<and> client_log s = client_log st"
  let ?Q = "key_left env tn i st"
  have "?H (on_srv (turn_others tn) st)" using assms(1,3) by (simp add: holding_def)
  then show "holds (\<lambda>_. ?H) ?Q (route_gate tn c skip j route (on_srv (turn_others tn) st))"
    by (auto simp: route_gate_def Let_def case_prod_unfold key_left_def holding_def split: option.split)
  fix s :: chat_state assume "?H s"
  then show "holds (\<lambda>_. ?H) ?Q (retry_gate tn route s)"
    by (auto simp: retry_gate_def Let_def case_prod_unfold key_left_def holding_def)
next
  fix s s' :: chat_state and sent
  assume "holding i s \<and> client_log s = client_log st"
    "mark_prompt env tn route (drop_temperature tn c route (take_route route s)) = (sent, s')"
  then show "holding i s' \<and> client_log s' = client_log st"
    using prepare_shows [of env tn route c s sent s']
    by (auto simp: mark_prompt_def drop_temperature_def Let_def case_prod_unfold holding_def take_route_def split: option.splits if_splits)
next
  fix s :: chat_state and sent pc assume "holding i s \<and> client_log s = client_log st"
  then show "holds (\<lambda>_ s. holding i s \<and> client_log s = client_log st) (key_left env tn i st) (exchange env tn sent route pc s)"
    by (auto simp: exchange_def do_request_def Let_def key_left_def holding_def assms(2) split: sum.split http_result.split)
next
  fix s :: chat_state and res assume s: "holding i s \<and> client_log s = client_log st"
  then have "key_left env tn i s fl x = key_left env tn i st fl x" for fl x by (simp add: key_left_def)
  then show "case answered env tn j c route res s of (fl, s') \<Rightarrow> key_left env tn i st fl s'"
    using answered_key [of i s env tn j c route res] s assms(4) by (simp add: case_prod_unfold)
qed

lemma loop_key:
  assumes "store_fixed env" "holding i st" "idem_key env \<noteq> []"
  shows "case route_loop env c skip routes k j st of (returned, s) \<Rightarrow>
    if returned then \<exists>k. key_left env (turns env k) i st Returned s else holding i s \<and> client_log s = client_log st"
proof (rule loop_rule)
  fix k j s assume s: "holding i s \<and> client_log s = client_log st"
  then have same: "key_left env tn i s fl x = key_left env tn i st fl x" for tn fl x by (simp add: key_left_def)
  have "case chat_turn env (turns env k) c skip j (routes ! j) s of (fl, x) \<Rightarrow> key_left env (turns env k) i s fl x"
    using assms s by (intro turn_key) (auto simp: store_fixed_def)
  then show "case chat_turn env (turns env k) c skip j (routes ! j) s of (fl, x) \<Rightarrow>
      if fl = Returned then \<exists>k. key_left env (turns env k) i st Returned x else holding i x \<and> client_log x = client_log st"
    by (auto simp: same case_prod_unfold) (simp add: key_left_def)+
qed (use assms(2) in simp)

lemma routed_key:
  assumes "store_fixed env" "holding i st" "idem_key env \<noteq> []"
  shows "\<exists>k. key_left env (turns env k) i st Returned (chat_routed env c st)"
proof (cases "Current (route_at env) (Policies (srv st))")
  case None
  then show ?thesis using assms(2) by (auto simp: chat_routed_def key_left_def holding_def)
next
  case (Some p)
  let ?st = "on_event (\<lambda>ev. ev\<lparr>ev_PolicyVersion := Version p\<rparr>) st"
  let ?r = "route_loop env c (skip_routes (route_at env) c (Routes p) (srv ?st)) (Routes p) 0 0 ?st"
  have "case ?r of (returned, s) \<Rightarrow> if returned then \<exists>k. key_left env (turns env k) i ?st Returned s
      else holding i s \<and> client_log s = client_log ?st"
    using assms by (intro loop_key) (auto simp: holding_def)
  then show ?thesis
    using Some
    by (auto simp: chat_routed_def Let_def case_prod_unfold key_left_event split: if_splits)
      (auto simp: exhausted_def key_left_def holding_def Let_def)
qed

text \<open>
  The claim, the request and what is left of the key. \<open>left_entry\<close> is what the next
  request with the key finds.
\<close>

lemma claimed_key:
  assumes "store_fixed env" "idem_key env \<noteq> []" "\<not> idemSettled st"
    and granted: "idem_begin (sha (world_of env)) (claim_fate env) (route_at env) (idem_key env) (req_bytes env)
      (i, metrics (srv st)) = (Inr None, i', m)"
  obtains (given_back) code msg where "Idem (srv (chat_claimed env c i st)) = Some (idem_release (sha (world_of env)) (idem_key env) i')"
      "client_log (chat_claimed env c i st) = client_log st @ [WProblem code msg]"
  | (settled) k e ws m' where
      "Idem (srv (chat_claimed env c i st)) =
        Some (fst (idem_finish (sha (world_of env)) (idem_fate (turns env k)) (answer_now (turns env k)) (idem_key env) e (i', m')))"
      "client_log (chat_claimed env c i st) = client_log st @ ws" "entry_for env (answer_now (turns env k)) e ws"
proof -
  let ?st = "on_srv (\<lambda>s. s\<lparr>Idem := Some i', metrics := m\<rparr>) st"
  let ?s = "chat_routed env c ?st"
  have c: "chat_claimed env c i st = release_unsettled env ?s"
    by (simp add: chat_claimed_def granted Let_def)
  obtain k where "key_left env (turns env k) i' ?st Returned ?s"
    using routed_key [OF assms(1) _ assms(2), of i' ?st c] assms(3) by (auto simp: holding_def)
  then show ?thesis
    using given_back settled [of k] unfolding c
    by (auto simp: key_left_def holding_def settled_by_def release_unsettled_def)
qed

text \<open>A request whose key has a live entry never reaches a provider; it is answered from the entry.\<close>

definition entry_answer :: "chat_env \<Rightarrow> idemEntry \<Rightarrow> client_write list" where
  "entry_answer env e =
     (if BodyHash e \<noteq> hashBody (sha (world_of env)) (req_bytes env) then
        [WProblem 422 (Plain ''this Idempotency-Key was already used with a different request body'')]
      else if State e \<noteq> idemDone then
        [WProblem 409 (Plain (''this Idempotency-Key is in use, or its original outcome is unknown and '' @
           ''replaying it could charge a second time''))]
      else if \<not> entry_Stream e then [WBody (entry_Status e) (Response e)]
      else [WChunk (chunk (fresh_id env) \<lparr>Provider = [], Model = []\<rparr>
              (empty_normalized\<lparr>Text := entry_Text e, n_Finish := entry_Finish e\<rparr>) (unix (start_at env))), WDone])"

lemma claimed_repeat:
  assumes "idem_read (sha (world_of env)) (route_at env) (idem_key env) i = Some e"
  shows "client_log (chat_claimed env c i st) = client_log st @ entry_answer (env\<lparr>fresh_id := ev_RequestID (event st)\<rparr>) e"
    and "sent_log (chat_claimed env c i st) = sent_log st"
proof -
  note ans = idem_begin_answers [OF assms, where body = "req_bytes env" and w = "claim_fate env" and m = "metrics (srv st)"]
  obtain r i' m where b: "idem_begin (sha (world_of env)) (claim_fate env) (route_at env) (idem_key env) (req_bytes env)
      (i, metrics (srv st)) = (r, i', m)" by (metis prod_cases3)
  then have r: "r = (if BodyHash e \<noteq> hashBody (sha (world_of env)) (req_bytes env) then Inl errIdemMismatch
      else if State e \<noteq> idemDone then Inl errIdemConflict else Inr (Some e))"
    using ans by (metis fst_conv)
  show "client_log (chat_claimed env c i st) = client_log st @ entry_answer (env\<lparr>fresh_id := ev_RequestID (event st)\<rparr>) e"
    "sent_log (chat_claimed env c i st) = sent_log st"
    by (simp_all add: chat_claimed_def b r Let_def replay_def entry_answer_def)
qed

lemma chat_repeat:
  assumes "Idem s = Some i" "idem_key env \<noteq> []"
    and "idem_read (sha (world_of env)) (route_at env) (idem_key env) i = Some e"
  shows "sent_log (chat env s) = []"
    and "chat_admit env (chat_init env s) = Inr st \<Longrightarrow> \<not> req_unreadable env \<Longrightarrow> length (req_bytes env) \<le> 2 ^ 20 \<Longrightarrow>
      ParseChat (req_bytes env) = Inr c \<Longrightarrow> client_log (chat env s) = entry_answer env e"
proof -
  have store: "Idem (srv st) = Some i" "client_log st = []" "sent_log st = []" "ev_RequestID (event st) = fresh_id env"
    if "chat_admit env (chat_init env s) = Inr st" for st
    using that assms(1)
    by (auto simp: chat_admit_def chat_init_def Let_def case_prod_unfold empty_Event_def split: if_splits)
  have turned: "sent_log st = []" if "chat_admit env (chat_init env s) = Inl st" for st
    using admit_answers [where env = env and st = "chat_init env s"] that
    by (simp add: chat_init_def Let_def case_prod_unfold)
  have "sent_log (chat_admitted env st) = []" if "chat_admit env (chat_init env s) = Inr st" for st
    using store [OF that] assms(2) claimed_repeat(2) [OF assms(3)]
    by (simp add: chat_admitted_def Let_def split: sum.split option.split)
  then show "sent_log (chat env s) = []"
    using turned by (auto simp: chat_def deferred_steps split: sum.split)
  assume a: "chat_admit env (chat_init env s) = Inr st" "\<not> req_unreadable env" "length (req_bytes env) \<le> 2 ^ 20"
    "ParseChat (req_bytes env) = Inr c"
  then show "client_log (chat env s) = entry_answer env e"
    using store [OF a(1)] assms(2) claimed_repeat(1) [OF assms(3)]
    by (simp add: chat_def deferred_steps chat_admitted_def Let_def)
qed

text \<open>The first request with a key, as seen by the next one.\<close>

definition claims_key :: "chat_env \<Rightarrow> Server \<Rightarrow> idemStore \<Rightarrow> idemStore \<Rightarrow> bool" where
  "claims_key env s i i' \<longleftrightarrow>
     Idem s = Some i \<and> idem_key env \<noteq> [] \<and> \<not> req_unreadable env \<and> length (req_bytes env) \<le> 2 ^ 20 \<and>
     (\<exists>st c m. chat_admit env (chat_init env s) = Inr st \<and> ParseChat (req_bytes env) = Inr c \<and>
        idem_begin (sha (world_of env)) (claim_fate env) (route_at env) (idem_key env) (req_bytes env)
          (i, metrics (srv st)) = (Inr None, i', m))"

lemma chat_claims:
  assumes "claims_key env s i i'" "store_fixed env"
  obtains (given_back) code msg where "Idem (srv (chat env s)) = Some (idem_release (sha (world_of env)) (idem_key env) i')"
      "client_log (chat env s) = [WProblem code msg]"
  | (settled) k e m where
      "Idem (srv (chat env s)) =
        Some (fst (idem_finish (sha (world_of env)) (idem_fate (turns env k)) (answer_now (turns env k)) (idem_key env) e (i', m)))"
      "entry_for env (answer_now (turns env k)) e (client_log (chat env s))"
proof -
  obtain st c m where st: "chat_admit env (chat_init env s) = Inr st" "ParseChat (req_bytes env) = Inr c"
    "idem_begin (sha (world_of env)) (claim_fate env) (route_at env) (idem_key env) (req_bytes env) (i, metrics (srv st)) = (Inr None, i', m)"
    using assms(1) by (auto simp: claims_key_def)
  have store: "Idem (srv st) = Some i" "client_log st = []" "\<not> idemSettled st"
    using st(1) assms(1)
    by (auto simp: claims_key_def chat_admit_def chat_init_def Let_def case_prod_unfold split: if_splits)
  let ?st = "st\<lparr>capturedPrompt := Some (req_bytes env)\<rparr>"
  have c: "Idem (srv (chat env s)) = Idem (srv (chat_claimed env c i ?st))"
    "client_log (chat env s) = client_log (chat_claimed env c i ?st)"
    using assms(1) st(1,2) store(1)
    by (simp_all add: chat_def deferred_steps deferred_srv leave_slot_def chat_admitted_def claims_key_def Let_def)
  have held: "idem_key env \<noteq> []" "\<not> idemSettled ?st"
    "idem_begin (sha (world_of env)) (claim_fate env) (route_at env) (idem_key env) (req_bytes env) (i, metrics (srv ?st)) = (Inr None, i', m)"
    using assms(1) store(3) st(3) by (simp_all add: claims_key_def)
  show ?thesis
    by (rule claimed_key [OF assms(2) held, of c]) (use given_back settled store(2) in \<open>auto simp: c\<close>)
qed

lemma granted_stored:
  assumes "idem_begin h w now key body (i, m) = (Inr None, i', m')"
  shows "map_of (idem_dir i') (idem_path h key) \<noteq> None" "idem_ttl i' = idem_ttl i" "w = Wrote"
proof -
  have none: "idem_read h now key i = None"
    using idem_begin_read [of h now key i _ w body m] assms by (cases "idem_read h now key i") auto
  have ok: "fst (idem_write h w now key (running_entry h now body) (i, m)) = None"
    "i' = fst (snd (idem_write h w now key (running_entry h now body) (i, m)))"
    using idem_begin_fresh [OF none, of w body m] assms by (auto simp: prod_eq_iff)
  show "map_of (idem_dir i') (idem_path h key) \<noteq> None"
    using idem_write_stored [OF ok(1)] ok(2) by simp
  show "idem_ttl i' = idem_ttl i" "w = Wrote"
    using ok by (cases rule: idem_write_cases [of h w now key "running_entry h now body" i m]; simp)+
qed

text \<open>
  A first request that holds its key either gives it back with an error response, or
  leaves an entry for it that the next request finds until the time to live is over.
\<close>

lemma chat_once:
  assumes "claims_key env s i i'" "store_fixed env" "\<And>k. idem_fate (turns env k) = Wrote" "idem_exact i"
  obtains (given_back) code msg where "Idem (srv (chat env s)) = Some (idem_release (sha (world_of env)) (idem_key env) i')"
      "client_log (chat env s) = [WProblem code msg]"
  | (settled) k e j where "entry_for env (answer_now (turns env k)) e (client_log (chat env s))"
      "Idem (srv (chat env s)) = Some j"
      "\<And>now. entry_ok e \<Longrightarrow> time_sub now (from_unix (Stored e)) \<le> idem_ttl i \<Longrightarrow>
         idem_read (sha (world_of env)) now (idem_key env) j = Some e"
  using assms(1,2)
proof (cases rule: chat_claims)
  case (settled k e m)
  obtain st :: chat_state and m1 where b: "idem_begin (sha (world_of env)) (claim_fate env) (route_at env) (idem_key env) (req_bytes env)
      (i, metrics (srv st)) = (Inr None, i', m1)"
    using assms(1) by (auto simp: claims_key_def)
  note g = granted_stored [OF b]
  have exact: "idem_exact i'"
    using idem_begin_exact [OF assms(4), of "claim_fate env"] b g(3) by (metis fst_conv snd_conv write_fate.distinct(3))
  obtain j m2 where j: "idem_finish (sha (world_of env)) Wrote (answer_now (turns env k)) (idem_key env) e (i', m) = (j, m2)"
    by fastforce
  show thesis
  proof (rule that(2) [OF settled(2)])
    show "Idem (srv (chat env s)) = Some j" using settled(1) j assms(3) [of k] by simp
    show "idem_read (sha (world_of env)) now (idem_key env) j = Some e"
      if "entry_ok e" "time_sub now (from_unix (Stored e)) \<le> idem_ttl i" for now
      using idem_finish_read [OF that(1) j exact g(1)] that(2) g(2) by simp
  qed
qed (rule that(1))

section \<open>A route that could be tried is tried\<close>

definition reached :: "chat_state \<Rightarrow> bool" where
  "reached s \<longleftrightarrow> sent_log s \<noteq> [] \<or> (\<exists>ws. client_log s = ws @ [WProblem 500 (Plain ''adapter configuration'')])"

lemma exchange_reached:
  "holds (\<lambda>_ s. sent_log s \<noteq> []) (\<lambda>_ s. reached s) (exchange env tn sent route pc st)"
proof -
  have "holds (\<lambda>_ s. sent_log s \<noteq> []) (\<lambda>_ s. reached s) (do_request env sent' route pc answer s)" for sent' answer s
    by (auto simp: do_request_def reached_def split: sum.split)
  note once = this
  show ?thesis
    unfolding exchange_def
    by (rule holds_then [OF once]) (auto simp: Let_def intro!: once split: http_result.split)
qed

lemma gate_passed:
  assumes "route_gate tn c skip i route (on_srv (turn_others tn) st) = Go pc s" "tries st = 0"
  shows "reached (snd (chat_turn env tn c skip i route st))"
proof -
  have "tries s = 0"
    using route_gate_shows [of "on_srv (turn_others tn) st" tn c skip i route] assms by simp
  then have retry: "retry_gate tn route s = Go () s" by (simp add: retry_gate_def tries_def Let_def)
  obtain sent s' where p: "mark_prompt env tn route (drop_temperature tn c route (take_route route s)) = (sent, s')" by fastforce
  have "reached (snd (answered env tn i c route res x))" if "sent_log x \<noteq> []" for res x
    using answered_shows [of i x env tn c route res] that by (simp add: moved_on_def reached_def)
  then show ?thesis
    using exchange_reached [of env tn sent route pc s']
    by (cases "exchange env tn sent route pc s'") (simp_all add: chat_turn_def assms(1) retry p)
qed

lemma gate_refused:
  assumes "turn_others tn = id" "route_gate tn c skip i route st = Stop fl s" "tries st < MaxAttempts (C (srv st))"
  shows "fl = NextRoute" "circuits (srv s) = circuits (srv st)" "C (srv s) = C (srv st)" "tries s = tries st"
proof -
  have refused: "\<not> fst (circuit_allow now cc) \<Longrightarrow> snd (circuit_allow now cc) = cc" for now cc
    by (rule circuit.allow_refused)
  show "fl = NextRoute" "circuits (srv s) = circuits (srv st)" "C (srv s) = C (srv st)" "tries s = tries st"
    using assms(2,3) refused
    by (auto simp: route_gate_def tries_def Let_def case_prod_unfold on_circuit_def count_chat_def split: option.splits if_splits)
qed

lemma gate_open:
  assumes "routable now route (Stream c) (srv st)" "now \<le> turn_now tn" "i \<notin> set skip" "tries st < MaxAttempts (C (srv st))"
  shows "\<exists>pc s. route_gate tn c skip i route st = Go pc s"
proof -
  have "fst (circuit_allow (turn_now tn) (circuits (srv st) (Provider route)))"
    using assms(1,2) by (auto simp: routable_def circuit_allow_def circuit_wouldAllow_def split: if_splits option.splits)
  then show ?thesis
    using assms(1,3,4)
    by (auto simp: route_gate_def routable_def tries_def streams_def Let_def case_prod_unfold split: option.splits if_splits)
qed

lemma loop_stays_reached:
  assumes "sent_log st \<noteq> []"
  shows "sent_log (snd (route_loop env c skip routes k i st)) \<noteq> []"
proof -
  have "case route_loop env c skip routes k i st of (returned, s) \<Rightarrow> if returned then sent_log s \<noteq> [] else sent_log s \<noteq> []"
  proof (rule loop_rule)
    fix k i and s :: chat_state assume s: "sent_log s \<noteq> []"
    then show "case chat_turn env (turns env k) c skip i (routes ! i) s of
        (fl, x) \<Rightarrow> if fl = Returned then sent_log x \<noteq> [] else sent_log x \<noteq> []"
      using turn_shows [where st = s and tn = "turns env k" and i = i and env = env and c = c and skip = skip and route = "routes ! i"]
      by (auto simp: turn_ok_def case_prod_unfold)
  qed (use assms in simp)
  then show ?thesis by (simp add: case_prod_unfold)
qed

text \<open>Nobody else runs, and the clock does not go back.\<close>

definition undisturbed :: "chat_env \<Rightarrow> bool" where
  "undisturbed env \<longleftrightarrow> (\<forall>k. turn_others (turns env k) = id \<and> answer_others (turns env k) = id \<and> route_at env \<le> turn_now (turns env k))"

lemma routable_cong:
  "circuits s' = circuits s \<Longrightarrow> C s' = C s \<Longrightarrow> routable now route streaming s' = routable now route streaming s"
  by (simp add: routable_def)

lemma loop_reaches:
  assumes "undisturbed env" "tries st = 0" "0 < MaxAttempts (C (srv st))" "client_log st = []"
    and "i \<le> j" "j < length routes" "j \<notin> set skip" "routable (route_at env) (routes ! j) (Stream c) (srv st)"
  shows "reached (snd (route_loop env c skip routes k i st))"
  using assms(2-)
proof (induction "j - i" arbitrary: i k st rule: less_induct)
  case less
  let ?tn = "turns env k"
  have quiet: "turn_others ?tn = id" "on_srv (turn_others ?tn) st = st" "route_at env \<le> turn_now ?tn"
    using assms(1) by (simp_all add: undisturbed_def)
  have i: "i < length routes" using less.prems by simp
  obtain fl s where t: "chat_turn env ?tn c skip i (routes ! i) st = (fl, s)" by fastforce
  show ?case
  proof (cases "route_gate ?tn c skip i (routes ! i) st")
    case (Go pc s')
    then have r: "reached s" using gate_passed [of ?tn c skip i "routes ! i" st pc s' env] quiet less.prems(1) t by simp
    show ?thesis
    proof (cases "sent_log s = []")
      case True
      have "fl = Returned"
      proof (rule ccontr)
        assume "fl \<noteq> Returned"
        then have "client_log s = []"
          using turn_shows [where st = st and tn = ?tn and i = i and env = env and c = c and skip = skip and route = "routes ! i"] t less.prems(3)
          by (simp add: turn_ok_def unanswered_def)
        then show False using r True by (simp add: reached_def)
      qed
      then show ?thesis using r t i by (simp add: route_loop.simps)
    next
      case False
      then show ?thesis
        using t i loop_stays_reached [OF False] by (cases fl) (simp_all add: route_loop.simps [of env c skip routes k i st] reached_def)
    qed
  next
    case (Stop fl' s')
    have ts: "(fl, s) = (fl', s')"
      using t Stop quiet by (simp add: chat_turn_def)
    note same = gate_refused [OF quiet(1) Stop] 
    have max: "tries st < MaxAttempts (C (srv st))" using less.prems(1,2) by simp
    have "i \<noteq> j"
      using gate_open [OF _ quiet(3), of "routes ! i" c st i skip] less.prems Stop max by auto
    moreover have "client_log s = []"
      using route_gate_shows [of st ?tn c skip i "routes ! i"] Stop ts less.prems(3)
      by (auto simp: cut_short_def unanswered_def)
    ultimately have "reached (snd (route_loop env c skip routes (Suc k) (Suc i) s))"
      using less.prems same [OF max] ts routable_cong [of "srv s" "srv st"]
      by (intro less.hyps) auto
    then show ?thesis
      using t ts same(1) [OF max] i by (simp add: route_loop.simps [of env c skip routes k i st])
  qed
qed

lemma skip_leaves_one:
  assumes "i \<in> set (eligible_routes now c routes s)"
  shows "\<exists>j \<in> set (eligible_routes now c routes s). j \<notin> set (skip_routes now c routes s)"
proof (rule ccontr)
  let ?e = "eligible_routes now c routes s" and ?f = "\<lambda>i. passed_over now c (routes ! i) s"
  assume a: "\<not> ?thesis"
  then have all: "set ?e \<subseteq> set (skip_routes now c routes s)" by blast
  then have "skip_routes now c routes s = filter ?f ?e" "length (filter ?f ?e) \<noteq> length ?e"
    using assms by (auto simp: skip_routes_def Let_def split: if_splits)
  then have "\<exists>j \<in> set ?e. \<not> ?f j" by (metis filter_id_conv)
  then show False using all \<open>skip_routes now c routes s = filter ?f ?e\<close> by auto
qed

lemma routed_reaches:
  assumes "undisturbed env" "tries st = 0" "0 < MaxAttempts (C (srv st))" "client_log st = []"
    and "Current (route_at env) (Policies (srv st)) = Some p"
    and "r \<in> set (Routes p)" "routable (route_at env) r (Stream c) (srv st)"
  shows "reached (chat_routed env c st)"
proof -
  let ?st = "on_event (\<lambda>ev. ev\<lparr>ev_PolicyVersion := Version p\<rparr>) st"
  let ?skip = "skip_routes (route_at env) c (Routes p) (srv st)"
  obtain i where "i < length (Routes p)" "Routes p ! i = r" using assms(6) by (auto simp: in_set_conv_nth)
  then have "i \<in> set (eligible_routes (route_at env) c (Routes p) (srv st))"
    using assms(7) by (simp add: eligible_routes_def)
  then obtain j where j: "j < length (Routes p)" "routable (route_at env) (Routes p ! j) (Stream c) (srv st)" "j \<notin> set ?skip"
    using skip_leaves_one by (force simp: eligible_routes_def)
  have "reached (snd (route_loop env c ?skip (Routes p) 0 0 ?st))"
    using assms j by (intro loop_reaches) (auto simp: tries_def)
  moreover have "reached (exhausted c s)" if "reached s" "client_log s = []" for s
    using that by (auto simp: reached_def exhausted_def Let_def)
  moreover have "\<not> fst (route_loop env c ?skip (Routes p) 0 0 ?st) \<Longrightarrow> client_log (snd (route_loop env c ?skip (Routes p) 0 0 ?st)) = []"
    using loop_answers [where st = ?st and env = env and c = c and skip = ?skip and routes = "Routes p" and k = 0 and i = 0] assms(4)
    by (simp add: case_prod_unfold still_open_def unanswered_def)
  ultimately show ?thesis
    using assms(5) by (auto simp: chat_routed_def Let_def case_prod_unfold)
qed

section \<open>The loop ends after two turns for each route\<close>

lemma env_but_turns:
  "world_of (env\<lparr>turns := t\<rparr>) = world_of env" "idem_key (env\<lparr>turns := t\<rparr>) = idem_key env"
  "req_bytes (env\<lparr>turns := t\<rparr>) = req_bytes env" "start_at (env\<lparr>turns := t\<rparr>) = start_at env"
  by simp_all

lemma parts_ignore_turns:
  "do_request (env\<lparr>turns := t\<rparr>) = do_request env" "mark_prompt (env\<lparr>turns := t\<rparr>) = mark_prompt env"
  "idem_settle (env\<lparr>turns := t\<rparr>) = idem_settle env"
  unfolding fun_eq_iff do_request_def mark_prompt_def idem_settle_def env_but_turns by blast+

lemma answers_ignore_turns:
  "exchange (env\<lparr>turns := t\<rparr>) = exchange env" "settleUnknown (env\<lparr>turns := t\<rparr>) = settleUnknown env"
  "refused (env\<lparr>turns := t\<rparr>) = refused env"
  unfolding fun_eq_iff exchange_def settleUnknown_def parts_ignore_turns refused_def env_but_turns by blast+

lemma accepts_ignore_turns:
  "accepted_whole (env\<lparr>turns := t\<rparr>) = accepted_whole env" "accepted_stream (env\<lparr>turns := t\<rparr>) = accepted_stream env"
  "transport_failed (env\<lparr>turns := t\<rparr>) = transport_failed env"
  unfolding fun_eq_iff accepted_whole_def accepted_stream_def transport_failed_def answers_ignore_turns parts_ignore_turns env_but_turns
  by blast+

lemma turn_ignores_turns:
  "chat_turn (env\<lparr>turns := t\<rparr>) tn c skip i route st = chat_turn env tn c skip i route st"
  unfolding chat_turn_def answered_def parts_ignore_turns answers_ignore_turns accepts_ignore_turns ..

definition turns_left :: "Route list \<Rightarrow> nat \<Rightarrow> chat_state \<Rightarrow> nat" where
  "turns_left routes i st = 2 * (length routes - i) - (if i \<in> set (retriedRoute st) then 1 else 0)"

lemma loop_turns:
  "\<forall>j. k \<le> j \<and> j < k + turns_left routes i st \<longrightarrow> t j = turns env j \<Longrightarrow>
   route_loop (env\<lparr>turns := t\<rparr>) c skip routes k i st = route_loop env c skip routes k i st"
proof (induction env c skip routes k i st rule: route_loop.induct)
  case (1 env c skip routes k i st)
  show ?case
  proof (cases "i < length routes")
    case True
    have "0 < turns_left routes i st" using True by (cases "length routes - i") (simp_all add: turns_left_def)
    then have tk: "t k = turns env k" using 1(3) by simp
    obtain fl s where turn: "chat_turn env (turns env k) c skip i (routes ! i) st = (fl, s)" by fastforce
    have less: "fl = NextRoute \<Longrightarrow> turns_left routes (Suc i) s < turns_left routes i st"
      "fl = SameRoute \<Longrightarrow> turns_left routes i s < turns_left routes i st"
      using True turn turn_repeats [of env "turns env k" c skip i "routes ! i" st s] by (auto simp: turns_left_def)
    then show ?thesis
      using 1(1) [OF True turn [symmetric]] 1(2) [OF True turn [symmetric]] 1(3) True turn tk
      by (cases fl)
        (auto simp: route_loop.simps [of env c skip routes k i st] route_loop.simps [of "env\<lparr>turns := t\<rparr>" c skip routes k i st]
          turn_ignores_turns)
  qed (simp add: route_loop.simps)
qed

end
