(* ===== verification/Upkeep.thy ===== *)
theory Upkeep
  imports Server
begin

text \<open>
  What the gateway does beside serving: when it is ready, which trace identifiers it passes
  on, what a policy sync may change, what the startup check withholds, and how long a hint
  of the fleet lasts.
\<close>

section \<open>Readiness\<close>

lemma ready_iff:
  "ready now s \<longleftrightarrow>
     \<not> Draining s \<and>
     (\<exists>p. Current now (Policies s) = Some p \<and> (\<exists>r \<in> set (Routes p). map_of (Providers (C s)) (Provider r) \<noteq> None))"
  by (auto simp: ready_def notReady_def list_ex_iff split: option.split)

lemma readyz_iff:
  "readyz now s \<longleftrightarrow> ready now s \<and> (ProviderCheckStrict (C s) \<longrightarrow> unhealthy s = [])"
  by (simp add: readyz_def readyzReason_def ready_def anyUnhealthy_def)

section \<open>Trace identifiers\<close>

definition lower_hex :: "bytes \<Rightarrow> bool" where
  "lower_hex s \<longleftrightarrow> list_all (\<lambda>c. is_digit c \<or> 97 \<le> byte_nat c \<and> byte_nat c \<le> 102) s"

lemma go_to_lower_ascii: "list_all (\<lambda>c. byte_nat c < 128) s \<Longrightarrow> go_to_lower s = map ascii_lower s"
  by (induction s rule: go_to_lower.induct) auto

lemma hex_lower:
  assumes "is_hex s"
  shows "lower_hex (go_to_lower s)" "length (go_to_lower s) = length s"
proof -
  have h: "byte_nat c < 128 \<and> (is_digit (ascii_lower c) \<or> 97 \<le> byte_nat (ascii_lower c) \<and> byte_nat (ascii_lower c) \<le> 102)"
    if "hex_digit c \<noteq> None" for c
    using that by (auto simp: hex_digit_def ascii_lower_def is_digit_def is_upper_def byte_nat_char_of Let_def split: if_splits)
  then have "go_to_lower s = map ascii_lower s"
    using assms by (intro go_to_lower_ascii) (auto simp: is_hex_def list_all_iff)
  then show "lower_hex (go_to_lower s)" "length (go_to_lower s) = length s"
    using assms h by (auto simp: lower_hex_def is_hex_def list_all_iff)
qed

lemma traceIDs_cases:
  obtains (fresh) "traceIDs new h = (new, [])"
  | (given) t p where "traceIDs new h = (go_to_lower t, go_to_lower p)" "is_hex t" "is_hex p" "length t = 32" "length p = 16"
proof -
  have "traceIDs new h = (new, []) \<or>
    (\<exists>t p. traceIDs new h = (go_to_lower t, go_to_lower p) \<and> is_hex t \<and> is_hex p \<and> length t = 32 \<and> length p = 16)"
    by (auto simp: traceIDs_def split: list.split)
  then show thesis using fresh given by blast
qed

lemma traceIDs_wellformed:
  assumes "requestID new"
  shows "requestID (fst (traceIDs new h))" "snd (traceIDs new h) = [] \<or> length (snd (traceIDs new h)) = 16 \<and> lower_hex (snd (traceIDs new h))"
  by (cases rule: traceIDs_cases [of new h]; use assms hex_lower in \<open>auto simp: requestID_def lower_hex_def\<close>)+

section \<open>Policy synchronisation\<close>

lemma noteSync_policy [simp]: "Policies (noteSync r s) = Policies s" "disk (noteSync r s) = disk s"
  by (simp_all add: noteSync_def)

lemma syncOnce_step: "policy_steps (ed w) (Policies s) (Policies (syncOnce w now r io tmp s))"
proof (cases r)
  case (Answered status body ok)
  obtain err ps fs where a: "Apply (ed w) now io tmp (take 65537 body) True (Policies s) (disk s) = (err, ps, fs)"
    by (metis prod_cases3)
  have "policy_steps (ed w) (Policies s) ps"
    using a by (intro policy_steps.more [OF policy_steps.none] policy_step.applied)
  then show ?thesis
    using Answered a by (auto simp: syncOnce_def Let_def policy_steps.none)
qed (simp add: syncOnce_def policy_steps.none)

lemma policy_steps_trans: "policy_steps v b c \<Longrightarrow> policy_steps v a b \<Longrightarrow> policy_steps v a c"
  by (induction rule: policy_steps.induct) (auto intro: policy_steps.more)

lemma syncs_steps:
  "policy_steps (ed w) (Policies s) (Policies (fold (\<lambda>(now, r, io, tmp). syncOnce w now r io tmp) rounds s))"
proof (induction rounds arbitrary: s)
  case (Cons x rounds)
  then show ?case using policy_steps_trans syncOnce_step by (fastforce split: prod.split)
qed (simp add: policy_steps.none)

lemma syncOnce_reports:
  "syncState (syncOnce w now r io tmp s) = [] \<longleftrightarrow>
     (\<exists>body. r = Answered 200 body True \<and>
        fst (Apply (ed w) now io tmp (take 65537 body) True (Policies s) (disk s)) = None)"
  by (cases r) (auto simp: syncOnce_def noteSync_def Let_def case_prod_unfold)

section \<open>The startup check\<close>

definition probe_failed :: "world \<Rightarrow> (bytes \<Rightarrow> instant \<times> http_result) \<Rightarrow> Server \<Rightarrow> Route \<Rightarrow> bool" where
  "probe_failed w answers s r \<longleftrightarrow>
     (\<exists>pc. map_of (Providers (C s)) (Provider r) = Some pc \<and> probeOne w (snd (answers (Provider r))) r pc \<noteq> None)"

definition withheld :: "(bytes \<Rightarrow> instant \<times> http_result) \<Rightarrow> bytes \<Rightarrow> Server \<Rightarrow> Server" where
  "withheld answers p s =
     on_circuit p (circuit_cooldown (fst (answers p)) accountCooldown) (markUnhealthy p (count_metric ProviderProbeFailed s))"

lemma withheld_parts:
  "C (withheld answers p s) = C s" "set (unhealthy (withheld answers p s)) = insert p (set (unhealthy s))"
  "circuits (withheld answers p s) q =
     (if q = p then circuit_cooldown (fst (answers p)) accountCooldown (circuits s p) else circuits s q)"
  by (simp_all add: withheld_def on_circuit_def markUnhealthy_def)

lemma probe_routes_step:
  "Provider r \<notin> set seen_ps \<Longrightarrow> probe_routes w answers seen_ps (r # rs) s =
     probe_routes w answers (Provider r # seen_ps) rs (if probe_failed w answers s r then withheld answers (Provider r) s else s)"
  by (auto simp: probe_failed_def withheld_def Let_def case_prod_unfold split: option.split)

lemma probe_routes_effect:
  assumes "distinct (map Provider rs)" "set seen_ps \<inter> Provider ` set rs = {}"
  shows "circuits (probe_routes w answers seen_ps rs s) q =
      (if \<exists>r \<in> set rs. Provider r = q \<and> probe_failed w answers s r
       then circuit_cooldown (fst (answers q)) accountCooldown (circuits s q) else circuits s q) \<and>
    set (unhealthy (probe_routes w answers seen_ps rs s)) =
      set (unhealthy s) \<union> {Provider r |r. r \<in> set rs \<and> probe_failed w answers s r}"
  using assms
proof (induction rs arbitrary: seen_ps s)
  case (Cons r rs)
  let ?s = "if probe_failed w answers s r then withheld answers (Provider r) s else s"
  have same: "probe_failed w answers ?s x = probe_failed w answers s x" for x
    by (simp add: probe_failed_def withheld_parts)
  have new: "Provider r \<notin> set seen_ps" "\<forall>x \<in> set rs. Provider x \<noteq> Provider r" using Cons.prems by (auto simp: image_iff)
  have "circuits (probe_routes w answers (Provider r # seen_ps) rs ?s) q =
      (if \<exists>r \<in> set rs. Provider r = q \<and> probe_failed w answers s r
       then circuit_cooldown (fst (answers q)) accountCooldown (circuits ?s q) else circuits ?s q) \<and>
    set (unhealthy (probe_routes w answers (Provider r # seen_ps) rs ?s)) =
      set (unhealthy ?s) \<union> {Provider r |r. r \<in> set rs \<and> probe_failed w answers s r}"
    using Cons.IH [of "Provider r # seen_ps" ?s] Cons.prems new unfolding same by auto
  then show ?case
    unfolding probe_routes_step [OF new(1)] using new(2) by (auto simp: withheld_parts)
qed simp

section \<open>Fleet hints\<close>

lemma fleetSyncOnce_hint:
  assumes "fleetSyncOnce now r s = (b, s')" "fleet_unhealthy t p (fleet s')"
  shows "fleet_unhealthy t p (fleet s) \<or> t < now + fleetHintMax"
  using assms
  by (auto simp: fleetSyncOnce_def drainReports_def Let_def fleet_unhealthy_apply split: if_splits reply.splits option.splits)

lemma fleetSyncOnce_drains:
  assumes "fleetSyncOnce now r s = (Some b, s')"
  shows "reported s' = [] \<and> b = fleet_body (instanceID s) (reported s)"
  using assms
  by (auto simp: fleetSyncOnce_def drainReports_def Let_def split: if_splits reply.splits option.splits)

section \<open>The policy's remaining time\<close>

lemma expiry_band:
  assumes "store_ExpiresAt (Policies s) \<noteq> 0"
  shows "expiryState (samplePolicyExpiry now s) = ''expired'' \<longleftrightarrow> from_unix (store_ExpiresAt (Policies s)) \<le> now"
    and "expiryState (samplePolicyExpiry now s) = ''ok'' \<longleftrightarrow> now + 48 * hour < from_unix (store_ExpiresAt (Policies s))"
  using assms
  by (auto simp: samplePolicyExpiry_def Let_def policyExpiryWarn_def time_sub_def go_time_defs min_int64_def max_int64_def)

lemma expiry_serving:
  "store_ExpiresAt (Policies s) \<noteq> 0 \<Longrightarrow> expiryState (samplePolicyExpiry now s) = ''expired'' \<Longrightarrow> \<not> ready now s"
  by (auto simp: expiry_band(1) ready_iff Current_def store_ExpiresAt_def from_unix_def unix_def go_time_defs
      split: option.splits if_splits)

lemma fleetSyncOnce_unreached: "fleet (snd (fleetSyncOnce now Unreached s)) = fleet s"
  by (simp add: fleetSyncOnce_def drainReports_def Let_def)

end
