(* ===== verification/Samples.thy ===== *)
theory Samples
  imports Guarantees Upkeep
begin

text \<open>
  A small concrete gateway: a configuration with two providers, a signed policy, a server
  after start, and an environment in which nobody else runs and no provider answers. The
  instances of the properties are taken at these values.
\<close>

definition sample_config :: Config where
  "sample_config =
     \<lparr>Listen = ''127.0.0.1:8080'', cfg_Tenant = ''acme'', DataDir = ''/data'', ControlURL = ''https://control.test'',
      ControlTokenEnv = ''CT'', LocalTokenEnv = ''LT'', TrustedKeys = [(''k1'', b64_encode (replicate 32 CHR ''x''))],
      Providers = [(''openai'', \<lparr>URL = ''https://api.openai.com'', KeyEnv = ''OK'', Region = []\<rparr>),
                   (''anthropic'', \<lparr>URL = ''https://api.anthropic.com'', KeyEnv = ''AK'', Region = []\<rparr>)],
      Concurrency = 8, Rate = 100, Burst = 20, RetryRate = 10, MaxAttempts = 3, TimeoutSeconds = 30, QueueSize = 64,
      SpoolBytes = 1048576, OTLPURL = [], OTLPMetricsURL = [], OTLPHeaders = [], Marketplace = None,
      AllowLocalHTTP = False, ProviderCheckStrict = False, EnablePprof = False, IdempotencyTTLSeconds = 3600,
      IdempotencyBytes = 1048576, PromptCaching = True, RateLimitRetryMaxMs = 0, FleetHealth = True,
      CaptureTTLSeconds = 3600, CaptureBytes = 1048576\<rparr>"

definition sample_policy :: Policy where
  "sample_policy =
     \<lparr>Schema = 1, Tenant = ''acme'', Version = 7, IssuedAt = 10, ExpiresAt = 60,
      Routes = [\<lparr>Provider = ''openai'', Model = ''gpt''\<rparr>, \<lparr>Provider = ''anthropic'', Model = ''claude''\<rparr>]\<rparr>"

definition sample_store :: PolicyStore where
  "sample_store = \<lparr>current = Some sample_policy, raw = [], store_Tenant = ''acme'', store_Path = ''/data/policy.json'',
     Keys = [''k1'' \<mapsto> replicate 32 CHR ''x'']\<rparr>"

definition sample_idem :: idemStore where
  "sample_idem = \<lparr>idem_dir = [], idem_ttl = 3600 * second, idem_limit = 1048576, idem_used = 0, idem_count = 0\<rparr>"

definition sample_server :: Server where
  "sample_server = New sample_config sample_store (\<lambda>_. None) (\<lambda>_. 0) None (Some sample_idem) None ''i1'' (20 * second)"

text \<open>The outside: a hash that keeps the first 32 bytes, no dates, a signature scheme by length, one environment.\<close>

definition sample_world :: world where
  "sample_world =
     \<lparr>sha = take 32, parse_time = (\<lambda>_. None), ed = (\<lambda>key msg sig. length sig = 64),
      os = \<lparr>Getenv = (\<lambda>_. replicate 32 CHR ''t''),
            url_Parse = (\<lambda>u. Some \<lparr>Scheme = ''https'', Host = ''h'', Hostname = ''h'', has_User = False, RawQuery = [], Fragment = []\<rparr>),
            ParseIP_IsLoopback = (\<lambda>h. h = ''127.0.0.1''), SplitHostPort = (\<lambda>s. Some (take 9 s)),
            freeBytes = (\<lambda>_. Some 1073741824)\<rparr>,
      wire_out = \<lparr>format_float = (\<lambda>_. ''1''), new_request = (\<lambda>_. True), sign = None\<rparr>\<rparr>"

definition sample_turn :: turn where
  "sample_turn =
     \<lparr>turn_others = id, turn_now = 22 * second, jitter_done = False, first_answer = TransportError,
      second_answer = TransportError, answer_others = id, answer_now = 23 * second, client_gone = False,
      wait_done = False, idem_fate = Wrote, turn_accepts = (\<lambda>_. True)\<rparr>"

definition sample_body :: json where
  "sample_body = JObj [(''model'', JStr ''preferred''), (''max_tokens'', JNum ''64''),
     (''messages'', JArr [JObj [(''role'', JStr ''user''), (''content'', JStr ''hi'')]])]"

definition sample_env :: chat_env where
  "sample_env =
     \<lparr>world_of = sample_world, auth_header = ''Bearer '' @ replicate 32 CHR ''t'', traceparent = [], idem_key = ''key'',
      req_bytes = json_print sample_body, req_unreadable = False, start_at = 20 * second, route_at = 21 * second,
      end_at = 24 * second, fresh_id = replicate 32 CHR ''a'', fresh_event = replicate 32 CHR ''b'',
      fresh_trace = replicate 32 CHR ''c'', fresh_span = replicate 16 CHR ''d'', claim_fate = Wrote,
      capture_fate = Wrote, turns = (\<lambda>_. sample_turn)\<rparr>"

definition sample_chat :: Chat where
  "sample_chat = empty_Chat\<lparr>chat_Model := ''preferred'', MaxTokens := 64, Messages := [\<lparr>Role = ''user'', Content = ''hi''\<rparr>]\<rparr>"

lemmas sample_defs = sample_config_def sample_policy_def sample_store_def sample_idem_def sample_server_def
  sample_world_def sample_turn_def sample_env_def New_def

lemma sample_config_ok: "limits_ok sample_config"
  by (simp add: limits_ok_def sample_config_def)

lemma sample_env_quiet:
  "config_fixed sample_env" "store_fixed sample_env" "probes_safe sample_env" "undisturbed sample_env"
  by (simp_all add: config_fixed_def store_fixed_def probes_safe_def probe_safe_def undisturbed_def sample_defs second_def)

lemma sample_no_probe: "no_probe sample_server"
  by (simp add: no_probe_but_def sample_defs new_circuit_def)

lemma sample_idem_exact: "idem_exact sample_idem"
  by (simp add: idem_exact_def accounts_def dir_ok_def dir_bytes_def no_empty_def sample_idem_def)

lemma sample_parses: "ParseChat (json_print sample_body) = Inr sample_chat"
proof -
  have "json_parse (json_print sample_body) = Some sample_body"
    by (rule json_parse_print) (simp_all add: sample_body_def max_nesting_def ascii_utf8_valid ascii_def, code_simp)
  moreover have "dec_struct Chat_field empty_Chat sample_body = Some sample_chat" by code_simp
  ultimately show ?thesis
    by (simp add: ParseChat_def strictJSON_def need_def sample_chat_def empty_Chat_def)
qed

lemma sample_admitted: "\<exists>st. chat_admit sample_env (chat_init sample_env sample_server) = Inr st"
proof -
  have "fst (bucket_allow (20 * second) (newBucket (20 * second) 100 20))"
    using f64_int [of 20]
    by (simp add: bucket_allow_def newBucket_def Let_def time_sub_def duration_Seconds_0 f64_def [of 0] min_int64_def max_int64_def)
  then show ?thesis
    by (simp add: chat_admit_def chat_init_def authorized_def ready_def notReady_def Current_def Let_def case_prod_unfold sample_defs
        unix_def second_def)
qed

lemma sample_body_short: "length (json_print sample_body) \<le> 1048576"
proof -
  have "length (json_print sample_body) \<le> 200" by code_simp
  then show ?thesis by simp
qed

lemma sample_claim:
  "\<exists>i' m'. idem_begin (take 32) Wrote (21 * second) ''key'' (json_print sample_body) (sample_idem, m) = (Inr None, i', m')"
proof -
  have "length (json_print (idem_json (running_entry (take 32) (21 * second) (json_print sample_body)))) \<le> 400"
    by code_simp
  then show ?thesis
    by (simp add: idem_begin_def idem_read_def idem_write_def sample_idem_def WriteFile_def running_entry_def Let_def)
qed

definition sample_entry :: idemEntry where
  "sample_entry = \<lparr>State = idemDone, BodyHash = ''00ff'', Stored = 20, entry_Status = 200, entry_Stream = True,
     Response = None, entry_Text = ''hello'', entry_Finish = ''stop''\<rparr>"

lemma sample_entry_ok: "entry_ok sample_entry"
  unfolding entry_ok_def sample_entry_def idemDone_def
  by (simp add: int64_ok_def min_int64_def max_int64_def ascii_utf8_valid ascii_def)

text \<open>A file system whose calls succeed, and a signed envelope.\<close>

definition all_ok :: file_script where
  "all_ok = \<lparr>create_ok = True, chmod_ok = True, written = 65536, sync_ok = True, close_ok = True, rename_ok = True,
     opendir_ok = True, dirsync_ok = True\<rparr>"

definition sample_envelope :: bytes where
  "sample_envelope = envelope_text ''k1'' (Canonical sample_policy) (replicate 64 CHR ''s'')"

lemma sample_names: "identifier_matches ''acme''" "identifier_matches ''k1''" "identifier_matches ''gpt''" "identifier_matches ''claude''"
  by code_simp+

lemma sample_policy_good: "policy_ok ''acme'' sample_policy"
  by (simp add: policy_ok_def sample_policy_def sample_names)

lemma sample_policy_plain: "policy_plain sample_policy"
  by (rule policy_ok_plain [OF sample_policy_good])
    (simp add: policy_ints_def sample_policy_def int64_ok_def min_int64_def max_int64_def)

lemma quote_length: "length (quote s) \<le> 6 * length s + 2"
proof -
  have esc: "length (escape_char c) \<le> 6" for c by (simp add: escape_char_def u00_escape_def)
  have "length (quote_body s) \<le> 6 * length s"
  proof (induction s rule: quote_body.induct)
    case (2 c cs)
    show ?case
      using 2 esc [of c] by (simp only: quote_body.simps length_append length_take length_drop list.size split: if_split) (auto simp: min_def)
  qed simp
  then show ?thesis by (simp add: quote_def)
qed

lemma b64_length: "length (b64_encode b) \<le> 2 * length b + 4"
  by (induction b rule: b64_encode.induct) auto

lemma sample_envelope_short: "length sample_envelope \<le> 65536"
proof -
  have "length (Canonical sample_policy) \<le> 200" by code_simp
  moreover have "length (quote ''key_id'') = 8" "length (quote ''payload'') = 9" "length (quote ''signature'') = 11"
    "length (quote ''k1'') = 4"
    by code_simp+
  ultimately show ?thesis
    using quote_length [of "b64_encode (Canonical sample_policy)"] b64_length [of "Canonical sample_policy"]
      quote_length [of "b64_encode (replicate 64 CHR ''s'')"] b64_length [of "replicate 64 CHR ''s''"]
    by (simp add: sample_envelope_def envelope_text_def)
qed

lemma sample_verified: "verify (\<lambda>key msg sig. length sig = 64) sample_store sample_envelope (20 * second) False = Inr sample_policy"
  unfolding sample_envelope_def
  by (rule verify_complete [where key = "replicate 32 CHR ''x''"])
    (use sample_policy_good sample_names sample_envelope_short in \<open>simp_all add: sample_store_def unix_def second_def sample_policy_def
       int64_ok_def min_int64_def max_int64_def sample_envelope_def\<close>)

lemma sample_config_valid: "Config_Validate (os sample_world) sample_config = None"
  using sample_config_ok
  unfolding Config_Validate_def first_error_None set_append ball_Un limit_checks_ok
  by (simp add: sample_config_def sample_world_def config_checks secureURL_def sample_names b64_strict_encode
      MarketplaceConfig_Validate_def wrap64_def)

definition sample_record :: captureRecord where
  "sample_record = \<lparr>RequestID = replicate 32 CHR ''a'', rec_TraceID = [], PolicyVersion = 7, rec_Provider = ''openai'',
     rec_Model = ''gpt'', rec_Attempts = 1, rec_Status = 200, rec_Fault = [], rec_Stored = 20, Prompt = None,
     Completion = None, RawPrompt = [], PromptUnparseable = False, rec_Text = ''hi''\<rparr>"

end
