(* ===== verification/Export.thy ===== *)
theory Export
  imports Telemetry "HOL-Library.Product_Lexorder"
begin

text \<open>
  What \<open>telemetry.go\<close> shows of the metrics: the Prometheus text of \<open>/metrics\<close> and the OTLP documents that are
  pushed, with the spans of the events. Both are written from the list \<open>series\<close> and from the route table.
  Go's maps are written with their keys in order; where Go walks a map in no particular order, the order is an
  argument. Sums of tokens, which Go passes through \<open>float64\<close>, are written by their digits: exact to \<open>2 ^ 53\<close>.
  Shown: the two renderings describe the same distribution, the text of a table lists every route once in the order
  of the keys, and what the exporter counts as a failure.
\<close>

section \<open>Counters and gauges\<close>

text \<open>What the runtime reports of itself.\<close>

record runtime_stats =
  NumGoroutine :: int64
  ms_HeapAlloc :: int64
  ms_HeapObjects :: int64
  ms_HeapSys :: int64

definition sampleRuntime :: "runtime_stats \<Rightarrow> counters \<Rightarrow> counters" where
  "sampleRuntime ms m =
     Store HeapSys (ms_HeapSys ms) (Store HeapObjects (ms_HeapObjects ms)
       (Store HeapAlloc (ms_HeapAlloc ms) (Store Goroutines (NumGoroutine ms) m)))"

definition series_table :: "(bytes \<times> bytes \<times> counter) list" where
  "series_table =
    [(''requests_total'', ''counter'', Requests),
     (''errors_total'', ''counter'', Errors),
     (''retries_total'', ''counter'', Retries),
     (''rate_limited_total'', ''counter'', RateLimited),
     (''usage_mismatch_total'', ''counter'', UsageMismatch),
     (''empty_completion_total'', ''counter'', EmptyCompletion),
     (''empty_completion_recovered_total'', ''counter'', EmptyCompletionRecovered),
     (''empty_completion_failed_total'', ''counter'', EmptyCompletionFailed),
     (''account_failover_total'', ''counter'', AccountFailover),
     (''refused_failover_total'', ''counter'', RefusedFailover),
     (''prompt_cache_marked_total'', ''counter'', PromptCacheMarked),
     (''rate_limit_retry_total'', ''counter'', RateLimitRetry),
     (''fleet_unhealthy_providers'', ''gauge'', FleetHints),
     (''provider_probe_failed_total'', ''counter'', ProviderProbeFailed),
     (''budget_skip_total'', ''counter'', BudgetSkip),
     (''temperature_dropped_total'', ''counter'', TemperatureDropped),
     (''capture_full_total'', ''counter'', CaptureFull),
     (''idempotency_full_total'', ''counter'', IdemFull),
     (''idempotent_replay_total'', ''counter'', IdempotentReplay),
     (''idempotent_conflict_total'', ''counter'', IdempotentConflict),
     (''idempotent_unknown_total'', ''counter'', IdempotentUnknown),
     (''rejected_total'', ''counter'', Rejected),
     (''telemetry_dropped_total'', ''counter'', Dropped),
     (''telemetry_disk_errors_total'', ''counter'', DiskErrors),
     (''telemetry_export_errors_total'', ''counter'', ExportErrors),
     (''policy_errors_total'', ''counter'', PolicyErrors),
     (''spool_bytes'', ''gauge'', SpoolUsed),
     (''spool_events'', ''gauge'', SpoolCount),
     (''active_requests'', ''gauge'', Active),
     (''goroutines'', ''gauge'', Goroutines),
     (''heap_alloc_bytes'', ''gauge'', HeapAlloc),
     (''heap_objects'', ''gauge'', HeapObjects),
     (''heap_sys_bytes'', ''gauge'', HeapSys),
     (''policy_expires_in_seconds'', ''gauge'', PolicyExpiresIn)]"

text \<open>The names, kinds and values, after the runtime was sampled. \<open>LogDropped\<close> points at the log writer's own counter, if there is one.\<close>

definition series :: "int64 option \<Rightarrow> counters \<Rightarrow> (bytes \<times> bytes \<times> int64) list" where
  "series logDropped m =
     map (\<lambda>(name, kind, c). (name, kind, m c)) series_table
     @ (case logDropped of None \<Rightarrow> [] | Some n \<Rightarrow> [(''log_dropped_total'', ''counter'', n)])"

section \<open>The text of /metrics\<close>

text \<open>
  \<open>strconv.FormatFloat(float64(ms)/1000, 'f', -1, 64)\<close>, the shortest decimal that reads as the quotient: for
  less than \<open>10 ^ 15\<close> milliseconds these are the digits of the exact quotient.
\<close>

definition pad3 :: "nat \<Rightarrow> bytes" where
  "pad3 n = replicate (3 - length (nat_digits n)) CHR ''0'' @ nat_digits n"

definition trim_zeros :: "bytes \<Rightarrow> bytes" where
  "trim_zeros s = rev (dropWhile (\<lambda>c. c = CHR ''0'') (rev s))"

definition seconds_text :: "int64 \<Rightarrow> bytes" where
  "seconds_text ms =
     (if ms < 0 then ''-'' else [])
     @ nat_digits (nat \<bar>ms\<bar> div 1000)
     @ (if nat \<bar>ms\<bar> mod 1000 = 0 then [] else ''.'' @ trim_zeros (pad3 (nat \<bar>ms\<bar> mod 1000)))"

definition key_triple :: "routeKey \<Rightarrow> bytes \<times> bytes \<times> bytes" where
  "key_triple k = (rk_provider k, rk_model k, errorType k)"

definition triple_key :: "bytes \<times> bytes \<times> bytes \<Rightarrow> routeKey" where
  "triple_key p = \<lparr>rk_provider = fst p, rk_model = fst (snd p), errorType = snd (snd p)\<rparr>"

text \<open>The keys of the snapshot by provider, then model, then error.\<close>

definition sorted_keys :: "routeTable \<Rightarrow> routeKey list" where
  "sorted_keys t = map triple_key (sorted_list_of_set (key_triple ` Mapping.keys t))"

definition sample_line :: "bytes \<Rightarrow> bytes \<Rightarrow> bytes \<Rightarrow> bytes" where
  "sample_line name labels v = name @ [CHR 0x7B] @ labels @ [CHR 0x7D, CHR '' ''] @ v @ [CHR 10]"

text \<open>One distribution: its buckets with their bounds, the overflow, the sum and the count, all with the same labels.\<close>

definition dist_lines :: "bytes \<Rightarrow> (bytes \<times> bytes) list \<Rightarrow> bytes list \<Rightarrow> bytes \<Rightarrow> dist \<Rightarrow> bytes" where
  "dist_lines name l bounds shown d =
     concat (map2 (\<lambda>b v. sample_line (name @ ''_bucket'') (joinLabels l [(''le'', b)]) (itoa v)) bounds (buckets d))
     @ sample_line (name @ ''_bucket'') (joinLabels l [(''le'', ''+Inf'')]) (itoa (dist_count d))
     @ sample_line (name @ ''_sum'') (joinLabels l []) shown
     @ sample_line (name @ ''_count'') (joinLabels l []) (itoa (dist_count d))"

definition duration_lines :: "routeKey \<Rightarrow> routeLatency \<Rightarrow> bytes" where
  "duration_lines k r =
     dist_lines ''gen_ai_server_request_duration_seconds'' (routeKey_labels True k) (map seconds_text latencyBounds)
       (seconds_text (dist_sum (latency r))) (latency r)"

definition token_kinds :: "routeLatency \<Rightarrow> (bytes \<times> dist) list" where
  "token_kinds r = filter (\<lambda>(kind, d). dist_count d \<noteq> 0) [(''input'', tokens_input r), (''output'', tokens_output r)]"

definition token_lines :: "routeKey \<Rightarrow> bytes \<times> dist \<Rightarrow> bytes" where
  "token_lines k kd =
     dist_lines ''gen_ai_client_token_usage'' (routeKey_labels False k @ [(''gen_ai_token_type'', fst kd)])
       (map itoa tokenBounds) (itoa (dist_sum (snd kd))) (snd kd)"

definition table_rows :: "routeTable \<Rightarrow> (routeKey \<times> routeLatency) list" where
  "table_rows t = map (\<lambda>k. (k, the (Mapping.lookup t k))) (sorted_keys t)"

definition writeHistograms :: "routeTable \<Rightarrow> bytes" where
  "writeHistograms t =
     (let rows = table_rows t;
          toks = concat (map (\<lambda>(k, r). map (\<lambda>kd. token_lines k kd) (token_kinds r)) rows)
      in if rows = [] then []
         else ''# TYPE gen_ai_server_request_duration_seconds histogram'' @ [CHR 10]
           @ concat (map (\<lambda>(k, r). duration_lines k r) rows)
           @ (if toks = [] then [] else ''# TYPE gen_ai_client_token_usage histogram'' @ [CHR 10] @ concat toks))"

definition series_lines :: "bytes \<times> bytes \<times> int64 \<Rightarrow> bytes" where
  "series_lines s = (case s of (name, kind, v) \<Rightarrow>
     ''# TYPE switchboard_'' @ name @ '' '' @ kind @ [CHR 10] @ ''switchboard_'' @ name @ '' '' @ itoa v @ [CHR 10])"

definition metrics_ServeHTTP :: "runtime_stats \<Rightarrow> int64 option \<Rightarrow> routeTable \<times> counters \<Rightarrow> bytes \<times> routeTable \<times> counters" where
  "metrics_ServeHTTP ms logDropped tc =
     (let m = sampleRuntime ms (snd tc)
      in (concat (map series_lines (series logDropped m)) @ writeHistograms (fst tc), fst tc, m))"

section \<open>The OTLP documents\<close>

definition metric_point :: "bytes \<Rightarrow> bytes \<Rightarrow> bytes \<times> bytes \<times> int64 \<Rightarrow> json" where
  "metric_point now start s = (case s of (name, kind, v) \<Rightarrow>
     JObj ([(''asInt'', JStr (itoa v))]
       @ opt_field ''startTimeUnixNano'' (kind \<noteq> ''counter'') (JStr start)
       @ [(''timeUnixNano'', JStr now)]))"

definition metric_json :: "bytes \<Rightarrow> bytes \<Rightarrow> bytes \<times> bytes \<times> int64 \<Rightarrow> json" where
  "metric_json now start s = (case s of (name, kind, v) \<Rightarrow>
     if kind = ''counter'' then
       JObj [(''name'', JStr (''switchboard.'' @ name)),
             (''sum'', JObj [(''aggregationTemporality'', JNum ''2''), (''dataPoints'', JArr [metric_point now start s]),
                            (''isMonotonic'', JBool True)]),
             (''unit'', JStr ''1'')]
     else
       JObj [(''gauge'', JObj [(''dataPoints'', JArr [metric_point now start s])]),
             (''name'', JStr (''switchboard.'' @ name)), (''unit'', JStr ''1'')])"

definition routeKey_attrs :: "bool \<Rightarrow> routeKey \<Rightarrow> json list" where
  "routeKey_attrs withError k =
     (let sc = semconvOf (rk_provider k) in
      [str_attr ''gen_ai.operation.name'' (sc_operation sc), str_attr ''gen_ai.provider.name'' (sc_provider sc)]
      @ (if rk_model k \<noteq> [] then [str_attr ''gen_ai.request.model'' (rk_model k)] else [])
      @ (if withError \<and> errorType k \<noteq> [] then [str_attr ''error.type'' (errorType k)] else []))"

definition secondsBounds :: "json list" where
  "secondsBounds = map (\<lambda>b. JNum (seconds_text b)) latencyBounds"

definition boundsOf :: "int64 list \<Rightarrow> json list" where
  "boundsOf bounds = map (\<lambda>b. JNum (itoa b)) bounds"

definition hist_point :: "bytes \<Rightarrow> bytes \<Rightarrow> json list \<Rightarrow> json list \<Rightarrow> bytes \<Rightarrow> dist \<Rightarrow> json" where
  "hist_point now start attrs bounds shown d =
     JObj [(''attributes'', JArr attrs), (''bucketCounts'', JArr (map JStr (differenced (buckets d) (dist_count d)))),
           (''count'', JStr (itoa (dist_count d))), (''explicitBounds'', JArr bounds),
           (''startTimeUnixNano'', JStr start), (''sum'', JNum shown), (''timeUnixNano'', JStr now)]"

definition duration_point :: "bytes \<Rightarrow> bytes \<Rightarrow> routeKey \<times> routeLatency \<Rightarrow> json" where
  "duration_point now start kr =
     hist_point now start (routeKey_attrs True (fst kr)) secondsBounds (seconds_text (dist_sum (latency (snd kr))))
       (latency (snd kr))"

definition token_points :: "bytes \<Rightarrow> bytes \<Rightarrow> routeKey \<times> routeLatency \<Rightarrow> json list" where
  "token_points now start kr =
     map (\<lambda>(kind, d). hist_point now start (routeKey_attrs False (fst kr) @ [str_attr ''gen_ai.token.type'' kind])
       (boundsOf tokenBounds) (itoa (dist_sum d)) d) (token_kinds (snd kr))"

definition hist_json :: "bytes \<Rightarrow> bytes \<Rightarrow> json list \<Rightarrow> json" where
  "hist_json name unit points =
     JObj [(''histogram'', JObj [(''aggregationTemporality'', JNum ''2''), (''dataPoints'', JArr points)]),
           (''name'', JStr name), (''unit'', JStr unit)]"

text \<open>\<open>rows\<close> is the snapshot, in whatever order the map is walked.\<close>

definition routeHistograms :: "bytes \<Rightarrow> bytes \<Rightarrow> (routeKey \<times> routeLatency) list \<Rightarrow> json list" where
  "routeHistograms now start rows =
     (if rows = [] then []
      else
        let toks = concat (map (token_points now start) rows)
        in [hist_json ''gen_ai.server.request.duration'' ''s'' (map (duration_point now start) rows)]
          @ (if toks = [] then [] else [hist_json ''gen_ai.client.token.usage'' (CHR 0x7B # ''token'' @ [CHR 0x7D]) toks]))"

definition otlp_resource :: json where
  "otlp_resource = JObj [(''attributes'', JArr [str_attr ''service.name'' ''switchboard-gateway''])]"

definition otlp_scope :: json where
  "otlp_scope = JObj [(''name'', JStr ''switchboard''), (''version'', JStr ''1.0.0'')]"

text \<open>The header fields of an exporter's request: a configured name whose variable is unset is left out.\<close>

definition otlpHeaders :: "(bytes \<Rightarrow> bytes) \<Rightarrow> Config \<Rightarrow> (bytes \<times> bytes) list" where
  "otlpHeaders getenv c =
     (''Content-Type'', ''application/json'')
     # map (\<lambda>(name, env). (name, getenv env)) (filter (\<lambda>(name, env). getenv env \<noteq> []) (OTLPHeaders c))"

record otlp_request =
  otlp_url :: bytes
  otlp_headers :: "(bytes \<times> bytes) list"
  otlp_body :: json

text \<open>An answer with another status than 200, or one that reports a partial rejection, is an export error.\<close>

definition export_reply :: "bytes \<Rightarrow> reply \<Rightarrow> counters \<Rightarrow> counters" where
  "export_reply marker r m =
     (case r of
        Unreached \<Rightarrow> Add ExportErrors 1 m
      | Answered status body read_ok \<Rightarrow>
          if status \<noteq> 200 \<or> contains (take 8192 body) marker then Add ExportErrors 1 m else m)"

definition metrics_body ::
  "bytes \<Rightarrow> bytes \<Rightarrow> int64 option \<Rightarrow> (routeKey \<times> routeLatency) list \<Rightarrow> counters \<Rightarrow> json" where
  "metrics_body now start logDropped rows m =
     (let metrics = map (metric_json now start) (series logDropped m) @ routeHistograms now start rows
      in JObj [(''resourceMetrics'', JArr [JObj [(''resource'', otlp_resource),
           (''scopeMetrics'', JArr [JObj [(''metrics'', JArr metrics), (''scope'', otlp_scope)]])]])])"

text \<open>\<open>built\<close> says whether the request could be made from the configured URL.\<close>

definition exportMetrics ::
  "(bytes \<Rightarrow> bytes) \<Rightarrow> Config \<Rightarrow> bool \<Rightarrow> instant \<Rightarrow> instant \<Rightarrow> runtime_stats \<Rightarrow> int64 option \<Rightarrow>
   (routeKey \<times> routeLatency) list \<Rightarrow> reply \<Rightarrow> counters \<Rightarrow> otlp_request option \<times> counters" where
  "exportMetrics getenv c built now start ms logDropped rows r m =
     (let m = sampleRuntime ms m;
          body = metrics_body (itoa now) (itoa start) logDropped rows m
      in if \<not> built then (None, Add ExportErrors 1 m)
         else (Some \<lparr>otlp_url = OTLPMetricsURL c, otlp_headers = otlpHeaders getenv c, otlp_body = body\<rparr>,
               export_reply ''rejectedDataPoints'' r m))"

section \<open>Spans\<close>

definition otlpBatch :: nat where
  "otlpBatch = 64"

definition spans_body :: "json list \<Rightarrow> json" where
  "spans_body spans =
     JObj [(''resourceSpans'', JArr [JObj [(''resource'', otlp_resource),
       (''scopeSpans'', JArr [JObj [(''scope'', otlp_scope), (''spans'', JArr spans)]])]])]"

definition postSpans ::
  "(bytes \<Rightarrow> bytes) \<Rightarrow> Config \<Rightarrow> json list \<Rightarrow> reply \<Rightarrow> counters \<Rightarrow> otlp_request \<times> counters" where
  "postSpans getenv c spans r m =
     (\<lparr>otlp_url = OTLPURL c, otlp_headers = otlpHeaders getenv c, otlp_body = spans_body spans\<rparr>,
      export_reply ''rejectedSpans'' r m)"

definition exportOTLP :: "(bytes \<Rightarrow> bytes) \<Rightarrow> Config \<Rightarrow> Event \<Rightarrow> reply \<Rightarrow> counters \<Rightarrow> otlp_request \<times> counters" where
  "exportOTLP getenv c e r m = postSpans getenv c [spanOf e] r m"

definition exportOTLPBatch ::
  "(bytes \<Rightarrow> bytes) \<Rightarrow> Config \<Rightarrow> Event list \<Rightarrow> reply \<Rightarrow> counters \<Rightarrow> otlp_request option \<times> counters" where
  "exportOTLPBatch getenv c events r m =
     (if events = [] then (None, m)
      else case postSpans getenv c (map spanOf events) r m of (q, m) \<Rightarrow> (Some q, m))"

section \<open>Every counter is listed once\<close>

lemma series_names_distinct: "distinct (map fst series_table)"
  by code_simp

lemma series_sources:
  "map (snd \<circ> snd) series_table =
     [Requests, Errors, Retries, RateLimited, UsageMismatch, EmptyCompletion, EmptyCompletionRecovered,
      EmptyCompletionFailed, AccountFailover, RefusedFailover, PromptCacheMarked, RateLimitRetry, FleetHints,
      ProviderProbeFailed, BudgetSkip, TemperatureDropped, CaptureFull, IdemFull, IdempotentReplay,
      IdempotentConflict, IdempotentUnknown, Rejected, Dropped, DiskErrors, ExportErrors, PolicyErrors, SpoolUsed,
      SpoolCount, Active, Goroutines, HeapAlloc, HeapObjects, HeapSys, PolicyExpiresIn]"
  by (simp add: series_table_def)

lemma series_counters_distinct: "distinct (map (snd \<circ> snd) series_table)"
  by (simp add: series_sources)

lemma series_counters: "c \<in> set (map (snd \<circ> snd) series_table) \<longleftrightarrow> c \<notin> {LatencyMS, Completed, RouteKeysFolded}"
  unfolding series_sources by (cases c) simp_all

lemma series_Add_unlisted: "c \<in> {LatencyMS, Completed, RouteKeysFolded} \<Longrightarrow> series l (Add c n m) = series l m"
  by (auto simp: series_def series_table_def Add_def)

lemma sampleRuntime_Add: "c \<in> {LatencyMS, Completed, RouteKeysFolded} \<Longrightarrow> sampleRuntime ms (Add c n m) = Add c n (sampleRuntime ms m)"
  by (auto simp: sampleRuntime_def Store_def Add_def fun_eq_iff)

text \<open>The number of observations that lost their model is in neither rendering.\<close>

lemma folded_unseen:
  "fst (metrics_ServeHTTP ms l (t, Add RouteKeysFolded n m)) = fst (metrics_ServeHTTP ms l (t, m))"
  "fst (exportMetrics getenv c built now start ms l rows r (Add RouteKeysFolded n m)) =
   fst (exportMetrics getenv c built now start ms l rows r m)"
  by (simp_all add: metrics_ServeHTTP_def exportMetrics_def metrics_body_def sampleRuntime_Add series_Add_unlisted Let_def)

lemma export_reply_counts:
  "export_reply marker r m = (if \<exists>status body ok. r = Answered status body ok \<and> status = 200 \<and> \<not> contains (take 8192 body) marker
     then m else Add ExportErrors 1 m)"
  by (cases r) (auto simp: export_reply_def)

section \<open>Two renderings of one distribution\<close>

text \<open>Running totals undo the differences, when the buckets grow.\<close>

fun running :: "int \<Rightarrow> int list \<Rightarrow> int list" where
  "running a [] = []"
| "running a (x # xs) = (a + x) # running (a + x) xs"

lemma running_differenced: "sorted (a # cs @ [n]) \<Longrightarrow> running a (differenced_from a cs n) = cs @ [n]"
  by (induction cs arbitrary: a) auto

lemma differenced_from_nonneg: "list_all (\<lambda>c. 0 \<le> c) (differenced_from a cs n)"
  by (induction cs arbitrary: a) auto

definition cumulative :: "nat \<Rightarrow> dist \<Rightarrow> bool" where
  "cumulative n d \<longleftrightarrow> length (buckets d) = n \<and> sorted (0 # buckets d @ [dist_count d])"

lemma new_dist_cumulative: "cumulative (length bounds) (new_dist bounds)"
proof -
  have "sorted (0 # map (\<lambda>_. 0 :: int) bounds @ [0])" by (induction bounds) auto
  then show ?thesis by (simp add: cumulative_def new_dist_def)
qed

lemma sorted_bump:
  assumes "sorted bs" "length vs = length bs" "sorted (a # vs @ [c::int])"
  shows "sorted (a # map2 (\<lambda>b v. if (n::int) \<le> b then v + 1 else v) bs vs @ [c + 1])"
proof -
  have bump: "(if n \<le> b then v + 1 else v) \<le> (if n \<le> b' then v' + 1 else v')" if "b \<le> b'" "v \<le> v'" for b b' :: int and v v' :: int
    using that by auto
  have vs: "sorted vs" using assms(3) by (simp add: sorted_append)
  have "sorted (map2 (\<lambda>b v. if n \<le> b then v + 1 else v) bs vs)"
    unfolding sorted_iff_nth_mono
  proof (intro allI impI)
    fix i j assume "i \<le> j" "j < length (map2 (\<lambda>b v. if n \<le> b then v + 1 else v) bs vs)"
    then show "map2 (\<lambda>b v. if n \<le> b then v + 1 else v) bs vs ! i \<le> map2 (\<lambda>b v. if n \<le> b then v + 1 else v) bs vs ! j"
      using bump [of "bs ! i" "bs ! j" "vs ! i" "vs ! j"] sorted_nth_mono [OF assms(1)] sorted_nth_mono [OF vs] assms(2) by simp
  qed
  moreover have "a \<le> x \<and> x \<le> c + 1" if "x \<in> set (map2 (\<lambda>b v. if n \<le> b then v + 1 else v) bs vs)" for x
    using that assms(3) by (auto dest!: set_zip_rightD simp: sorted_append split: if_splits)
  ultimately show ?thesis using assms(3) by (auto simp: sorted_append)
qed

lemma dist_observe_cumulative:
  "sorted bounds \<Longrightarrow> cumulative (length bounds) d \<Longrightarrow> cumulative (length bounds) (dist_observe bounds n d)"
  using sorted_bump [of bounds "buckets d" 0 "dist_count d" n] by (simp add: cumulative_def dist_observe_def)

definition latency_ok :: "routeLatency \<Rightarrow> bool" where
  "latency_ok r \<longleftrightarrow> cumulative 9 (latency r) \<and> cumulative 9 (tokens_input r) \<and> cumulative 9 (tokens_output r)"

definition rows_ok :: "routeTable \<Rightarrow> bool" where
  "rows_ok t \<longleftrightarrow> finite (Mapping.keys t) \<and> (\<forall>k r. Mapping.lookup t k = Some r \<longrightarrow> latency_ok r)"

lemma bounds_sorted [simp]: "sorted latencyBounds" "sorted tokenBounds" "length latencyBounds = 9" "length tokenBounds = 9"
  by (simp_all add: latencyBounds_def tokenBounds_def)

lemmas observe_cumulative =
  dist_observe_cumulative [of latencyBounds, simplified] dist_observe_cumulative [of tokenBounds, simplified]

lemma new_routeLatency_ok: "latency_ok new_routeLatency"
  using new_dist_cumulative [of latencyBounds] new_dist_cumulative [of tokenBounds]
  by (simp add: latency_ok_def new_routeLatency_def)

lemma get_rows:
  assumes "rows_ok t" "routeTable_get k (t, m) = (k', t', m')"
  shows "rows_ok t' \<and> (\<exists>r. Mapping.lookup t' k' = Some r)"
  using assms new_routeLatency_ok
  by (auto simp: routeTable_get_def rows_ok_def Let_def lookup_update' split: if_splits)

lemma ObserveRoute_rows: "rows_ok t \<Longrightarrow> rows_ok (fst (ObserveRoute provider model status ms u (t, m)))"
proof -
  assume t: "rows_ok t"
  let ?k = "\<lparr>rk_provider = provider, rk_model = model, errorType = (if status \<ge> 400 then itoa status else [])\<rparr>"
  obtain k' t' m' where g: "routeTable_get ?k (t, m) = (k', t', m')" by (cases "routeTable_get ?k (t, m)") auto
  obtain r where r: "rows_ok t'" "Mapping.lookup t' k' = Some r" using get_rows [OF t g] by auto
  then have "latency_ok r" by (auto simp: rows_ok_def)
  with r show ?thesis
    by (auto simp: ObserveRoute_def g Let_def rows_ok_def lookup_update' latency_ok_def observe_cumulative)
qed

text \<open>The table after a sequence of requests.\<close>

definition observed :: "(bytes \<times> bytes \<times> int \<times> int64 \<times> tokenUsage) list \<Rightarrow> routeTable" where
  "observed obs = fst (fold (\<lambda>(provider, model, status, ms, u). ObserveRoute provider model status ms u) obs (Mapping.empty, \<lambda>_. 0))"

lemma observed_rows: "rows_ok (observed obs)"
proof -
  have "rows_ok (fst (fold (\<lambda>(provider, model, status, ms, u). ObserveRoute provider model status ms u) obs tm))" if "rows_ok (fst tm)" for tm
    using that
  proof (induction obs arbitrary: tm)
    case (Cons ob obs)
    obtain p md s ms u where "ob = (p, md, s, ms, u)" by (cases ob)
    with Cons show ?case using ObserveRoute_rows [of "fst tm" p md s ms u "snd tm"] by simp
  qed simp
  from this [of "(Mapping.empty, \<lambda>_. 0)"] show ?thesis
    unfolding observed_def by (simp add: rows_ok_def lookup_empty)
qed

text \<open>The bucket lines of the text, with their values.\<close>

definition bucket_lines :: "bytes \<Rightarrow> (bytes \<times> bytes) list \<Rightarrow> bytes list \<Rightarrow> int64 list \<Rightarrow> bytes" where
  "bucket_lines name l les vs = concat (map2 (\<lambda>le v. sample_line (name @ ''_bucket'') (joinLabels l [(''le'', le)]) (itoa v)) les vs)"

lemma dist_lines_buckets:
  "length bounds = length (buckets d) \<Longrightarrow> dist_lines name l bounds shown d =
     bucket_lines name l (bounds @ [''+Inf'']) (buckets d @ [dist_count d])
     @ sample_line (name @ ''_sum'') (joinLabels l []) shown
     @ sample_line (name @ ''_count'') (joinLabels l []) (itoa (dist_count d))"
  by (simp add: dist_lines_def bucket_lines_def)

lemma dist_lines_running:
  assumes "cumulative (length bounds) d"
  shows "dist_lines name l bounds shown d =
     bucket_lines name l (bounds @ [''+Inf'']) (running 0 (differenced_from 0 (buckets d) (dist_count d)))
     @ sample_line (name @ ''_sum'') (joinLabels l []) shown
     @ sample_line (name @ ''_count'') (joinLabels l []) (itoa (dist_count d))"
  using assms by (simp add: dist_lines_buckets cumulative_def running_differenced)

text \<open>So the two renderings of a distribution say the same: the running totals of the one are the values of the other.\<close>

definition json_member :: "bytes \<Rightarrow> json \<Rightarrow> json option" where
  "json_member k j = (case j of JObj kvs \<Rightarrow> map_of kvs k | _ \<Rightarrow> None)"

definition same_dist :: "bytes \<Rightarrow> (bytes \<times> bytes) list \<Rightarrow> bytes list \<Rightarrow> json \<Rightarrow> bytes \<Rightarrow> bool" where
  "same_dist name l bounds point shown \<longleftrightarrow>
     (\<exists>counts total. json_member ''bucketCounts'' point = Some (JArr (map (\<lambda>n. JStr (itoa n)) counts)) \<and>
        list_all (\<lambda>n. 0 \<le> n) counts \<and> json_member ''count'' point = Some (JStr (itoa (sum_list counts))) \<and>
        json_member ''sum'' point = Some (JNum total) \<and>
        shown = bucket_lines name l (bounds @ [''+Inf'']) (running 0 counts)
          @ sample_line (name @ ''_sum'') (joinLabels l []) total
          @ sample_line (name @ ''_count'') (joinLabels l []) (itoa (sum_list counts)))"

lemma sum_differenced: "sum_list (differenced_from a cs n) = n - a" if "sorted (a # cs @ [n])"
  using that by (induction cs arbitrary: a) auto

lemma same_dist_point:
  assumes "cumulative (length bounds) d"
  shows "same_dist name l bounds (hist_point now start attrs bs shown d) (dist_lines name l bounds shown d)"
proof -
  have s: "sum_list (differenced_from 0 (buckets d) (dist_count d)) = dist_count d"
    using sum_differenced [of 0] assms by (simp add: cumulative_def)
  have p: "json_member ''bucketCounts'' (hist_point now start attrs bs shown d) =
        Some (JArr (map (\<lambda>n. JStr (itoa n)) (differenced_from 0 (buckets d) (dist_count d))))"
      "json_member ''count'' (hist_point now start attrs bs shown d) = Some (JStr (itoa (dist_count d)))"
      "json_member ''sum'' (hist_point now start attrs bs shown d) = Some (JNum shown)"
    by (simp_all add: json_member_def hist_point_def differenced_def comp_def)
  show ?thesis
    unfolding same_dist_def
    by (intro exI [of _ "differenced_from 0 (buckets d) (dist_count d)"] exI [of _ shown] conjI)
      (simp_all add: p s differenced_from_nonneg dist_lines_running [OF assms])
qed

section \<open>Every route is shown, once and in order\<close>

lemma triple_key_triple [simp]: "triple_key (key_triple k) = k" "key_triple (triple_key p) = p"
  by (simp_all add: triple_key_def key_triple_def)

lemma sorted_keys:
  assumes "finite (Mapping.keys t)"
  shows "set (sorted_keys t) = Mapping.keys t" "distinct (sorted_keys t)" "sorted (map key_triple (sorted_keys t))"
proof -
  have "inj_on triple_key A" for A by (rule inj_on_inverseI [of _ key_triple]) simp
  then show "distinct (sorted_keys t)" by (simp add: sorted_keys_def distinct_map)
  show "set (sorted_keys t) = Mapping.keys t" using assms by (simp add: sorted_keys_def image_image)
  show "sorted (map key_triple (sorted_keys t))" by (simp add: sorted_keys_def comp_def)
qed

lemma table_rows_set:
  assumes "finite (Mapping.keys t)"
  shows "set (table_rows t) = {(k, r). Mapping.lookup t k = Some r}"
  using sorted_keys(1) [OF assms] by (auto simp: table_rows_def keys_dom_lookup image_iff domIff)

lemma seconds_bounds: "map seconds_text latencyBounds =
   [''0.005'', ''0.025'', ''0.1'', ''0.5'', ''1'', ''5'', ''15'', ''60'', ''90'']"
  by (simp add: seconds_text_def latencyBounds_def pad3_def trim_zeros_def nat_digits.simps char_of_def bit_Suc_0_iff numeral_2_eq_2)

lemma rows_agree:
  assumes "rows_ok t"
  shows "(\<forall>(k, r) \<in> set (table_rows t).
      same_dist ''gen_ai_server_request_duration_seconds'' (routeKey_labels True k) (map seconds_text latencyBounds)
        (duration_point now start (k, r)) (duration_lines k r) \<and>
      list_all2 (\<lambda>point kd.
        same_dist ''gen_ai_client_token_usage'' (routeKey_labels False k @ [(''gen_ai_token_type'', fst kd)]) (map itoa tokenBounds)
          point (token_lines k kd)) (token_points now start (k, r)) (token_kinds r)) \<and>
   set (table_rows t) = {(k, r). Mapping.lookup t k = Some r} \<and> distinct (map fst (table_rows t))"
proof -
  have fin: "finite (Mapping.keys t)" using assms by (simp add: rows_ok_def)
  have row: "latency_ok r" if "(k, r) \<in> set (table_rows t)" for k r
    using that assms table_rows_set [OF fin] by (auto simp: rows_ok_def)
  have "same_dist ''gen_ai_server_request_duration_seconds'' (routeKey_labels True k) (map seconds_text latencyBounds)
        (duration_point now start (k, r)) (duration_lines k r)" if "latency_ok r" for k r
    using that by (simp add: duration_point_def duration_lines_def latency_ok_def same_dist_point)
  moreover have "list_all2 (\<lambda>point kd.
        same_dist ''gen_ai_client_token_usage'' (routeKey_labels False k @ [(''gen_ai_token_type'', fst kd)]) (map itoa tokenBounds)
          point (token_lines k kd)) (token_points now start (k, r)) (token_kinds r)" if "latency_ok r" for k r
    using that by (auto simp: token_points_def token_kinds_def token_lines_def latency_ok_def same_dist_point)
  moreover have "map fst (table_rows t) = sorted_keys t" by (simp add: table_rows_def comp_def)
  ultimately show ?thesis using row table_rows_set [OF fin] sorted_keys(2) [OF fin] by (simp add: case_prod_beta)
qed

end
