(* ===== verification/Http.thy ===== *)
theory Http
  imports Requests Export
begin

text \<open>
  The routes the gateway serves (\<open>Server.Handler\<close> in \<open>server.go\<close>): which handler a method and a path reach, and
  the handlers beside \<open>chat\<close>. Paths are in the clean form the mux redirects others to. \<open>Healthcheck\<close> is the
  container's probe of \<open>/readyz\<close>. Shown: what is reachable without the token, what a readiness probe
  learns, and that a profile of the process is never served to a caller without the token.
\<close>

section \<open>The mux\<close>

datatype target = HealthzRoute | ReadyzRoute | MetricsRoute | PprofRoute bytes | ChatRoute | RuntimeRoute

definition pprof_routes :: "(bytes \<times> bytes \<times> target) list" where
  "pprof_routes =
     [(''GET'', ''/debug/pprof/'', PprofRoute ''Index''), (''GET'', ''/debug/pprof/cmdline'', PprofRoute ''Cmdline''),
      (''GET'', ''/debug/pprof/profile'', PprofRoute ''Profile''), (''GET'', ''/debug/pprof/symbol'', PprofRoute ''Symbol''),
      (''GET'', ''/debug/pprof/trace'', PprofRoute ''Trace'')]"

definition mux_patterns :: "Config \<Rightarrow> (bytes \<times> bytes \<times> target) list" where
  "mux_patterns c =
     [(''GET'', ''/healthz'', HealthzRoute), (''GET'', ''/readyz'', ReadyzRoute), (''GET'', ''/metrics'', MetricsRoute)]
     @ (if EnablePprof c then pprof_routes else [])
     @ [(''POST'', ''/v1/chat/completions'', ChatRoute), (''GET'', ''/runtime'', RuntimeRoute)]"

text \<open>A pattern for GET also answers HEAD; a pattern that ends in a slash stands for the paths below it.\<close>

definition method_matches :: "bytes \<Rightarrow> bytes \<Rightarrow> bool" where
  "method_matches pattern method \<longleftrightarrow> method = pattern \<or> pattern = ''GET'' \<and> method = ''HEAD''"

definition path_matches :: "bytes \<Rightarrow> bytes \<Rightarrow> bool" where
  "path_matches pattern path \<longleftrightarrow> path = pattern \<or> has_suffix ''/'' pattern \<and> has_prefix pattern path"

datatype routed = To target | RedirectTo bytes | MethodNotAllowed | NotFound

text \<open>The most specific pattern wins: one that is the path itself before one that stands for the paths below.\<close>

definition mux_route :: "(bytes \<times> bytes \<times> target) list \<Rightarrow> bytes \<Rightarrow> bytes \<Rightarrow> routed" where
  "mux_route patterns method path =
     (let fits = (\<lambda>p (m, pat, t). method_matches m method \<and> pat = p);
          below = (\<lambda>(m, pat, t). method_matches m method \<and> path_matches pat path)
      in case find (fits path) patterns of
           Some (m, pat, t) \<Rightarrow> To t
         | None \<Rightarrow>
             if \<not> has_suffix ''/'' path \<and> find (fits (path @ ''/'')) patterns \<noteq> None then RedirectTo (path @ ''/'')
             else
               case find below patterns of
                 Some (m, pat, t) \<Rightarrow> To t
               | None \<Rightarrow>
                   if list_ex (\<lambda>(m, pat, t). path_matches pat path \<or> \<not> has_suffix ''/'' path \<and> pat = path @ ''/'') patterns
                   then MethodNotAllowed else NotFound)"

section \<open>The handlers\<close>

record http_answer =
  answer_status :: int
  answer_headers :: "(bytes \<times> bytes) list"
  answer_body :: bytes

definition empty_answer_of :: "int \<Rightarrow> http_answer" where
  "empty_answer_of status = \<lparr>answer_status = status, answer_headers = [], answer_body = []\<rparr>"

definition problem_json :: "int \<Rightarrow> bytes \<Rightarrow> json" where
  "problem_json status msg =
     JObj [(''error'', JObj [(''code'', JNum (itoa status)), (''message'', JStr msg), (''type'', JStr ''switchboard_error'')])]"

definition problem_answer :: "int \<Rightarrow> bytes \<Rightarrow> http_answer" where
  "problem_answer status msg =
     \<lparr>answer_status = status, answer_headers = [(''Content-Type'', ''application/json'')],
      answer_body = json_print (problem_json status msg)\<rparr>"

definition serve_readyz :: "instant \<Rightarrow> Server \<Rightarrow> http_answer" where
  "serve_readyz now s =
     (if readyzReason now s \<noteq> [] then
        \<lparr>answer_status = 503, answer_headers = [(''Content-Type'', ''text/plain; charset=utf-8'')],
         answer_body = readyzReason now s @ [CHR 10]\<rparr>
      else empty_answer_of 200)"

text \<open>The four readings of the clock are those of the policy, of \<open>readyz\<close>, of \<open>ready\<close> and of the reason.\<close>

definition runtime_json :: "instant \<Rightarrow> instant \<Rightarrow> instant \<Rightarrow> instant \<Rightarrow> Server \<Rightarrow> json" where
  "runtime_json t0 t1 t2 t3 s =
     (case Current t0 (Policies s) of
        None \<Rightarrow> JObj [(''ready'', JBool False), (''reason'', JStr (readyzReason t1 s)), (''serving'', JBool False)]
      | Some p \<Rightarrow>
          JObj [(''policy_expires_at'', JNum (itoa (ExpiresAt p))), (''policy_version'', JNum (itoa (Version p))),
                (''ready'', JBool (readyz t1 s)), (''reason'', JStr (readyzReason t3 s)), (''serving'', JBool (ready t2 s))])"

definition serve_runtime :: "world \<Rightarrow> bytes \<Rightarrow> instant \<Rightarrow> instant \<Rightarrow> instant \<Rightarrow> instant \<Rightarrow> Server \<Rightarrow> http_answer" where
  "serve_runtime w auth t0 t1 t2 t3 s =
     (if \<not> authorized w auth s then problem_answer 401 ''unauthorized''
      else \<lparr>answer_status = 200, answer_headers = [(''Content-Type'', ''application/json'')],
            answer_body = json_print (runtime_json t0 t1 t2 t3 s)\<rparr>)"

text \<open>\<open>profile\<close> is what the profiler of the standard library writes.\<close>

definition serve_pprof :: "world \<Rightarrow> (bytes \<Rightarrow> http_answer) \<Rightarrow> bytes \<Rightarrow> bytes \<Rightarrow> Server \<Rightarrow> http_answer" where
  "serve_pprof w profile auth name s =
     (if \<not> authorized w auth s then problem_answer 401 ''unauthorized'' else profile name)"

section \<open>One request\<close>

record http_request =
  rq_method :: bytes
  rq_path :: bytes
  rq_clock :: "nat \<Rightarrow> instant"
  rq_stats :: runtime_stats
  rq_chat :: chat_env

text \<open>
  The answer of \<open>chat\<close> is the log of its writes, that of the other handlers a whole response; a redirect, and the
  refusal of a path or of a method, are the mux's own.
\<close>

datatype served = Answered_whole http_answer | Answered_chat "client_write list" | Answered_mux routed

definition serve ::
  "(bytes \<Rightarrow> http_answer) \<Rightarrow> int64 option \<Rightarrow> http_request \<Rightarrow> Server \<Rightarrow> served \<times> Server" where
  "serve profile logDropped rq s =
     (let env = rq_chat rq; w = world_of env; auth = auth_header env; clock = rq_clock rq
      in case mux_route (mux_patterns (C s)) (rq_method rq) (rq_path rq) of
           NotFound \<Rightarrow> (Answered_mux NotFound, s)
         | MethodNotAllowed \<Rightarrow> (Answered_mux MethodNotAllowed, s)
         | RedirectTo p \<Rightarrow> (Answered_mux (RedirectTo p), s)
         | To t \<Rightarrow>
             (case t of
                HealthzRoute \<Rightarrow> (Answered_whole (empty_answer_of 200), s)
              | ReadyzRoute \<Rightarrow> (Answered_whole (serve_readyz (clock 0) s), s)
              | MetricsRoute \<Rightarrow>
                  (case metrics_ServeHTTP (rq_stats rq) logDropped (route_table s, metrics s) of (page, rt, m) \<Rightarrow>
                     (Answered_whole \<lparr>answer_status = 200, answer_headers = [(''Content-Type'', ''text/plain; version=0.0.4'')],
                        answer_body = page\<rparr>, s\<lparr>route_table := rt, metrics := m\<rparr>))
              | PprofRoute name \<Rightarrow> (Answered_whole (serve_pprof w profile auth name s), s)
              | ChatRoute \<Rightarrow> (let st = chat env s in (Answered_chat (client_log st), srv st))
              | RuntimeRoute \<Rightarrow> (Answered_whole (serve_runtime w auth (clock 0) (clock 1) (clock 2) (clock 3) s), s)))"

text \<open>\<open>Healthcheck\<close>: the exit status for the answer of \<open>/readyz\<close>, if one came.\<close>

definition Healthcheck :: "int option \<Rightarrow> int" where
  "Healthcheck status = (case status of None \<Rightarrow> 1 | Some code \<Rightarrow> if code \<noteq> 200 then 1 else 0)"

section \<open>What reaches a handler\<close>

lemma find_member: "find P xs = Some x \<Longrightarrow> x \<in> set xs \<and> P x"
  by (induction xs) (auto split: if_splits)

lemma mux_route_To:
  assumes "mux_route patterns method path = To t"
  shows "\<exists>m pat. (m, pat, t) \<in> set patterns \<and> method_matches m method \<and> path_matches pat path"
  using assms
  by (fastforce simp: mux_route_def Let_def path_matches_def split: option.splits if_splits prod.splits dest!: find_member)

lemma no_slash: "\<not> has_suffix ''/'' ''/healthz''" "\<not> has_suffix ''/'' ''/readyz''" "\<not> has_suffix ''/'' ''/metrics''"
  "\<not> has_suffix ''/'' ''/v1/chat/completions''" "\<not> has_suffix ''/'' ''/runtime''"
  by (simp_all add: has_suffix_def has_prefix_def)

text \<open>Each target has its one path; the profiler's are reached only when it is enabled.\<close>

lemma target_path:
  assumes "mux_route (mux_patterns c) method path = To t"
  shows "(t = HealthzRoute \<longrightarrow> path = ''/healthz'') \<and> (t = ReadyzRoute \<longrightarrow> path = ''/readyz'') \<and>
    (t = MetricsRoute \<longrightarrow> path = ''/metrics'') \<and> (t = ChatRoute \<longrightarrow> path = ''/v1/chat/completions'' \<and> method = ''POST'') \<and>
    (t = RuntimeRoute \<longrightarrow> path = ''/runtime'') \<and> ((\<exists>n. t = PprofRoute n) \<longrightarrow> EnablePprof c)"
  using mux_route_To [OF assms]
  by (auto simp: mux_patterns_def pprof_routes_def path_matches_def method_matches_def no_slash split: if_splits)

lemma unauthorized_chat:
  assumes "\<not> authorized (world_of env) (auth_header env) s"
  shows "client_log (chat env s) = [WProblem 401 (Plain ''unauthorized'')]" "sent_log (chat env s) = []"
proof -
  have "\<not> authorized (world_of env) (auth_header env) (srv (chat_init env s))"
    using assms by (simp add: chat_init_def authorized_def split: prod.split)
  then show "client_log (chat env s) = [WProblem 401 (Plain ''unauthorized'')]" "sent_log (chat env s) = []"
    by (simp_all add: chat_def chat_admit_def deferred_steps fail_def problem_def Let_def set_header_def del_header_def)
      (simp_all add: chat_init_def split: prod.split)
qed

lemma serve_unauthorized:
  assumes "\<not> authorized (world_of (rq_chat rq)) (auth_header (rq_chat rq)) s"
  shows "case fst (serve profile l rq s) of
      Answered_mux r \<Rightarrow> True
    | Answered_chat ws \<Rightarrow> ws = [WProblem 401 (Plain ''unauthorized'')]
    | Answered_whole a \<Rightarrow> a = problem_answer 401 ''unauthorized'' \<or> rq_path rq \<in> {''/healthz'', ''/readyz'', ''/metrics''}"
proof (cases "mux_route (mux_patterns (C s)) (rq_method rq) (rq_path rq)")
  case (To t)
  then show ?thesis
    using target_path [OF To] assms unauthorized_chat(1) [OF assms]
    by (cases t) (auto simp: serve_def Let_def serve_pprof_def serve_runtime_def split: prod.split)
qed (simp_all add: serve_def Let_def)

lemma serve_profile:
  assumes "\<not> authorized (world_of (rq_chat rq)) (auth_header (rq_chat rq)) s \<or> \<not> EnablePprof (C s)"
  shows "serve profile l rq s = serve profile' l rq s"
proof (cases "mux_route (mux_patterns (C s)) (rq_method rq) (rq_path rq)")
  case (To t)
  then show ?thesis
    using target_path [OF To] assms by (cases t) (auto simp: serve_def Let_def serve_pprof_def)
qed (simp_all add: serve_def Let_def)

section \<open>The probe\<close>

lemma route_readyz: "mux_route (mux_patterns c) ''GET'' ''/readyz'' = To ReadyzRoute"
  by (simp add: mux_route_def mux_patterns_def method_matches_def Let_def)

lemma serve_readyz_status: "answer_status (serve_readyz now s) = (if readyz now s then 200 else 503)"
  by (simp add: serve_readyz_def readyz_def empty_answer_of_def)

lemma readyz_ready: "readyz now s \<Longrightarrow> ready now s"
  by (simp add: readyz_def readyzReason_def ready_def split: if_splits)

lemma serve_readyz_request:
  assumes "rq_method rq = ''GET''" "rq_path rq = ''/readyz''"
  shows "serve profile l rq s = (Answered_whole (serve_readyz (rq_clock rq 0) s), s)"
  using assms by (simp add: serve_def route_readyz Let_def)

end
