(* ===== verification/Steps.thy ===== *)
theory Steps
  imports Main
begin

text \<open>
  Histories of a labelled step relation: \<open>steps r as s t\<close> says that the labels \<open>as\<close>, taken in this order, lead
  from \<open>s\<close> to \<open>t\<close>. The locale \<open>step_invariant\<close> is the contract of a property that every step keeps; it is
  interpreted on the log writer, the event pipeline and the shutdown of the process.
\<close>

inductive steps :: "('a \<Rightarrow> 's \<Rightarrow> 's \<Rightarrow> bool) \<Rightarrow> 'a list \<Rightarrow> 's \<Rightarrow> 's \<Rightarrow> bool" for r where
  none: "steps r [] s s"
| more: "r a s t \<Longrightarrow> steps r as t u \<Longrightarrow> steps r (a # as) s u"

inductive_simps steps_simps [simp]: "steps r [] s t" "steps r (a # as) s t"

lemma steps_append: "steps r (as @ bs) s u \<longleftrightarrow> (\<exists>t. steps r as s t \<and> steps r bs t u)"
  by (induction as arbitrary: s) auto

lemma steps_mono:
  assumes "steps r as s t" and "\<And>a s t. a \<in> set as \<Longrightarrow> r a s t \<Longrightarrow> q a s t"
  shows "steps q as s t"
  using assms by (induction rule: steps.induct) (auto intro: steps.intros)

locale step_invariant =
  fixes r :: "'a \<Rightarrow> 's \<Rightarrow> 's \<Rightarrow> bool"
    and P :: "'s \<Rightarrow> bool"
    and start :: "'s \<Rightarrow> bool"
  assumes holds_at_start: "start s \<Longrightarrow> P s"
    and kept: "r a s t \<Longrightarrow> P s \<Longrightarrow> P t"
begin

lemma kept_along: "steps r as s t \<Longrightarrow> P s \<Longrightarrow> P t"
  by (induction rule: steps.induct) (auto intro: kept)

lemma reached: "start s \<Longrightarrow> steps r as s t \<Longrightarrow> P t"
  using holds_at_start kept_along by blast

end

end
