(* ===== verification/Pipeline.thy ===== *)
theory Pipeline
  imports Export Steps
begin

text \<open>
  The goroutines of \<open>Telemetry.Start\<close> (\<open>telemetry.go\<close>) beside the requests that emit: one writes events to the
  spool and drains the queue when the process stops, one delivers the spool every second, one gathers spans into
  requests to the collector, one pushes the metrics. Each step of a goroutine is a rule of \<open>pipe_step\<close>, so
  a history is any interleaving of them. A delivery pass is split at every file of its listing. Shown: an event
  that was emitted is queued, on disk, acknowledged, or counted as dropped, in every history; spans leave in the
  order they came, at most 64 to a request; and when the worker has stopped, the queue is empty.
\<close>

section \<open>State\<close>

text \<open>What one delivery pass remembers between two files: the rest of its listing, the batch, its bytes, and the batches sent.\<close>

type_synonym pass = "(bytes \<times> disk_file) list \<times> spooled list \<times> nat \<times> nat"

datatype worker = Serving | Emptying | Stopped

text \<open>
  \<open>emitted\<close> is the history of the calls of \<open>Emit\<close>, \<open>known\<close> the names of the files that were in the spool at the
  start or belong to an emitted event, \<open>span_posts\<close> the events of each request sent to the collector, and
  \<open>otlp_taken\<close> the events that entered the queue of spans.
\<close>

record pipeline =
  pipe_tel :: "Telemetry \<times> counters"
  hand :: "Event option"
  worker_state :: worker
  pass_state :: "(tel_env \<times> pass) option"
  deliverer_stopped :: bool
  gathered :: "Event list option"
  exporter_stopped :: bool
  metrics_stopped :: bool
  done_ctx :: bool
  emitted :: "Event list"
  known :: "bytes set"
  span_posts :: "Event list list"
  otlp_taken :: "Event list"

definition event_file :: "Event \<Rightarrow> bytes" where
  "event_file e = ID e @ ''.json''"

definition Telemetry_Start :: "Telemetry \<times> counters \<Rightarrow> pipeline" where
  "Telemetry_Start tm =
     \<lparr>pipe_tel = tm, hand = None, worker_state = Serving, pass_state = None, deliverer_stopped = False, gathered = None,
      exporter_stopped = False, metrics_stopped = False, done_ctx = False, emitted = [], known = fst ` set (spool (fst tm)), span_posts = [],
      otlp_taken = []\<rparr>"

section \<open>A delivery pass, file by file\<close>

definition deliver_turn :: "tel_env \<Rightarrow> pass \<Rightarrow> Telemetry \<times> counters \<Rightarrow> pass option \<times> Telemetry \<times> counters" where
  "deliver_turn env p tm =
     (case p of ([], batch, batchBytes, sent) \<Rightarrow>
        (None, if batch \<noteq> [] \<and> sent < deliverBatches then snd (send env batch tm) else tm)
      | ((name, f) # fs, batch, batchBytes, sent) \<Rightarrow>
        (let (t, m) = tm; failed = (Some (fs, batch, batchBytes, sent), t, Add DiskErrors 1 m) in
         if cancelled env (length fs) \<or> sent \<ge> deliverBatches then (None, t, m)
         else if \<not> has_suffix ''.json'' name then (Some (fs, batch, batchBytes, sent), t, m)
         else
           case (if readable env name then map_option content (map_of (spool t) name) else None) of
             None \<Rightarrow> failed
           | Some b \<Rightarrow>
               if length b > 8192 then failed
               else
                 case event_unmarshal b of
                   None \<Rightarrow> failed
                 | Some event \<Rightarrow>
                     (let batch = batch @ [\<lparr>sp_path = name, sp_id = ID event, sp_size = int (length b), sp_event = b\<rparr>];
                          batchBytes = batchBytes + length b
                      in if length batch < deliverBatch \<and> batchBytes < deliverBytes
                         then (Some (fs, batch, batchBytes, sent), t, m)
                         else
                           let (ok, tm) = send env batch (t, m) in
                           if \<not> ok then (None, tm) else (Some (fs, [], 0, sent + 1), tm))))"

text \<open>A pass whose turns follow each other is \<open>deliver_run\<close>.\<close>

lemma deliver_run_turn:
  "deliver_run env fs batch n k tm =
     (case deliver_turn env (fs, batch, n, k) tm of
        (None, tm') \<Rightarrow> tm'
      | (Some (fs', batch', n', k'), tm') \<Rightarrow> deliver_run env fs' batch' n' k' tm')"
proof (cases fs)
  case (Cons nf fs')
  obtain t m where tm: "tm = (t, m)" by (cases tm)
  obtain name f where nf: "nf = (name, f)" by (cases nf)
  show ?thesis
    by (auto simp: Cons nf tm deliver_turn_def Let_def split: option.splits prod.splits)
qed (simp add: deliver_turn_def)

section \<open>Steps\<close>

text \<open>
  Emitting needs an identifier that names no file yet: identifiers are 128 random bits. A pass has its own
  reading and removing of files, but the answers of the control plane are one sequence, \<open>replies\<close>; the context
  of a pass is cancelled when the process stops.
\<close>

datatype pipe_op =
    EmitOp Event | TakeOp | PersistOp file_script instant | CancelOp | DrainOp | WorkerEndOp
  | TickOp tel_env | TurnOp | DelivererEndOp | SpanFirstOp | SpanMoreOp | SpanSendOp reply | ExporterEndOp
  | MetricsOp bool instant instant runtime_stats "int64 option" "(routeKey \<times> routeLatency) list" reply
  | MetricsEndOp

definition emit_op :: "Config \<Rightarrow> Event \<Rightarrow> pipeline \<Rightarrow> pipeline" where
  "emit_op c e s =
     s\<lparr>pipe_tel := Emit c e (pipe_tel s), emitted := emitted s @ [e], known := insert (event_file e) (known s),
       otlp_taken := (if OTLPURL c \<noteq> [] \<and> int (length (otlp (fst (pipe_tel s)))) < QueueSize c
                      then otlp_taken s @ [e] else otlp_taken s)\<rparr>"

definition take_op :: "pipeline \<Rightarrow> pipeline" where
  "take_op s =
     s\<lparr>hand := Some (hd (queue (fst (pipe_tel s)))), pipe_tel := (fst (pipe_tel s)\<lparr>queue := tl (queue (fst (pipe_tel s)))\<rparr>, snd (pipe_tel s))\<rparr>"

definition turn_op :: "pipeline \<Rightarrow> pipeline" where
  "turn_op s =
     (case pass_state s of
        None \<Rightarrow> s
      | Some (env, p) \<Rightarrow>
          (case deliver_turn (env\<lparr>cancelled := \<lambda>_. done_ctx s\<rparr>) p (pipe_tel s) of
             (p', tm) \<Rightarrow> s\<lparr>pipe_tel := tm, pass_state := map_option (Pair env) p'\<rparr>))"

definition tick_op :: "tel_env \<Rightarrow> pipeline \<Rightarrow> pipeline" where
  "tick_op env s =
     (if \<not> listable env then s\<lparr>pipe_tel := (fst (pipe_tel s), Add DiskErrors 1 (snd (pipe_tel s)))\<rparr>
      else s\<lparr>pass_state := Some (env, ReadDir (spool (fst (pipe_tel s))), [], 0, 0)\<rparr>)"

definition span_next :: "pipeline \<Rightarrow> pipeline" where
  "span_next s =
     s\<lparr>gathered := Some ((case gathered s of None \<Rightarrow> [] | Some b \<Rightarrow> b) @ [hd (otlp (fst (pipe_tel s)))]),
       pipe_tel := (fst (pipe_tel s)\<lparr>otlp := tl (otlp (fst (pipe_tel s)))\<rparr>, snd (pipe_tel s))\<rparr>"

definition span_send :: "(bytes \<Rightarrow> bytes) \<Rightarrow> Config \<Rightarrow> reply \<Rightarrow> Event list \<Rightarrow> pipeline \<Rightarrow> pipeline" where
  "span_send getenv c r b s =
     s\<lparr>pipe_tel := (fst (pipe_tel s), snd (exportOTLPBatch getenv c b r (snd (pipe_tel s)))), gathered := None,
       span_posts := span_posts s @ [b]\<rparr>"

inductive pipe_step :: "(bytes \<Rightarrow> bytes) \<Rightarrow> Config \<Rightarrow> (nat \<Rightarrow> reply) \<Rightarrow> pipe_op \<Rightarrow> pipeline \<Rightarrow> pipeline \<Rightarrow> bool"
  for getenv :: "bytes \<Rightarrow> bytes" and c :: Config and replies :: "nat \<Rightarrow> reply" where
  emit: "event_file e \<notin> known s \<Longrightarrow> pipe_step getenv c replies (EmitOp e) s (emit_op c e s)"
| cancel: "pipe_step getenv c replies CancelOp s (s\<lparr>done_ctx := True\<rparr>)"
| take_event: "worker_state s \<noteq> Stopped \<Longrightarrow> hand s = None \<Longrightarrow> queue (fst (pipe_tel s)) \<noteq> [] \<Longrightarrow>
    pipe_step getenv c replies TakeOp s (take_op s)"
| persist: "hand s = Some e \<Longrightarrow>
    pipe_step getenv c replies (PersistOp io now) s (s\<lparr>pipe_tel := persist c io now e (pipe_tel s), hand := None\<rparr>)"
| drain: "worker_state s = Serving \<Longrightarrow> hand s = None \<Longrightarrow> done_ctx s \<Longrightarrow>
    pipe_step getenv c replies DrainOp s (s\<lparr>worker_state := Emptying\<rparr>)"
| worker_end: "worker_state s = Emptying \<Longrightarrow> hand s = None \<Longrightarrow> queue (fst (pipe_tel s)) = [] \<Longrightarrow>
    pipe_step getenv c replies WorkerEndOp s (s\<lparr>worker_state := Stopped\<rparr>)"
| tick: "\<not> deliverer_stopped s \<Longrightarrow> pass_state s = None \<Longrightarrow> reply_to env = replies \<Longrightarrow>
    pipe_step getenv c replies (TickOp env) s (tick_op env s)"
| turn: "pass_state s \<noteq> None \<Longrightarrow> pipe_step getenv c replies TurnOp s (turn_op s)"
| deliverer_end: "pass_state s = None \<Longrightarrow> done_ctx s \<Longrightarrow>
    pipe_step getenv c replies DelivererEndOp s (s\<lparr>deliverer_stopped := True\<rparr>)"
| span_first: "\<not> exporter_stopped s \<Longrightarrow> gathered s = None \<Longrightarrow> otlp (fst (pipe_tel s)) \<noteq> [] \<Longrightarrow>
    pipe_step getenv c replies SpanFirstOp s (span_next s)"
| span_more: "gathered s = Some b \<Longrightarrow> length b < otlpBatch \<Longrightarrow> otlp (fst (pipe_tel s)) \<noteq> [] \<Longrightarrow>
    pipe_step getenv c replies SpanMoreOp s (span_next s)"
| span_out: "gathered s = Some b \<Longrightarrow> pipe_step getenv c replies (SpanSendOp r) s (span_send getenv c r b s)"
| exporter_end: "gathered s = None \<Longrightarrow> done_ctx s \<Longrightarrow>
    pipe_step getenv c replies ExporterEndOp s (s\<lparr>exporter_stopped := True\<rparr>)"
| push: "\<not> metrics_stopped s \<Longrightarrow> OTLPMetricsURL c \<noteq> [] \<Longrightarrow>
    pipe_step getenv c replies (MetricsOp built now start ms l rows r) s
      (s\<lparr>pipe_tel := (fst (pipe_tel s), snd (exportMetrics getenv c built now start ms l rows r (snd (pipe_tel s))))\<rparr>)"
| metrics_end: "done_ctx s \<Longrightarrow> pipe_step getenv c replies MetricsEndOp s (s\<lparr>metrics_stopped := True\<rparr>)"

lemmas pipe_ops = emit_op_def take_op_def turn_op_def tick_op_def span_next_def span_send_def

section \<open>Events read back from their files\<close>

definition event_ok :: "Event \<Rightarrow> bool" where
  "event_ok e \<longleftrightarrow> json_ok (event_json (Event_wire e)) \<and> json_depth (event_json (Event_wire e)) \<le> max_nesting
     \<and> int64_ok (ev_Status e) \<and> int64_ok (ev_Attempts e) \<and> int64_ok (Start e) \<and> int64_ok (End e) \<and> int64_ok (ev_PolicyVersion e)"

lemma plain_event [simp]:
  "plain_name ''id''" "plain_name ''span_id''" "plain_name ''parent_id''" "plain_name ''start_ns''" "plain_name ''end_ns''"
  "plain_name ''ext''"
  by (simp_all add: plain_name_def is_upper_def)

lemma Event_wire_same [simp]:
  "ID (Event_wire e) = ID e" "ev_Status (Event_wire e) = ev_Status e" "ev_Attempts (Event_wire e) = ev_Attempts e"
  "Start (Event_wire e) = Start e" "End (Event_wire e) = End e" "ev_PolicyVersion (Event_wire e) = ev_PolicyVersion e"
  by (simp_all add: Event_wire_def Let_def)

text \<open>What a field of the document does to the identifier: only the first field sets it.\<close>

lemma Event_field_id:
  assumes "Event_field k v e = Some e'" "\<not> key_is ''id'' k"
  shows "ID e' = ID e"
  using assms by (auto simp: Event_field_def split: if_splits)

lemma dec_fields_id:
  assumes "dec_fields Event_field e kvs = Some e'" "list_all (\<lambda>(k, v). \<not> key_is ''id'' k) kvs"
  shows "ID e' = ID e"
  using assms by (induction kvs arbitrary: e) (auto dest: Event_field_id split: option.splits)

lemma dec_fields_total:
  assumes "\<And>k v a. (k, v) \<in> set kvs \<Longrightarrow> f k v a \<noteq> None"
  shows "dec_fields f a kvs \<noteq> None"
  using assms by (induction kvs arbitrary: a) (auto split: option.split)

lemma Event_field_accepts:
  "Event_field ''request_id'' (JStr b) a \<noteq> None" "Event_field ''trace_id'' (JStr b) a \<noteq> None"
  "Event_field ''span_id'' (JStr b) a \<noteq> None" "Event_field ''parent_id'' (JStr b) a \<noteq> None"
  "Event_field ''provider'' (JStr b) a \<noteq> None" "Event_field ''ext'' (JObj m) a \<noteq> None"
  by (simp_all add: Event_field_def key_is_plain dec_any_map_def)

lemma Event_field_accepts_int:
  assumes "int64_ok i"
  shows "Event_field ''status'' (JNum (itoa i)) a \<noteq> None" "Event_field ''attempts'' (JNum (itoa i)) a \<noteq> None"
    "Event_field ''start_ns'' (JNum (itoa i)) a \<noteq> None" "Event_field ''end_ns'' (JNum (itoa i)) a \<noteq> None"
    "Event_field ''policy_version'' (JNum (itoa i)) a \<noteq> None"
  using assms by (simp_all add: Event_field_def key_is_plain dec_int_itoa)

lemma list_all_opt_field: "list_all P (opt_field k zero v) \<longleftrightarrow> zero \<or> P (k, v)"
  by (simp add: opt_field_def)

lemma event_read_back:
  assumes "event_ok e"
  shows "\<exists>e'. event_unmarshal (json_print (event_json (Event_wire e))) = Some e' \<and> ID e' = ID e"
proof -
  define w where "w = Event_wire e"
  have w: "ID w = ID e" "ev_Status w = ev_Status e" "ev_Attempts w = ev_Attempts e" "Start w = Start e" "End w = End e"
    "ev_PolicyVersion w = ev_PolicyVersion e" by (simp_all add: w_def)
  have ints: "int64_ok (ev_Status w)" "int64_ok (ev_Attempts w)" "int64_ok (Start w)" "int64_ok (End w)" "int64_ok (ev_PolicyVersion w)"
    using assms by (simp_all add: event_ok_def w)
  define kvs where "kvs = (case event_json w of JObj ps \<Rightarrow> tl ps)"
  have kvs: "event_json w = JObj ((''id'', JStr (ID w)) # kvs)"
    by (simp add: event_json_def kvs_def)
  have "list_all (\<lambda>(k, v). \<not> key_is ''id'' k \<and> (\<forall>a. Event_field k v a \<noteq> None)) kvs"
    by (simp del: not_None_eq add: kvs_def event_json_def list_all_opt_field key_is_plain Event_field_accepts Event_field_accepts_int ints)
  then have one: "\<And>k v a. (k, v) \<in> set kvs \<Longrightarrow> \<not> key_is ''id'' k \<and> Event_field k v a \<noteq> None"
    by (auto simp: list_all_iff)
  then have "dec_fields Event_field (empty_Event\<lparr>ID := ID e\<rparr>) kvs \<noteq> None" by (intro dec_fields_total) blast
  then obtain e' where e': "dec_fields Event_field (empty_Event\<lparr>ID := ID e\<rparr>) kvs = Some e'" by blast
  then have "event_unmarshal (json_print (event_json w)) = Some e'"
    using assms json_parse_print [of "event_json w"]
    by (simp add: event_unmarshal_def event_ok_def kvs w flip: w_def) 
      (simp add: dec_struct_def Event_field_def key_is_plain)
  moreover have "ID e' = ID e" using dec_fields_id [OF e'] one by (auto simp: list_all_iff)
  ultimately show ?thesis by (auto simp: w_def)
qed

section \<open>What a turn of a pass leaves alone\<close>

lemma tel_remove_queues [simp]:
  "queue (fst (tel_remove env sp tm)) = queue (fst tm)" "otlp (fst (tel_remove env sp tm)) = otlp (fst tm)"
  by (simp_all add: tel_remove_def split: prod.splits)

lemma sendPerEvent_queues [simp]:
  "queue (fst (snd (sendPerEvent env b tm))) = queue (fst tm)" "otlp (fst (snd (sendPerEvent env b tm))) = otlp (fst tm)"
proof -
  have "queue (fst (snd (sendPerEvent env b tm))) = queue (fst tm) \<and> otlp (fst (snd (sendPerEvent env b tm))) = otlp (fst tm)"
  proof (induction b arbitrary: tm)
    case (Cons sp b)
    obtain t m where "tm = (t, m)" by (cases tm)
    with Cons show ?case by (simp add: Let_def post_def split: reply.split)
  qed simp
  then show "queue (fst (snd (sendPerEvent env b tm))) = queue (fst tm)" "otlp (fst (snd (sendPerEvent env b tm))) = otlp (fst tm)"
    by auto
qed

lemma settle_batch_queues [simp]:
  "queue (fst (settle_batch env ok b tm)) = queue (fst tm)" "otlp (fst (settle_batch env ok b tm)) = otlp (fst tm)"
proof -
  have "queue (fst (settle_batch env ok b tm)) = queue (fst tm) \<and> otlp (fst (settle_batch env ok b tm)) = otlp (fst tm)"
    unfolding settle_batch_def by (induction b arbitrary: tm) (auto split: prod.splits)
  then show "queue (fst (settle_batch env ok b tm)) = queue (fst tm)" "otlp (fst (settle_batch env ok b tm)) = otlp (fst tm)"
    by auto
qed

lemma send_queues [simp]:
  "queue (fst (snd (send env b tm))) = queue (fst tm)" "otlp (fst (snd (send env b tm))) = otlp (fst tm)"
  by (auto simp: send_def Let_def post_def split: prod.splits reply.split option.split)

lemma deliver_turn_queues:
  assumes "deliver_turn env p tm = (p', tm')"
  shows "queue (fst tm') = queue (fst tm)" "otlp (fst tm') = otlp (fst tm)"
proof -
  have "queue (fst (snd (deliver_turn env p tm))) = queue (fst tm) \<and> otlp (fst (snd (deliver_turn env p tm))) = otlp (fst tm)"
    by (auto simp: deliver_turn_def Let_def split: list.split prod.split option.split) (metis fst_conv snd_conv send_queues)+
  then show "queue (fst tm') = queue (fst tm)" "otlp (fst tm') = otlp (fst tm)" using assms by simp_all
qed

text \<open>A turn settles what it removes, and reads entries from the spool.\<close>

definition batch_of :: "pass option \<Rightarrow> spooled list" where
  "batch_of p = (case p of None \<Rightarrow> [] | Some (fs, batch, n, k) \<Rightarrow> batch)"

lemma deliver_turn_ok:
  assumes "list_all (entry_of (fst tm)) (batch_of (Some p))" "deliver_turn env p tm = (p', tm')"
  shows "settles env tm tm'" "list_all (entry_of (fst tm')) (batch_of p')"
    "sp_path ` set (batch_of p') \<subseteq> sp_path ` set (batch_of (Some p)) \<union> dom (map_of (spool (fst tm)))"
proof -
  obtain t m where tm: "tm = (t, m)" by (cases tm)
  obtain fs batch n k where p: "p = (fs, batch, n, k)" by (cases p)
  have b: "list_all (entry_of t) batch" using assms(1) by (simp add: p tm batch_of_def)
  have sent: "settles env (t, m) (snd (send env b' (t, m)))" if "list_all (entry_of t) b'" for b'
    using send_settles [of "(t, m)" b' env] that by simp
  have "settles env tm tm' \<and> list_all (entry_of (fst tm')) (batch_of p') \<and>
    sp_path ` set (batch_of p') \<subseteq> sp_path ` set (batch_of (Some p)) \<union> dom (map_of (spool (fst tm)))"
  proof (cases fs)
    case Nil
    then show ?thesis using assms(2) sent [OF b] by (auto simp: deliver_turn_def p tm batch_of_def)
  next
    case (Cons nf fs')
    obtain name f where nf: "nf = (name, f)" by (cases nf)
    show ?thesis
    proof (cases "\<not> (cancelled env (length fs') \<or> k \<ge> deliverBatches) \<and> has_suffix ''.json'' name \<and> readable env name \<and>
        (\<exists>g e. map_of (spool t) name = Some g \<and> length (content g) \<le> 8192 \<and> event_unmarshal (content g) = Some e)")
      case True
      then obtain g e where g: "map_of (spool t) name = Some g" "length (content g) \<le> 8192" "event_unmarshal (content g) = Some e"
        by auto
      let ?sp = "\<lparr>sp_path = name, sp_id = ID e, sp_size = int (length (content g)), sp_event = content g\<rparr>"
      have b': "list_all (entry_of t) (batch @ [?sp])"
        using b g by (simp add: entry_of_def [of t ?sp] file_id_def size_of_def)
      from assms(2) True g consider
          "p' = Some (fs', batch @ [?sp], n + length (content g), k)" "tm' = tm"
        | "batch_of p' = []" "tm' = snd (send env (batch @ [?sp]) (t, m))"
        by (auto simp: deliver_turn_def p tm Cons nf Let_def batch_of_def split: if_splits prod.splits)
      then show ?thesis
        using b' g(1) sent [OF b']
        by cases (auto simp: batch_of_def p tm)
    next
      case False
      then have "tm' = tm \<or> tm' = (t, Add DiskErrors 1 m)" "batch_of p' = [] \<or> batch_of p' = batch"
        using assms(2)
        by (auto simp: deliver_turn_def p tm Cons nf Let_def batch_of_def split: if_splits option.splits)
      then show ?thesis using b by (auto simp: tm batch_of_def p settles_def Add_def spool_exact_def)
    qed
  qed
  then show "settles env tm tm'" "list_all (entry_of (fst tm')) (batch_of p')"
    "sp_path ` set (batch_of p') \<subseteq> sp_path ` set (batch_of (Some p)) \<union> dom (map_of (spool (fst tm)))" by blast+
qed

section \<open>Every event is accounted for\<close>

abbreviation tele :: "pipeline \<Rightarrow> Telemetry" where
  "tele s \<equiv> fst (pipe_tel s)"

definition waiting :: "pipeline \<Rightarrow> Event list" where
  "waiting s = (case hand s of None \<Rightarrow> [] | Some e \<Rightarrow> [e]) @ queue (tele s)"

definition acked :: "(nat \<Rightarrow> reply) \<Rightarrow> Telemetry \<Rightarrow> bytes \<Rightarrow> bool" where
  "acked replies t i \<longleftrightarrow> (\<exists>k < length (posts t). acks (replies k) i)"

lemma acknowledged_acked: "acknowledged env t i \<longleftrightarrow> acked (reply_to env) t i"
  by (simp add: acknowledged_def acked_def)

text \<open>Events that are nowhere: not waiting, not on disk, and named by no answer.\<close>

definition missing :: "(nat \<Rightarrow> reply) \<Rightarrow> pipeline \<Rightarrow> Event set" where
  "missing replies s = {e \<in> set (emitted s). e \<notin> set (waiting s) \<and> map_of (spool (tele s)) (event_file e) = None
     \<and> \<not> acked replies (tele s) (ID e)}"

text \<open>The files: names are used once, and a file of an event reads as that event.\<close>

definition files_ok :: "pipeline \<Rightarrow> bool" where
  "files_ok s \<longleftrightarrow>
     distinct (map event_file (emitted s)) \<and> set (waiting s) \<subseteq> set (emitted s) \<and> distinct (waiting s)
     \<and> event_file ` set (emitted s) \<subseteq> known s \<and> dom (map_of (spool (tele s))) \<subseteq> known s
     \<and> (\<forall>e \<in> set (waiting s). map_of (spool (tele s)) (event_file e) = None)
     \<and> (\<forall>e \<in> set (emitted s). map_of (spool (tele s)) (event_file e) \<noteq> None \<longrightarrow> file_id (spool (tele s)) (event_file e) = ID e)"

text \<open>A pass under way: its batch was read from the spool, before any event that is still waiting gets its file.\<close>

definition pass_ok :: "(nat \<Rightarrow> reply) \<Rightarrow> pipeline \<Rightarrow> bool" where
  "pass_ok replies s \<longleftrightarrow>
     (case pass_state s of
        None \<Rightarrow> True
      | Some (env, p) \<Rightarrow> reply_to env = replies
          \<and> (\<forall>sp \<in> set (batch_of (Some p)). entry_of (tele s) sp \<and> sp_path sp \<in> known s
               \<and> (\<forall>e \<in> set (waiting s). sp_path sp \<noteq> event_file e)))"

lemma pass_okI:
  assumes "\<And>env p. pass_state s = Some (env, p) \<Longrightarrow> reply_to env = replies"
    and "\<And>env p sp. pass_state s = Some (env, p) \<Longrightarrow> sp \<in> set (batch_of (Some p)) \<Longrightarrow> entry_of (tele s) sp"
    and "\<And>env p sp. pass_state s = Some (env, p) \<Longrightarrow> sp \<in> set (batch_of (Some p)) \<Longrightarrow> sp_path sp \<in> known s"
    and "\<And>env p sp e. pass_state s = Some (env, p) \<Longrightarrow> sp \<in> set (batch_of (Some p)) \<Longrightarrow> e \<in> set (waiting s) \<Longrightarrow>
      sp_path sp \<noteq> event_file e"
  shows "pass_ok replies s"
  using assms by (auto simp: pass_ok_def split: option.split)

lemma pass_okD:
  assumes "pass_ok replies s" "pass_state s = Some (env, p)"
  shows "reply_to env = replies" "sp \<in> set (batch_of (Some p)) \<Longrightarrow> entry_of (tele s) sp"
    "sp \<in> set (batch_of (Some p)) \<Longrightarrow> sp_path sp \<in> known s"
    "sp \<in> set (batch_of (Some p)) \<Longrightarrow> e \<in> set (waiting s) \<Longrightarrow> sp_path sp \<noteq> event_file e"
  using assms by (auto simp: pass_ok_def)

definition accounted :: "(nat \<Rightarrow> reply) \<Rightarrow> pipeline \<Rightarrow> bool" where
  "accounted replies s \<longleftrightarrow> int (card (missing replies s)) \<le> snd (pipe_tel s) Dropped"

definition pipe_inv :: "(nat \<Rightarrow> reply) \<Rightarrow> pipeline \<Rightarrow> bool" where
  "pipe_inv replies s \<longleftrightarrow> (list_all event_ok (emitted s) \<longrightarrow> files_ok s \<and> pass_ok replies s \<and> accounted replies s)"

lemma finite_missing [simp]: "finite (missing replies s)"
  by (simp add: missing_def)

lemma card_add_le:
  assumes "A - B \<subseteq> C" "finite B" "finite C"
  shows "card A \<le> card B + card C"
proof -
  have "card A \<le> card (B \<union> C)" using assms by (intro card_mono) auto
  then show ?thesis using card_Un_le [of B C] by linarith
qed

lemma event_file_eq: "event_file e = event_file e' \<longleftrightarrow> ID e = ID e'"
  by (simp add: event_file_def)

lemma same_file_same_event:
  "distinct (map event_file es) \<Longrightarrow> e \<in> set es \<Longrightarrow> e' \<in> set es \<Longrightarrow> event_file e = event_file e' \<Longrightarrow> e = e'"
  by (auto simp: distinct_map inj_on_def)

text \<open>A step that leaves the waiting events, the spool, the answers and the histories alone, and does not lower \<open>Dropped\<close>.\<close>

definition same_events :: "pipeline \<Rightarrow> pipeline \<Rightarrow> bool" where
  "same_events s s' \<longleftrightarrow> waiting s' = waiting s \<and> spool (tele s') = spool (tele s) \<and> posts (tele s') = posts (tele s)
     \<and> emitted s' = emitted s \<and> known s' = known s \<and> snd (pipe_tel s) Dropped \<le> snd (pipe_tel s') Dropped"

lemma same_events_inv:
  assumes "pipe_inv replies s" "same_events s s'"
    and "pass_state s' = pass_state s \<or>
      (case pass_state s' of None \<Rightarrow> True | Some (env, p) \<Rightarrow> reply_to env = replies \<and> batch_of (Some p) = [])"
  shows "pipe_inv replies s'"
proof -
  have p: "waiting s' = waiting s" using assms(2) by (simp add: same_events_def)
  have m: "missing replies s' = missing replies s"
    using assms(2) p by (simp add: missing_def same_events_def acked_def)
  have e: "entry_of (tele s') = entry_of (tele s)"
    using assms(2) by (simp add: same_events_def entry_of_def fun_eq_iff)
  have "files_ok s' = files_ok s" using assms(2) p by (simp add: files_ok_def same_events_def)
  moreover have "pass_ok replies s \<Longrightarrow> pass_ok replies s'"
    using assms(3)
  proof (elim disjE)
    assume "pass_ok replies s" "pass_state s' = pass_state s"
    then show "pass_ok replies s'" using p e assms(2) by (auto simp: pass_ok_def same_events_def split: option.splits)
  qed (auto simp: pass_ok_def split: option.splits)
  moreover have "accounted replies s \<Longrightarrow> accounted replies s'" using m assms(2) by (simp add: accounted_def same_events_def)
  moreover have "emitted s' = emitted s" using assms(2) by (simp add: same_events_def)
  ultimately show ?thesis using assms(1) by (simp add: pipe_inv_def)
qed

text \<open>Emitting.\<close>

lemma Emit_effect:
  assumes "Emit c e (t, m) = (t', m')"
  shows "spool t' = spool t" "posts t' = posts t"
    "queue t' = queue t @ [e] \<and> m' Dropped = m Dropped \<or> queue t' = queue t \<and> m' Dropped = m Dropped + 1"
  using assms by (auto simp: Emit_def Let_def Add_def split: if_splits)

lemma emit_inv:
  assumes "pipe_inv replies s" "event_file e \<notin> known s"
  shows "pipe_inv replies (emit_op c e s)"
  unfolding pipe_inv_def
proof
  assume "list_all event_ok (emitted (emit_op c e s))"
  then have s: "files_ok s" "pass_ok replies s" "accounted replies s"
    using assms(1) by (simp_all add: pipe_inv_def emit_op_def)
  obtain t' m' where E: "Emit c e (pipe_tel s) = (t', m')" by (cases "Emit c e (pipe_tel s)")
  note eff = Emit_effect [of c e "tele s" "snd (pipe_tel s)", simplified, OF E]
  let ?s = "emit_op c e s"
  have s': "tele ?s = t'" "snd (pipe_tel ?s) = m'" "emitted ?s = emitted s @ [e]" "known ?s = insert (event_file e) (known s)"
    "hand ?s = hand s" "pass_state ?s = pass_state s"
    by (simp_all add: emit_op_def E)
  have new: "e \<notin> set (emitted s)" "event_file e \<notin> event_file ` set (emitted s)" "map_of (spool (tele s)) (event_file e) = None"
    using s(1) assms(2) by (auto simp: files_ok_def domIff)
  have pend: "waiting ?s = waiting s @ [e] \<and> m' Dropped = snd (pipe_tel s) Dropped \<or> waiting ?s = waiting s \<and> m' Dropped = snd (pipe_tel s) Dropped + 1"
    using eff(3) by (auto simp: waiting_def s')
  have sub: "set (waiting s) \<subseteq> set (emitted s)" using s(1) by (simp add: files_ok_def)
  have "files_ok ?s"
    using s(1) new pend sub by (auto simp: files_ok_def s' eff)
  moreover have "pass_ok replies ?s"
  proof (rule pass_okI)
    fix env p sp e' assume p: "pass_state ?s = Some (env, p)" "sp \<in> set (batch_of (Some p))" "e' \<in> set (waiting ?s)"
    then show "sp_path sp \<noteq> event_file e'" using pass_okD(3) [OF s(2), of env p sp] pass_okD(4) [OF s(2), of env p sp e'] pend assms(2) by (auto simp: s')
  qed (use pass_okD [OF s(2)] in \<open>auto simp: s' eff entry_of_def\<close>)
  moreover have "missing replies ?s \<subseteq> missing replies s \<union> (if e \<in> set (waiting ?s) then {} else {e})"
    using pend new by (auto simp: missing_def s' eff acked_def)
  then have "card (missing replies ?s) \<le> card (missing replies s) + (if e \<in> set (waiting ?s) then 0 else 1)"
    using card_add_le [of "missing replies ?s" "missing replies s" "if e \<in> set (waiting ?s) then {} else {e}"] by (auto split: if_splits)
  then have "accounted replies ?s"
    using s(3) pend new sub by (auto simp: accounted_def s' split: if_splits)
  ultimately show "files_ok ?s \<and> pass_ok replies ?s \<and> accounted replies ?s" by blast
qed

text \<open>Writing to the spool.\<close>

lemma persist_effect:
  assumes "persist c io now e (t, m) = (t', m')"
  shows "queue t' = queue t" "otlp t' = otlp t" "posts t' = posts t"
    "spool t' = spool t \<and> m' Dropped = m Dropped + 1 \<or>
     spool t' = dir_put (event_file e) \<lparr>content = json_print (event_json (Event_wire e)), mtime = now\<rparr> (spool t) \<and> m Dropped \<le> m' Dropped"
  using assms by (auto simp: persist_def spool_file_def event_file_def Let_def Add_def split: if_splits)

lemma file_id_put_other: "n' \<noteq> n \<Longrightarrow> file_id (dir_put n f d) n' = file_id d n'"
  by (simp add: file_id_def dir_put_lookup)

lemma persist_files:
  assumes "files_ok s" "hand s = Some e" "event_ok e"
  shows "files_ok (s\<lparr>pipe_tel := persist c io now e (pipe_tel s), hand := None\<rparr>)"
proof -
  let ?s = "s\<lparr>pipe_tel := persist c io now e (pipe_tel s), hand := None\<rparr>"
  obtain t' m' where E: "persist c io now e (pipe_tel s) = (t', m')" by (cases "persist c io now e (pipe_tel s)")
  note eff = persist_effect [of c io now e "tele s" "snd (pipe_tel s)", simplified, OF E]
  have pend: "waiting s = e # waiting ?s" using assms(2) by (simp add: waiting_def E eff)
  have e: "e \<in> set (emitted s)" "e \<notin> set (waiting ?s)" using assms(1) pend by (auto simp: files_ok_def)
  have other: "event_file e' \<noteq> event_file e" if "e' \<in> set (waiting ?s)" for e'
    using that assms(1) pend e same_file_same_event [of "emitted s" e' e] by (auto simp: files_ok_def)
  have away: "map_of (spool t') n = map_of (spool (tele s)) n" "file_id (spool t') n = file_id (spool (tele s)) n" if "n \<noteq> event_file e" for n
    using that eff(4) by (auto simp: dir_put_lookup file_id_put_other)
  have own: "file_id (spool t') (event_file e) = ID e" if "map_of (spool t') (event_file e) \<noteq> None"
    using that eff(4) event_read_back [OF assms(3)] assms(1) pend by (auto simp: file_id_def dir_put_lookup files_ok_def)
  have kn: "map_of (spool (tele s)) n \<noteq> None \<Longrightarrow> n \<in> known s" for n using assms(1) by (auto simp: files_ok_def)
  show ?thesis
    unfolding files_ok_def
  proof (intro conjI ballI impI)
    show "dom (map_of (spool (tele ?s))) \<subseteq> known ?s"
    proof
      fix n assume "n \<in> dom (map_of (spool (tele ?s)))"
      then show "n \<in> known ?s"
        using away(1) [of n] kn [of n] assms(1) e(1) by (cases "n = event_file e") (simp_all add: E files_ok_def domIff image_subset_iff)
    qed
    show "map_of (spool (tele ?s)) (event_file e') = None" if "e' \<in> set (waiting ?s)" for e'
      using that away(1) [OF other] assms(1) pend by (simp add: E files_ok_def)
    show "file_id (spool (tele ?s)) (event_file e') = ID e'" if "e' \<in> set (emitted ?s)" "map_of (spool (tele ?s)) (event_file e') \<noteq> None" for e'
      using that own away [of "event_file e'"] assms(1) e(1) same_file_same_event [of "emitted s" e' e]
      by (cases "event_file e' = event_file e") (auto simp: E files_ok_def)
  qed (use assms(1) pend in \<open>auto simp: files_ok_def\<close>)
qed

lemma persist_inv:
  assumes "pipe_inv replies s" "hand s = Some e"
  shows "pipe_inv replies (s\<lparr>pipe_tel := persist c io now e (pipe_tel s), hand := None\<rparr>)"
  unfolding pipe_inv_def
proof
  let ?s = "s\<lparr>pipe_tel := persist c io now e (pipe_tel s), hand := None\<rparr>"
  assume ok: "list_all event_ok (emitted ?s)"
  then have s: "files_ok s" "pass_ok replies s" "accounted replies s"
    using assms(1) by (simp_all add: pipe_inv_def)
  obtain t' m' where E: "persist c io now e (pipe_tel s) = (t', m')" by (cases "persist c io now e (pipe_tel s)")
  note eff = persist_effect [of c io now e "tele s" "snd (pipe_tel s)", simplified, OF E]
  have pend: "waiting s = e # waiting ?s" using assms(2) by (simp add: waiting_def E eff)
  have "event_ok e" using ok s(1) pend by (auto simp: files_ok_def list_all_iff)
  then have "files_ok ?s" using persist_files [OF s(1) assms(2)] by simp
  moreover have "pass_ok replies ?s"
  proof (rule pass_okI)
    fix env p sp assume "pass_state ?s = Some (env, p)" "sp \<in> set (batch_of (Some p))"
    then have "entry_of (tele s) sp" "sp_path sp \<noteq> event_file e"
      using pass_okD(2) [OF s(2), of env p sp] pass_okD(4) [OF s(2), of env p sp e] pend by auto
    then show "entry_of (tele ?s) sp"
      using eff(4) by (auto simp: E entry_of_def dir_put_lookup file_id_put_other)
  qed (use pass_okD [OF s(2)] pend in auto)
  moreover have "missing replies ?s \<subseteq> missing replies s \<union> (if spool t' = spool (tele s) then {e} else {})"
    using eff pend by (auto simp: missing_def E acked_def dir_put_lookup split: if_splits)
  then have "card (missing replies ?s) \<le> card (missing replies s) + (if spool t' = spool (tele s) then 1 else 0)"
    using card_add_le [of "missing replies ?s" "missing replies s" "if spool t' = spool (tele s) then {e} else {}"] by (auto split: if_splits)
  moreover have "spool t' = spool (tele s) \<Longrightarrow> m' Dropped = snd (pipe_tel s) Dropped + 1"
    using eff(4) s(1) assms(2) pend by (auto simp: files_ok_def dir_put_lookup dest!: arg_cong [where f = "\<lambda>d. map_of d (event_file e)"])
  ultimately show "files_ok ?s \<and> pass_ok replies ?s \<and> accounted replies ?s"
    using s(3) eff(4) by (auto simp: accounted_def E split: if_splits)
qed

text \<open>Delivering: a turn that settles what it removes leaves the files and the pass as they should be.\<close>

lemma settled_files:
  assumes "files_ok s" "settles env (pipe_tel s) tm'" "queue (fst tm') = queue (tele s)"
  shows "files_ok (s\<lparr>pipe_tel := tm', pass_state := q\<rparr>)"
proof -
  have le: "map_of (spool (fst tm')) \<subseteq>\<^sub>m map_of (spool (tele s))" using assms(2) by (simp add: settles_def)
  have pend: "waiting (s\<lparr>pipe_tel := tm', pass_state := q\<rparr>) = waiting s" by (simp add: waiting_def assms(3))
  have gone: "map_of (spool (tele s)) n = None \<Longrightarrow> map_of (spool (fst tm')) n = None" for n
    using le by (metis domIff map_le_implies_dom_le subsetD)
  have "dom (map_of (spool (fst tm'))) \<subseteq> known s"
    using map_le_implies_dom_le [OF le] assms(1) unfolding files_ok_def by (meson subset_trans)
  then show ?thesis
    using assms(1) gone file_id_le [OF le] unfolding files_ok_def pend by simp (metis option.exhaust)
qed

lemma settled_accounted:
  assumes "files_ok s" "accounted replies s" "settles env (pipe_tel s) tm'" "queue (fst tm') = queue (tele s)" "reply_to env = replies"
  shows "accounted replies (s\<lparr>pipe_tel := tm', pass_state := q\<rparr>)"
proof -
  let ?s = "s\<lparr>pipe_tel := tm', pass_state := q\<rparr>" and ?l = "lost env (tele s) (fst tm')"
  have pend: "waiting ?s = waiting s" by (simp add: waiting_def assms(4))
  have le: "length (posts (tele s)) \<le> length (posts (fst tm'))" using assms(3) by (simp add: settles_def)
  have sub: "missing replies ?s - missing replies s \<subseteq> {e \<in> set (emitted s). event_file e \<in> ?l}"
  proof
    fix e assume e: "e \<in> missing replies ?s - missing replies s"
    then have m: "e \<in> set (emitted s)" "map_of (spool (fst tm')) (event_file e) = None" "\<not> acked replies (fst tm') (ID e)"
      by (simp_all add: missing_def)
    then have "\<not> acked replies (tele s) (ID e)" using le less_le_trans unfolding acked_def by blast
    then have "map_of (spool (tele s)) (event_file e) \<noteq> None" using e m(1) by (auto simp: missing_def pend)
    then show "e \<in> {e \<in> set (emitted s). event_file e \<in> ?l}"
      using m assms(1,5) by (simp add: lost_def acknowledged_acked files_ok_def)
  qed
  have "card {e \<in> set (emitted s). event_file e \<in> ?l} \<le> card ?l"
    using assms(1) by (intro card_inj_on_le [of event_file]) (auto simp: files_ok_def distinct_map inj_on_def)
  then have "card (missing replies ?s) \<le> card (missing replies s) + card ?l"
    using card_add_le [OF sub] by simp
  moreover have "int (card ?l) \<le> snd tm' Dropped - snd (pipe_tel s) Dropped" using assms(3) by (simp add: settles_def)
  ultimately show ?thesis using assms(2) by (simp add: accounted_def)
qed

lemma turn_inv:
  assumes "pipe_inv replies s"
  shows "pipe_inv replies (turn_op s)"
proof (cases "pass_state s")
  case None
  then show ?thesis using assms by (simp add: turn_op_def)
next
  case (Some ep)
  then obtain env p where ps: "pass_state s = Some (env, p)" by (cases ep) auto
  let ?env = "env\<lparr>cancelled := \<lambda>_. done_ctx s\<rparr>"
  obtain p' tm' where D: "deliver_turn ?env p (pipe_tel s) = (p', tm')" by (cases "deliver_turn ?env p (pipe_tel s)")
  let ?s = "s\<lparr>pipe_tel := tm', pass_state := map_option (Pair env) p'\<rparr>"
  have turn: "turn_op s = ?s" by (simp add: turn_op_def ps D)
  show ?thesis
    unfolding turn pipe_inv_def
  proof
    assume "list_all event_ok (emitted ?s)"
    then have s: "files_ok s" "pass_ok replies s" "accounted replies s"
      using assms by (simp_all add: pipe_inv_def)
    have "list_all (entry_of (tele s)) (batch_of (Some p))"
      using pass_okD(2) [OF s(2) ps] by (auto simp: list_all_iff)
    note ok = deliver_turn_ok [OF this D] and same = deliver_turn_queues(1) [OF D]
    have env: "reply_to env = replies" using pass_okD(1) [OF s(2) ps] .
    have pend: "waiting ?s = waiting s" by (simp add: waiting_def same)
    have "pass_ok replies ?s"
    proof (rule pass_okI)
      fix env' q sp assume q: "pass_state ?s = Some (env', q)" "sp \<in> set (batch_of (Some q))"
      then have q': "p' = Some q" by auto
      then show "entry_of (tele ?s) sp" using ok(2) q(2) by (simp add: list_all_iff)
      have from_spool: "sp_path sp \<in> sp_path ` set (batch_of (Some p)) \<or> map_of (spool (tele s)) (sp_path sp) \<noteq> None"
        using ok(3) q(2) q' by auto
      then show "sp_path sp \<in> known ?s"
        using pass_okD(3) [OF s(2) ps] s(1) by (auto simp: files_ok_def)
      show "sp_path sp \<noteq> event_file e" if "e \<in> set (waiting ?s)" for e
        using from_spool that pass_okD(4) [OF s(2) ps, of _ e] s(1) by (auto simp: files_ok_def pend)
    qed (use env in auto)
    then show "files_ok ?s \<and> pass_ok replies ?s \<and> accounted replies ?s"
      using settled_files [OF s(1) ok(1) same] settled_accounted [OF s(1,3) ok(1) same] env by simp
  qed
qed

text \<open>The other steps leave the events where they are.\<close>

lemma export_dropped [simp]:
  "snd (exportOTLPBatch getenv c b r m) Dropped = m Dropped"
  "snd (exportMetrics getenv c built now start ms l rows r m) Dropped = m Dropped"
  by (simp_all add: exportOTLPBatch_def exportMetrics_def postSpans_def export_reply_def sampleRuntime_def Store_def Add_def Let_def
      split: reply.split)

lemma turn_op_cases:
  obtains "turn_op s = s" | tm p where "turn_op s = s\<lparr>pipe_tel := tm, pass_state := p\<rparr>" "queue (fst tm) = queue (tele s)" "otlp (fst tm) = otlp (tele s)"
proof (cases "pass_state s")
  case None
  then show thesis using that(1) by (simp add: turn_op_def)
next
  case (Some ep)
  obtain p' tm' where D: "deliver_turn (fst ep\<lparr>cancelled := \<lambda>_. done_ctx s\<rparr>) (snd ep) (pipe_tel s) = (p', tm')"
    by (cases "deliver_turn (fst ep\<lparr>cancelled := \<lambda>_. done_ctx s\<rparr>) (snd ep) (pipe_tel s)")
  then show thesis
    using that(2) [where tm = tm' and p = "map_option (Pair (fst ep)) p'"] deliver_turn_queues [OF D] Some by (simp add: turn_op_def case_prod_beta)
qed

lemma persist_otlp [simp]: "otlp (fst (persist c io now e tm)) = otlp (fst tm)"
  using persist_effect(2) [of c io now e "fst tm" "snd tm"] by (cases "persist c io now e tm") simp

lemma pipe_step_inv:
  assumes "pipe_step getenv c replies a s s'" "pipe_inv replies s"
  shows "pipe_inv replies s'"
  using assms
proof (induction rule: pipe_step.induct)
  case (emit e s)
  then show ?case using emit_inv by blast
next
  case (take_event s)
  then have "same_events s (take_op s)" by (simp add: same_events_def take_op_def waiting_def)
  then show ?case using take_event same_events_inv by (simp add: take_op_def)
next
  case (persist s e io now)
  then show ?case using persist_inv by blast
next
  case (tick s env)
  have "same_events s (tick_op env s)" by (simp add: same_events_def tick_op_def waiting_def Add_def)
  then show ?case using tick same_events_inv by (simp add: tick_op_def batch_of_def)
next
  case (turn s)
  then show ?case using turn_inv by blast
qed (erule same_events_inv; simp add: same_events_def waiting_def span_next_def span_send_def)+

definition pipe_start :: "pipeline \<Rightarrow> bool" where
  "pipe_start s \<longleftrightarrow> (\<exists>tm. s = Telemetry_Start tm \<and> queue (fst tm) = [] \<and> otlp (fst tm) = [] \<and> 0 \<le> snd tm Dropped)"

lemma pipe_start_inv: "pipe_start s \<Longrightarrow> pipe_inv replies s"
  by (auto simp: pipe_start_def pipe_inv_def files_ok_def pass_ok_def accounted_def missing_def waiting_def Telemetry_Start_def
      dom_map_of_conv_image_fst image_iff Bex_def)

lemma NewTelemetry_starts: "0 \<le> m Dropped \<Longrightarrow> pipe_start (Telemetry_Start (NewTelemetry d m))"
proof -
  have "fold (\<lambda>(n, f) m. if has_suffix ''.json'' n then Add SpoolCount 1 (Add SpoolUsed (size_of f) m) else m) fs m Dropped = m Dropped" for fs m
    by (induction fs arbitrary: m) (auto simp: Add_def)
  then have "snd (NewTelemetry d m) Dropped = m Dropped" by (simp add: NewTelemetry_def)
  then show "0 \<le> m Dropped \<Longrightarrow> ?thesis"
    unfolding pipe_start_def by (intro exI [of _ "NewTelemetry d m"]) (simp add: NewTelemetry_def)
qed

interpretation pipe: step_invariant "pipe_step getenv c replies" "pipe_inv replies" pipe_start for getenv c replies
  by unfold_locales (auto intro: pipe_start_inv pipe_step_inv)

section \<open>The worker stops with an empty queue\<close>

text \<open>Nothing is in its hand, and what is in the queue was emitted after it stopped.\<close>

definition stopped_clean :: "Event list \<Rightarrow> pipeline \<Rightarrow> bool" where
  "stopped_clean es s \<longleftrightarrow> worker_state s = Stopped \<and> hand s = None \<and> (emitted s = es \<longrightarrow> queue (tele s) = []) \<and> (\<exists>es'. emitted s = es @ es')"

lemma pipe_step_stopped:
  assumes "pipe_step getenv c replies a s s'" "stopped_clean es s"
  shows "stopped_clean es s'"
  using assms
proof (induction rule: pipe_step.induct)
  case (turn s)
  then show ?case by (cases rule: turn_op_cases [of s]) (auto simp: stopped_clean_def)
qed (auto simp: stopped_clean_def emit_op_def take_op_def tick_op_def span_next_def span_send_def)

interpretation stopped: step_invariant "pipe_step getenv c replies" "stopped_clean es" "stopped_clean es" for getenv c replies es
  by unfold_locales (auto intro: pipe_step_stopped)

lemma worker_end_clean: "pipe_step getenv c replies WorkerEndOp s s' \<Longrightarrow> stopped_clean (emitted s') s'"
  by (auto simp: stopped_clean_def elim: pipe_step.cases)

text \<open>Once the context is done, the worker alone can finish, whatever happens to its writes.\<close>

lemma worker_drains:
  assumes "worker_state s = Emptying" "hand s = None"
  shows "\<exists>as s'. steps (pipe_step getenv c replies) as s s' \<and> set as \<subseteq> {TakeOp, PersistOp io now, WorkerEndOp} \<and>
    worker_state s' = Stopped \<and> waiting s' = [] \<and> emitted s' = emitted s"
  using assms
proof (induction "queue (tele s)" arbitrary: s)
  case Nil
  then have "pipe_step getenv c replies WorkerEndOp s (s\<lparr>worker_state := Stopped\<rparr>)" by (intro pipe_step.worker_end) auto
  then show ?case using Nil by (intro exI [of _ "[WorkerEndOp]"] exI [of _ "s\<lparr>worker_state := Stopped\<rparr>"]) (auto simp: waiting_def)
next
  case (Cons e q)
  let ?t = "take_op s"
  let ?p = "?t\<lparr>pipe_tel := persist c io now e (pipe_tel ?t), hand := None\<rparr>"
  have q: "queue (tele s) = e # q" using Cons.hyps(2) by simp
  have 1: "pipe_step getenv c replies TakeOp s ?t" using Cons.prems q by (intro pipe_step.take_event) auto
  have 2: "pipe_step getenv c replies (PersistOp io now) ?t ?p"
    by (intro pipe_step.persist) (simp add: take_op_def q)
  have "queue (tele ?p) = q"
    using persist_effect(1) [of c io now e "tele ?t" "snd (pipe_tel ?t)"] by (cases "persist c io now e (pipe_tel ?t)") (simp add: take_op_def q)
  from Cons.hyps(1) [OF this [symmetric]] Cons.prems obtain as s' where
    "steps (pipe_step getenv c replies) as ?p s'" "set as \<subseteq> {TakeOp, PersistOp io now, WorkerEndOp}" "worker_state s' = Stopped"
    "waiting s' = []" "emitted s' = emitted s"
    by (auto simp: take_op_def)
  then show ?case using 1 2 by (intro exI [of _ "TakeOp # PersistOp io now # as"] exI [of _ s']) auto
qed

section \<open>Spans leave in order\<close>

definition spans_ok :: "pipeline \<Rightarrow> bool" where
  "spans_ok s \<longleftrightarrow>
     concat (span_posts s) @ (case gathered s of None \<Rightarrow> [] | Some b \<Rightarrow> b) @ otlp (tele s) = otlp_taken s
     \<and> list_all (\<lambda>b. b \<noteq> [] \<and> length b \<le> otlpBatch) (span_posts s)
     \<and> (\<forall>b. gathered s = Some b \<longrightarrow> b \<noteq> [] \<and> length b \<le> otlpBatch)"

lemma Emit_otlp:
  "otlp (fst (Emit c e tm)) =
     (if OTLPURL c \<noteq> [] \<and> int (length (otlp (fst tm))) < QueueSize c then otlp (fst tm) @ [e] else otlp (fst tm))"
  by (cases tm) (simp add: Emit_def Let_def)

lemma otlpBatch_pos [simp]: "0 < otlpBatch"
  by (simp add: otlpBatch_def)

lemma pipe_step_spans:
  assumes "pipe_step getenv c replies a s s'" "spans_ok s"
  shows "spans_ok s'"
  using assms
proof (induction rule: pipe_step.induct)
  case (turn s)
  then show ?case by (cases rule: turn_op_cases [of s]) (auto simp: spans_ok_def)
qed (auto simp: spans_ok_def emit_op_def take_op_def tick_op_def span_next_def span_send_def Emit_otlp Suc_le_eq)

lemma pipe_start_spans: "pipe_start s \<Longrightarrow> spans_ok s"
  by (auto simp: pipe_start_def Telemetry_Start_def spans_ok_def)

interpretation spans: step_invariant "pipe_step getenv c replies" spans_ok pipe_start for getenv c replies
  by unfold_locales (auto intro: pipe_step_spans pipe_start_spans)

end
