(* ===== verification/Log_Writer.thy ===== *)
theory Log_Writer
  imports Gateway_Prelude Steps "HOL-Library.Sublist"
begin

text \<open>
  The writer that keeps a slow log driver away from inference (\<open>logging.go\<close>). Any number of
  goroutines call \<open>Write\<close>, one goroutine drains the channel, and \<open>Close\<close> is called when the process
  stops. A call of \<open>Write\<close> first loads the flag and then sends, and another goroutine may run in
  between, so the two are separate steps; the same holds for the two halves of \<open>Close\<close> and of a
  turn of the drain loop. A history is a sequence of such steps (\<open>log_run\<close>). Shown here: every call is
  accounted for, records reach the driver in the order of their sends, \<open>Close\<close> waits for
  everything that was queued, and a write can panic only when it was between its check and its
  send while \<open>Close\<close> closed the channel, which can happen.
\<close>

section \<open>State and operations\<close>

text \<open>
  \<open>log_checked\<close> holds the records of the calls that have found the writer open and have not sent yet,
  \<open>log_closing\<close> says that a call of \<open>Close\<close> has won the swap and not closed the channel yet,
  \<open>log_hand\<close> is the record the drain goroutine has taken. The last four fields are what the world sees:
  what the driver took, what it refused, the calls that panicked, and how many calls there were.
\<close>

record log_writer =
  log_queue :: "bytes list"
  log_chan_closed :: bool
  log_drained :: bool
  log_closed :: bool
  log_Dropped :: nat
  log_checked :: "bytes list"
  log_closing :: bool
  log_hand :: "bytes option"
  log_out :: "bytes list"
  log_failed :: "bytes list"
  log_panics :: "bytes list"
  log_sent :: "bytes list"
  log_calls :: nat

definition log_capacity :: nat where
  "log_capacity = 1024"

definition NewAsyncLogWriter :: log_writer where
  "NewAsyncLogWriter = \<lparr>log_queue = [], log_chan_closed = False, log_drained = False, log_closed = False,
     log_Dropped = 0, log_checked = [], log_closing = False, log_hand = None, log_out = [], log_failed = [],
     log_panics = [], log_sent = [], log_calls = 0\<rparr>"

text \<open>\<open>Write\<close>: the check of the flag, and then the send, which panics on a closed channel and does not block on a full one.\<close>

definition log_write_check :: "bytes \<Rightarrow> log_writer \<Rightarrow> log_writer" where
  "log_write_check b w = (let w = w\<lparr>log_calls := log_calls w + 1\<rparr> in
     if log_closed w then w\<lparr>log_Dropped := log_Dropped w + 1\<rparr>
     else w\<lparr>log_checked := b # log_checked w\<rparr>)"

definition log_write_send :: "bytes \<Rightarrow> log_writer \<Rightarrow> log_writer" where
  "log_write_send b w = (let w = w\<lparr>log_checked := remove1 b (log_checked w)\<rparr> in
     if log_chan_closed w then w\<lparr>log_panics := b # log_panics w\<rparr>
     else if length (log_queue w) < log_capacity
     then w\<lparr>log_queue := log_queue w @ [b], log_sent := log_sent w @ [b]\<rparr>
     else w\<lparr>log_Dropped := log_Dropped w + 1\<rparr>)"

text \<open>The drain goroutine: take the next record, or end when the channel is closed and empty; write it out.\<close>

definition log_receive :: "log_writer \<Rightarrow> log_writer" where
  "log_receive w = (case log_queue w of
     b # q \<Rightarrow> w\<lparr>log_queue := q, log_hand := Some b\<rparr>
   | [] \<Rightarrow> w\<lparr>log_drained := True\<rparr>)"

definition log_output :: "bool \<Rightarrow> bytes \<Rightarrow> log_writer \<Rightarrow> log_writer" where
  "log_output ok b w = (let w = w\<lparr>log_hand := None\<rparr> in
     if ok then w\<lparr>log_out := log_out w @ [b]\<rparr>
     else w\<lparr>log_Dropped := log_Dropped w + 1, log_failed := log_failed w @ [b]\<rparr>)"

text \<open>\<open>Close\<close>: the swap of the flag, and the closing of the channel by the call that won. \<open>Close\<close> returns once \<open>log_drained\<close> holds.\<close>

definition log_close_swap :: "log_writer \<Rightarrow> log_writer" where
  "log_close_swap w = (if log_closed w then w else w\<lparr>log_closed := True, log_closing := True\<rparr>)"

definition log_close_channel :: "log_writer \<Rightarrow> log_writer" where
  "log_close_channel w = w\<lparr>log_closing := False, log_chan_closed := True\<rparr>"

datatype log_op = WriteCheck bytes | WriteSend bytes | Receive | Output bool | CloseSwap | CloseChannel

text \<open>When each goroutine can move, and to where.\<close>

inductive log_step :: "log_op \<Rightarrow> log_writer \<Rightarrow> log_writer \<Rightarrow> bool" where
  check: "log_step (WriteCheck b) w (log_write_check b w)"
| send: "b \<in> set (log_checked w) \<Longrightarrow> log_step (WriteSend b) w (log_write_send b w)"
| receive: "\<not> log_drained w \<Longrightarrow> log_hand w = None \<Longrightarrow> log_queue w \<noteq> [] \<or> log_chan_closed w \<Longrightarrow>
    log_step Receive w (log_receive w)"
| out: "log_hand w = Some b \<Longrightarrow> log_step (Output ok) w (log_output ok b w)"
| swap: "log_step CloseSwap w (log_close_swap w)"
| close: "log_closing w \<Longrightarrow> log_step CloseChannel w (log_close_channel w)"

abbreviation log_run :: "log_op list \<Rightarrow> log_writer \<Rightarrow> log_writer \<Rightarrow> bool" where
  "log_run \<equiv> steps log_step"

inductive_simps log_step_simps:
  "log_step (WriteCheck b) w w'" "log_step (WriteSend b) w w'" "log_step Receive w w'"
  "log_step (Output ok) w w'" "log_step CloseSwap w w'" "log_step CloseChannel w w'"

lemmas log_ops = log_write_check_def log_write_send_def log_receive_def log_output_def log_close_swap_def
  log_close_channel_def Let_def

section \<open>What holds in every history\<close>

definition log_pending :: "log_writer \<Rightarrow> bytes list" where
  "log_pending w = (case log_hand w of None \<Rightarrow> [] | Some b \<Rightarrow> [b]) @ log_queue w"

text \<open>Every call is in flight, queued, with the driver, written, counted as dropped, or panicked.\<close>

definition log_balanced :: "log_writer \<Rightarrow> bool" where
  "log_balanced w \<longleftrightarrow> log_calls w = length (log_checked w) + length (log_pending w) + length (log_out w)
     + log_Dropped w + length (log_panics w)"

text \<open>What was sent is what the driver was given, in that order, and what is still to be given.\<close>

definition log_ordered :: "log_writer \<Rightarrow> bool" where
  "log_ordered w \<longleftrightarrow> (\<exists>given. log_sent w = given @ log_pending w \<and> subseq (log_out w) given
     \<and> length given = length (log_out w) + length (log_failed w))"

definition log_flags :: "log_writer \<Rightarrow> bool" where
  "log_flags w \<longleftrightarrow> length (log_queue w) \<le> log_capacity
     \<and> (log_drained w \<longrightarrow> log_chan_closed w \<and> log_pending w = [])
     \<and> (log_chan_closed w \<longrightarrow> log_closed w) \<and> (log_closing w \<longrightarrow> log_closed w \<and> \<not> log_chan_closed w)
     \<and> (log_closed w \<longrightarrow> log_closing w \<or> log_chan_closed w)
     \<and> (log_panics w \<noteq> [] \<longrightarrow> log_chan_closed w)"

definition log_inv :: "log_writer \<Rightarrow> bool" where
  "log_inv w \<longleftrightarrow> log_balanced w \<and> log_ordered w \<and> log_flags w"

lemma log_step_balanced: "log_step a w w' \<Longrightarrow> log_balanced w \<Longrightarrow> log_balanced w'"
  by (induction rule: log_step.induct)
    (auto simp: log_balanced_def log_pending_def log_ops length_remove1 dest: length_pos_if_in_set split: list.splits)

lemma log_step_ordered: 
  assumes "log_step a w w'" and "log_ordered w" and "log_flags w"
  shows "log_ordered w'"
  using assms
proof (induction rule: log_step.induct)
  case (out w b ok)
  then obtain given where g: "log_sent w = given @ b # log_queue w" "subseq (log_out w) given"
      "length given = length (log_out w) + length (log_failed w)"
    by (auto simp: log_ordered_def log_pending_def)
  have "log_sent (log_output ok b w) = (given @ [b]) @ log_pending (log_output ok b w)"
    using g(1) by (simp add: log_pending_def log_ops)
  moreover have "subseq (log_out (log_output ok b w)) (given @ [b])"
    using g(2) by (simp add: log_ops subseq_append' subseq_rev_drop_many)
  moreover have "length (given @ [b]) = length (log_out (log_output ok b w)) + length (log_failed (log_output ok b w))"
    using g(3) by (simp add: log_ops)
  ultimately show ?case by (auto simp: log_ordered_def)
qed (auto simp: log_ordered_def log_pending_def log_ops split: list.splits)

lemma log_step_flags: "log_step a w w' \<Longrightarrow> log_flags w \<Longrightarrow> log_flags w'"
  by (induction rule: log_step.induct) (auto simp: log_flags_def log_pending_def log_ops split: list.splits)

lemma log_step_inv: "log_step a w w' \<Longrightarrow> log_inv w \<Longrightarrow> log_inv w'"
  using log_step_balanced log_step_ordered log_step_flags unfolding log_inv_def by blast

lemma NewAsyncLogWriter_inv: "log_inv NewAsyncLogWriter"
  by (simp add: log_inv_def log_balanced_def log_ordered_def log_flags_def log_pending_def NewAsyncLogWriter_def)

interpretation log: step_invariant log_step log_inv "\<lambda>w. w = NewAsyncLogWriter"
  by unfold_locales (auto intro: log_step_inv NewAsyncLogWriter_inv)

section \<open>Closing\<close>

text \<open>With the channel closed, the drain goroutine ends by itself, having given everything to the driver.\<close>

lemma drain_hand_empty:
  assumes "log_chan_closed w" "\<not> log_drained w" "log_hand w = None"
  shows "\<exists>as w'. set as \<subseteq> {Receive, Output True} \<and> log_run as w w' \<and> log_drained w'
     \<and> log_out w' = log_out w @ log_queue w"
  using assms
proof (induction "log_queue w" arbitrary: w)
  case Nil
  then have "log_step Receive w (w\<lparr>log_drained := True\<rparr>)"
    using log_step.receive [of w] by (simp add: log_receive_def)
  with Nil(1) show ?case by (intro exI [of _ "[Receive]"]) auto
next
  case (Cons b q)
  let ?v = "w\<lparr>log_queue := q, log_hand := Some b\<rparr>"
  let ?u = "log_output True b ?v"
  have 1: "log_step Receive w ?v"
    using Cons.hyps(2) Cons.prems log_step.receive [of w] by (simp add: log_receive_def split: list.splits)
  have 2: "log_step (Output True) ?v ?u" by (rule log_step.out) simp
  from Cons.hyps(1) [of ?u] Cons.prems obtain as w' where
    "set as \<subseteq> {Receive, Output True}" "log_run as ?u w'" "log_drained w'" "log_out w' = log_out ?u @ q"
    by (auto simp: log_ops)
  then show ?case
    using 1 2 Cons.hyps(2) by (intro exI [of _ "Receive # Output True # as"] exI [of _ w']) (auto simp: log_ops)
qed

lemma closed_drains:
  assumes "log_chan_closed w" "\<not> log_drained w"
  shows "\<exists>as w'. set as \<subseteq> {Receive, Output True} \<and> log_run as w w' \<and> log_drained w'
     \<and> log_out w' = log_out w @ log_pending w"
proof (cases "log_hand w")
  case None
  with drain_hand_empty [of w] assms show ?thesis by (simp add: log_pending_def)
next
  case (Some b)
  let ?u = "log_output True b w"
  have 1: "log_step (Output True) w ?u" using Some by (rule log_step.out)
  from drain_hand_empty [of ?u] assms obtain as w' where
    "set as \<subseteq> {Receive, Output True}" "log_run as ?u w'" "log_drained w'" "log_out w' = log_out ?u @ log_queue ?u"
    by (auto simp: log_ops)
  then show ?thesis
    using 1 Some by (intro exI [of _ "Output True # as"] exI [of _ w']) (auto simp: log_ops log_pending_def)
qed

text \<open>Once the writer is closed and no call is between its check and its send, no later call panics.\<close>

definition log_quiet :: "log_writer \<Rightarrow> bool" where
  "log_quiet w \<longleftrightarrow> log_closed w \<and> log_checked w = []"

lemma log_step_quiet: "log_step a w w' \<Longrightarrow> log_quiet w \<Longrightarrow> log_quiet w' \<and> log_panics w' = log_panics w"
  by (induction rule: log_step.induct) (auto simp: log_quiet_def log_ops split: list.splits)

interpretation quiet: step_invariant log_step "\<lambda>w. log_quiet w \<and> log_panics w = ps"
    "\<lambda>w. log_quiet w \<and> log_panics w = ps" for ps
  by unfold_locales (auto dest: log_step_quiet)

text \<open>A call that was checked before the flag was set, and sends after the channel was closed.\<close>

definition late_write :: "bytes \<Rightarrow> log_op list" where
  "late_write b = [WriteCheck b, CloseSwap, CloseChannel, WriteSend b]"

lemma late_write_panics:
  "\<exists>w. log_run (late_write b) NewAsyncLogWriter w \<and> log_panics w = [b] \<and> log_Dropped w = 0"
  by (simp add: late_write_def log_step_simps log_ops NewAsyncLogWriter_def)

end
