(* ===== verification/Startup.thy ===== *)
theory Startup
  imports Http Upkeep Pipeline Log_Writer
begin

text \<open>
  The process around the gateway (\<open>cmd/gateway/main.go\<close>): reading the configuration, taking the data directory,
  restoring the policy, registering with the marketplace, building the stores, and which background tasks are
  started; the subcommands that derive a public key and prepare a volume; and the order of a shutdown.
  Each step that can fail ends the start with its error, and the message of a fatal error goes through the
  log writer before the process exits. Shown: what holds of every gateway that has started, that a key
  printed by the subcommand is one the configuration accepts, and what is over when the process exits.
\<close>

section \<open>Reading the configuration\<close>

definition dec_int32 :: "int \<Rightarrow> json \<Rightarrow> int option" where
  "dec_int32 old j = Option.bind (dec_int old j) (\<lambda>i. if - (2 ^ 31) \<le> i \<and> i < 2 ^ 31 then Some i else None)"

text \<open>A JSON object into a Go map: every member is decoded from the zero value of the element.\<close>

fun dec_members :: "('a \<Rightarrow> json \<Rightarrow> 'a option) \<Rightarrow> 'a \<Rightarrow> (bytes \<times> 'a) list \<Rightarrow> (bytes \<times> json) list \<Rightarrow> (bytes \<times> 'a) list option" where
  "dec_members d zero m [] = Some m"
| "dec_members d zero m ((k, v) # kvs) =
     (case d zero v of None \<Rightarrow> None | Some x \<Rightarrow> dec_members d zero (AList.update k x m) kvs)"

definition dec_map :: "('a \<Rightarrow> json \<Rightarrow> 'a option) \<Rightarrow> 'a \<Rightarrow> (bytes \<times> 'a) list \<Rightarrow> json \<Rightarrow> (bytes \<times> 'a) list option" where
  "dec_map d zero m j = (case j of JObj kvs \<Rightarrow> dec_members d zero m kvs | JNull \<Rightarrow> Some [] | _ \<Rightarrow> None)"

definition ProviderConfig_field :: "bytes \<Rightarrow> json \<Rightarrow> ProviderConfig \<Rightarrow> ProviderConfig option" where
  "ProviderConfig_field k v p =
     (if key_is ''url'' k then map_option (\<lambda>x. p\<lparr>URL := x\<rparr>) (dec_string (URL p) v)
      else if key_is ''key_env'' k then map_option (\<lambda>x. p\<lparr>KeyEnv := x\<rparr>) (dec_string (KeyEnv p) v)
      else if key_is ''region'' k then map_option (\<lambda>x. p\<lparr>Region := x\<rparr>) (dec_string (Region p) v)
      else None)"

definition MarketplaceConfig_field :: "bytes \<Rightarrow> json \<Rightarrow> MarketplaceConfig \<Rightarrow> MarketplaceConfig option" where
  "MarketplaceConfig_field k v p =
     (if key_is ''product_code'' k then map_option (\<lambda>x. p\<lparr>ProductCode := x\<rparr>) (dec_string (ProductCode p) v)
      else if key_is ''public_key_version'' k then map_option (\<lambda>x. p\<lparr>PublicKeyVersion := x\<rparr>) (dec_int32 (PublicKeyVersion p) v)
      else None)"

definition dec_marketplace :: "MarketplaceConfig option \<Rightarrow> json \<Rightarrow> MarketplaceConfig option option" where
  "dec_marketplace old j =
     (if j = JNull then Some None
      else map_option Some (dec_struct MarketplaceConfig_field
             (case old of None \<Rightarrow> \<lparr>ProductCode = [], PublicKeyVersion = 0\<rparr> | Some m \<Rightarrow> m) j))"

definition empty_Config :: Config where
  "empty_Config =
     \<lparr>Listen = [], cfg_Tenant = [], DataDir = [], ControlURL = [], ControlTokenEnv = [], LocalTokenEnv = [], TrustedKeys = [],
      Providers = [], Concurrency = 0, Rate = 0, Burst = 0, RetryRate = 0, MaxAttempts = 0, TimeoutSeconds = 0, QueueSize = 0,
      SpoolBytes = 0, OTLPURL = [], OTLPMetricsURL = [], OTLPHeaders = [], Marketplace = None, AllowLocalHTTP = False,
      ProviderCheckStrict = False, EnablePprof = False, IdempotencyTTLSeconds = 0, IdempotencyBytes = 0, PromptCaching = False,
      RateLimitRetryMaxMs = 0, FleetHealth = False, CaptureTTLSeconds = 0, CaptureBytes = 0\<rparr>"

definition Config_field :: "bytes \<Rightarrow> json \<Rightarrow> Config \<Rightarrow> Config option" where
  "Config_field k v c =
     (if key_is ''listen'' k then map_option (\<lambda>x. c\<lparr>Listen := x\<rparr>) (dec_string (Listen c) v)
      else if key_is ''tenant'' k then map_option (\<lambda>x. c\<lparr>cfg_Tenant := x\<rparr>) (dec_string (cfg_Tenant c) v)
      else if key_is ''data_dir'' k then map_option (\<lambda>x. c\<lparr>DataDir := x\<rparr>) (dec_string (DataDir c) v)
      else if key_is ''control_url'' k then map_option (\<lambda>x. c\<lparr>ControlURL := x\<rparr>) (dec_string (ControlURL c) v)
      else if key_is ''control_token_env'' k then map_option (\<lambda>x. c\<lparr>ControlTokenEnv := x\<rparr>) (dec_string (ControlTokenEnv c) v)
      else if key_is ''local_token_env'' k then map_option (\<lambda>x. c\<lparr>LocalTokenEnv := x\<rparr>) (dec_string (LocalTokenEnv c) v)
      else if key_is ''trusted_keys'' k then map_option (\<lambda>x. c\<lparr>TrustedKeys := x\<rparr>) (dec_map dec_string [] (TrustedKeys c) v)
      else if key_is ''providers'' k then
        map_option (\<lambda>x. c\<lparr>Providers := x\<rparr>)
          (dec_map (dec_struct ProviderConfig_field) \<lparr>URL = [], KeyEnv = [], Region = []\<rparr> (Providers c) v)
      else if key_is ''concurrency'' k then map_option (\<lambda>x. c\<lparr>Concurrency := x\<rparr>) (dec_int (Concurrency c) v)
      else if key_is ''rate'' k then map_option (\<lambda>x. c\<lparr>Rate := x\<rparr>) (dec_int (Rate c) v)
      else if key_is ''burst'' k then map_option (\<lambda>x. c\<lparr>Burst := x\<rparr>) (dec_int (Burst c) v)
      else if key_is ''retry_rate'' k then map_option (\<lambda>x. c\<lparr>RetryRate := x\<rparr>) (dec_int (RetryRate c) v)
      else if key_is ''max_attempts'' k then map_option (\<lambda>x. c\<lparr>MaxAttempts := x\<rparr>) (dec_int (MaxAttempts c) v)
      else if key_is ''timeout_seconds'' k then map_option (\<lambda>x. c\<lparr>TimeoutSeconds := x\<rparr>) (dec_int (TimeoutSeconds c) v)
      else if key_is ''queue_size'' k then map_option (\<lambda>x. c\<lparr>QueueSize := x\<rparr>) (dec_int (QueueSize c) v)
      else if key_is ''spool_bytes'' k then map_option (\<lambda>x. c\<lparr>SpoolBytes := x\<rparr>) (dec_int (SpoolBytes c) v)
      else if key_is ''otlp_url'' k then map_option (\<lambda>x. c\<lparr>OTLPURL := x\<rparr>) (dec_string (OTLPURL c) v)
      else if key_is ''otlp_metrics_url'' k then map_option (\<lambda>x. c\<lparr>OTLPMetricsURL := x\<rparr>) (dec_string (OTLPMetricsURL c) v)
      else if key_is ''otlp_headers'' k then map_option (\<lambda>x. c\<lparr>OTLPHeaders := x\<rparr>) (dec_map dec_string [] (OTLPHeaders c) v)
      else if key_is ''marketplace'' k then map_option (\<lambda>x. c\<lparr>Marketplace := x\<rparr>) (dec_marketplace (Marketplace c) v)
      else if key_is ''allow_local_http'' k then map_option (\<lambda>x. c\<lparr>AllowLocalHTTP := x\<rparr>) (dec_bool (AllowLocalHTTP c) v)
      else if key_is ''provider_check_strict'' k then
        map_option (\<lambda>x. c\<lparr>ProviderCheckStrict := x\<rparr>) (dec_bool (ProviderCheckStrict c) v)
      else if key_is ''enable_pprof'' k then map_option (\<lambda>x. c\<lparr>EnablePprof := x\<rparr>) (dec_bool (EnablePprof c) v)
      else if key_is ''idempotency_ttl_seconds'' k then
        map_option (\<lambda>x. c\<lparr>IdempotencyTTLSeconds := x\<rparr>) (dec_int (IdempotencyTTLSeconds c) v)
      else if key_is ''idempotency_bytes'' k then map_option (\<lambda>x. c\<lparr>IdempotencyBytes := x\<rparr>) (dec_int (IdempotencyBytes c) v)
      else if key_is ''prompt_caching'' k then map_option (\<lambda>x. c\<lparr>PromptCaching := x\<rparr>) (dec_bool (PromptCaching c) v)
      else if key_is ''rate_limit_retry_max_ms'' k then
        map_option (\<lambda>x. c\<lparr>RateLimitRetryMaxMs := x\<rparr>) (dec_int (RateLimitRetryMaxMs c) v)
      else if key_is ''fleet_health'' k then map_option (\<lambda>x. c\<lparr>FleetHealth := x\<rparr>) (dec_bool (FleetHealth c) v)
      else if key_is ''capture_ttl_seconds'' k then
        map_option (\<lambda>x. c\<lparr>CaptureTTLSeconds := x\<rparr>) (dec_int (CaptureTTLSeconds c) v)
      else if key_is ''capture_bytes'' k then map_option (\<lambda>x. c\<lparr>CaptureBytes := x\<rparr>) (dec_int (CaptureBytes c) v)
      else None)"

datatype load_error = ConfigUnreadable | ConfigNotJSON | ConfigInvalid config_error

text \<open>\<open>b\<close> is what the file holds, if it could be read.\<close>

definition LoadConfig :: "host \<Rightarrow> bytes option \<Rightarrow> load_error + Config" where
  "LoadConfig h b =
     need ConfigUnreadable b (\<lambda>b.
     need ConfigNotJSON (strictJSON Config_field empty_Config b) (\<lambda>c.
     case Config_Validate h c of Some e \<Rightarrow> Inl (ConfigInvalid e) | None \<Rightarrow> Inr c))"

definition Config_Store :: "Config \<Rightarrow> PolicyStore" where
  "Config_Store c =
     \<lparr>current = None, raw = [], store_Tenant = cfg_Tenant c, store_Path = DataDir c @ ''/policy.json'',
      Keys = map_of (map (\<lambda>(k, v). (k, fst (b64_decode False v))) (TrustedKeys c))\<rparr>"

section \<open>The marketplace\<close>

record usage_input =
  usage_product :: bytes
  usage_key_version :: int
  usage_nonce :: bytes

datatype usage_reply = Registered | CustomerNotEntitled | RegistrationRefused

datatype marketplace_error = NoAWSConfig | NonceUnavailable | ErrNotEntitled | RegistrationFailed

text \<open>Random bytes become an identifier by their hexadecimal digits; \<open>None\<close> where there is no randomness.\<close>

definition randomID :: "bytes \<Rightarrow> bytes" where
  "randomID b = hex_encode b"

definition registrationNonce :: "bytes option \<Rightarrow> bytes option" where
  "registrationNonce b = map_option hex_encode b"

definition RegisterUsage ::
  "bytes option \<Rightarrow> (usage_input \<Rightarrow> usage_reply) \<Rightarrow> MarketplaceConfig option \<Rightarrow> marketplace_error option" where
  "RegisterUsage random api m =
     (case m of
        None \<Rightarrow> None
      | Some m \<Rightarrow>
          (case registrationNonce random of
             None \<Rightarrow> Some NonceUnavailable
           | Some nonce \<Rightarrow>
               (case api \<lparr>usage_product = ProductCode m, usage_key_version = PublicKeyVersion m, usage_nonce = nonce\<rparr> of
                  Registered \<Rightarrow> None
                | CustomerNotEntitled \<Rightarrow> Some ErrNotEntitled
                | RegistrationRefused \<Rightarrow> Some RegistrationFailed)))"

section \<open>Starting to serve\<close>

datatype file_read = Contents bytes | Absent | Unreadable

text \<open>
  What the process finds: the host, the files, how each call ends, and what AWS answers. A directory that
  cannot be made or listed is \<open>None\<close>.
\<close>

record boot_env =
  boot_host :: host
  boot_ed :: ed_verify
  boot_now :: instant
  config_file :: "bytes option"
  datadir_made :: bool
  lockfile_opened :: bool
  lock_taken :: bool
  policy_file :: file_read
  aws_configured :: bool
  nonce_bytes :: "bytes option"
  usage_api :: "usage_input \<Rightarrow> usage_reply"
  bedrock_signer :: "bytes \<Rightarrow> bool"
  spool_at :: "dir option"
  idem_at :: "dir option"
  capture_at :: "dir option"
  instance_bytes :: bytes
  files_at :: files

datatype boot_error =
    InvalidConfiguration load_error | DataDirUnavailable | DataDirNotWritable | DataDirInUse
  | CachedPolicyInvalid policy_error | PolicyCacheUnreadable | NoPolicyPresent | MarketplaceRefused marketplace_error
  | BedrockUnusable | TelemetryFailed | IdemStoreUnavailable | CaptureStoreUnavailable

datatype task = IdemSweepTask | CaptureSweepTask | TelemetryTasks | SyncTask | ProbeTask | ExpiryTask

text \<open>The policy the store starts with: the cached one, verified but for its expiry.\<close>

definition boot_policy :: "boot_env \<Rightarrow> Config \<Rightarrow> boot_error + PolicyStore" where
  "boot_policy b c =
     (case policy_file b of
        Contents p \<Rightarrow>
          (case Restore (boot_ed b) (boot_now b) p (Config_Store c) of
             (Some e, ps) \<Rightarrow> Inl (CachedPolicyInvalid e)
           | (None, ps) \<Rightarrow> Inr ps)
      | Unreadable \<Rightarrow> Inl PolicyCacheUnreadable
      | Absent \<Rightarrow> if ControlURL c = [] then Inl NoPolicyPresent else Inr (Config_Store c))"

definition boot_marketplace :: "boot_env \<Rightarrow> Config \<Rightarrow> marketplace_error option" where
  "boot_marketplace b c =
     (if Marketplace c = None then None
      else if \<not> aws_configured b then Some NoAWSConfig
      else RegisterUsage (nonce_bytes b) (usage_api b) (Marketplace c))"

definition boot_idem :: "boot_env \<Rightarrow> Config \<Rightarrow> boot_error + idemStore option" where
  "boot_idem b c =
     (if IdempotencyTTLSeconds c > 0 then
        need IdemStoreUnavailable (idem_at b) (\<lambda>d.
          Inr (Some (NewIdemStore (boot_now b) d (IdempotencyTTLSeconds c * second) (IdempotencyBytes c))))
      else Inr None)"

definition boot_capture :: "boot_env \<Rightarrow> Config \<Rightarrow> boot_error + captureStore option" where
  "boot_capture b c =
     (if CaptureTTLSeconds c > 0 then
        need CaptureStoreUnavailable (capture_at b) (\<lambda>d.
          Inr (Some (NewCaptureStore (boot_now b) d (CaptureTTLSeconds c * second) (CaptureBytes c))))
      else Inr None)"

definition boot_tasks :: "Config \<Rightarrow> task list" where
  "boot_tasks c =
     (if IdempotencyTTLSeconds c > 0 then [IdemSweepTask] else [])
     @ (if CaptureTTLSeconds c > 0 then [CaptureSweepTask] else [])
     @ [TelemetryTasks] @ (if ControlURL c \<noteq> [] then [SyncTask] else []) @ [ProbeTask, ExpiryTask]"

definition bind_sum :: "'e + 'a \<Rightarrow> ('a \<Rightarrow> 'e + 'b) \<Rightarrow> 'e + 'b" where
  "bind_sum r f = (case r of Inl e \<Rightarrow> Inl e | Inr a \<Rightarrow> f a)"

lemma bind_sum_Inr [simp]: "bind_sum r f = Inr y \<longleftrightarrow> (\<exists>a. r = Inr a \<and> f a = Inr y)"
  by (simp add: bind_sum_def split: sum.split)

lemma bind_sum_simps [simp]: "bind_sum (Inl e) f = Inl e" "bind_sum (Inr a) f = f a"
  by (simp_all add: bind_sum_def)

definition boot_config :: "boot_env \<Rightarrow> boot_error + Config" where
  "boot_config b = (case LoadConfig (boot_host b) (config_file b) of Inl e \<Rightarrow> Inl (InvalidConfiguration e) | Inr c \<Rightarrow> Inr c)"

definition boot :: "boot_env \<Rightarrow> boot_error + Server \<times> task list" where
  "boot b =
     bind_sum (boot_config b) (\<lambda>c.
     refuse (\<not> datadir_made b) DataDirUnavailable
     (refuse (\<not> lockfile_opened b) DataDirNotWritable
     (refuse (\<not> lock_taken b) DataDirInUse
     (bind_sum (boot_policy b c) (\<lambda>p.
     (case boot_marketplace b c of
        Some e \<Rightarrow> Inl (MarketplaceRefused e)
      | None \<Rightarrow>
          refuse (case map_of (Providers c) ''bedrock'' of None \<Rightarrow> False | Some pc \<Rightarrow> \<not> bedrock_signer b (Region pc)) BedrockUnusable
          (need TelemetryFailed (spool_at b) (\<lambda>d.
           case NewTelemetry d (\<lambda>_. 0) of (t, m) \<Rightarrow>
             bind_sum (boot_idem b c) (\<lambda>idem.
             bind_sum (boot_capture b c) (\<lambda>cap.
               Inr (New c p (files_at b) m (Some t) idem cap (randomID (instance_bytes b)) (boot_now b), boot_tasks c)))))))))))"

section \<open>Subcommands\<close>

datatype key_error = SeedUnreadable | SeedNotBase64 | SeedSize nat

text \<open>\<open>derive\<close> is \<open>ed25519.NewKeyFromSeed\<close> with \<open>Public\<close>.\<close>

definition printPublicKey :: "(bytes \<Rightarrow> bytes) \<Rightarrow> bytes option \<Rightarrow> key_error + bytes" where
  "printPublicKey derive input =
     need SeedUnreadable input (\<lambda>raw.
     (case b64_decode False (trim_space (take 4096 raw)) of (seed, ok) \<Rightarrow>
        refuse (\<not> ok) SeedNotBase64
        (refuse (length seed \<noteq> 32) (SeedSize (length seed))
        (Inr (b64_encode (derive seed) @ [CHR 10])))))"

datatype init_error = CannotCreate | CannotChown | CannotChmod

definition init_data_dir :: "bool \<Rightarrow> bool \<Rightarrow> bool \<Rightarrow> init_error option" where
  "init_data_dir made owned permitted =
     (if \<not> made then Some CannotCreate else if \<not> owned then Some CannotChown else if \<not> permitted then Some CannotChmod else None)"

record flags =
  fl_public_key :: bool
  fl_init_dir :: bytes
  fl_healthcheck :: bool

datatype command = PublicKeyCommand | InitCommand | HealthCommand | ServeCommand

definition command_of :: "flags \<Rightarrow> command" where
  "command_of f =
     (if fl_public_key f then PublicKeyCommand else if fl_init_dir f \<noteq> [] then InitCommand
      else if fl_healthcheck f then HealthCommand else ServeCommand)"

text \<open>The exit status; serving, it is what the start leads to. The readiness probe still needs a valid configuration.\<close>

definition main_status ::
  "(bytes \<Rightarrow> bytes) \<Rightarrow> bytes option \<Rightarrow> bool \<times> bool \<times> bool \<Rightarrow> int option \<Rightarrow> boot_env \<Rightarrow> flags \<Rightarrow> int option" where
  "main_status derive stdin init readyz_status b f =
     (case command_of f of
        PublicKeyCommand \<Rightarrow> Some (case printPublicKey derive stdin of Inl e \<Rightarrow> 1 | Inr line \<Rightarrow> 0)
      | InitCommand \<Rightarrow> Some (case init of (made, owned, permitted) \<Rightarrow> if init_data_dir made owned permitted = None then 0 else 1)
      | HealthCommand \<Rightarrow> Some (case boot_config b of Inl e \<Rightarrow> 1 | Inr c \<Rightarrow> Healthcheck readyz_status)
      | ServeCommand \<Rightarrow> (case boot b of Inl e \<Rightarrow> Some 1 | Inr st \<Rightarrow> None))"

text \<open>\<open>fatal\<close>: the message is logged, the writer closed, and the process waits for it before it exits with 1.\<close>

definition fatal_ops :: "bytes \<Rightarrow> log_op list" where
  "fatal_ops msg = [WriteCheck msg, WriteSend msg, CloseSwap, CloseChannel]"

section \<open>The background tasks\<close>

text \<open>
  The loops over a ticker: a round, and further rounds until the context is done. A round of \<open>Sync\<close> fetches the
  policy and then exchanges health reports; the arguments are the clock, the answers and how the file write goes.
\<close>

type_synonym sync_input = "instant \<times> reply \<times> file_script \<times> bytes \<times> instant \<times> reply"

definition sync_round :: "world \<Rightarrow> sync_input \<Rightarrow> Server \<Rightarrow> Server" where
  "sync_round w x s =
     (case x of (now, r, io, tmp, now', r') \<Rightarrow> snd (fleetSyncOnce now' r' (syncOnce w now r io tmp s)))"

definition Sync :: "world \<Rightarrow> sync_input \<Rightarrow> sync_input list \<Rightarrow> Server \<Rightarrow> Server" where
  "Sync w first rounds s = fold (sync_round w) (first # rounds) s"

definition WatchPolicyExpiry :: "instant \<Rightarrow> instant list \<Rightarrow> Server \<Rightarrow> Server" where
  "WatchPolicyExpiry first ticks s = fold samplePolicyExpiry (first # ticks) s"

definition idem_sweeps :: "instant list \<Rightarrow> Server \<Rightarrow> Server" where
  "idem_sweeps ticks s = fold (\<lambda>now s. s\<lparr>Idem := map_option (idem_Sweep now) (Idem s)\<rparr>) ticks s"

definition capture_sweeps :: "instant list \<Rightarrow> Server \<Rightarrow> Server" where
  "capture_sweeps ticks s = fold (\<lambda>now s. s\<lparr>Captures := map_option (capture_Sweep now) (Captures s)\<rparr>) ticks s"

section \<open>Stopping\<close>

text \<open>
  After a signal the server refuses new work, waits for the requests under way or cuts them off after 95 seconds,
  then ends the background context; \<open>main\<close> waits for the telemetry, at most five seconds, and returns.
\<close>

record process =
  accepting :: bool
  in_flight :: nat
  pr_draining :: bool
  pr_closed :: bool
  cut_off :: bool
  background_done :: bool
  telemetry_done :: bool
  exited :: bool

definition process_start :: process where
  "process_start = \<lparr>accepting = True, in_flight = 0, pr_draining = False, pr_closed = False, cut_off = False,
     background_done = False, telemetry_done = False, exited = False\<rparr>"

datatype stop_op = AcceptOp | FinishOp | SignalOp | ShutdownOp | ShutdownDoneOp | CutOffOp | StopOp | TelemetryDoneOp | ExitOp bool

text \<open>\<open>ExitOp late\<close>: the wait for the telemetry was over, or ended because of its limit.\<close>

inductive stop_step :: "stop_op \<Rightarrow> process \<Rightarrow> process \<Rightarrow> bool" where
  accept: "accepting p \<Longrightarrow> stop_step AcceptOp p (p\<lparr>in_flight := in_flight p + 1\<rparr>)"
| finish: "0 < in_flight p \<Longrightarrow> stop_step FinishOp p (p\<lparr>in_flight := in_flight p - 1\<rparr>)"
| signal: "stop_step SignalOp p (p\<lparr>pr_draining := True\<rparr>)"
| shutdown: "pr_draining p \<Longrightarrow> stop_step ShutdownOp p (p\<lparr>accepting := False\<rparr>)"
| shutdown_done: "\<not> accepting p \<Longrightarrow> in_flight p = 0 \<Longrightarrow> stop_step ShutdownDoneOp p (p\<lparr>pr_closed := True\<rparr>)"
| cut: "\<not> accepting p \<Longrightarrow> stop_step CutOffOp p (p\<lparr>pr_closed := True, cut_off := True\<rparr>)"
| stop: "pr_closed p \<Longrightarrow> stop_step StopOp p (p\<lparr>background_done := True\<rparr>)"
| telemetry: "background_done p \<Longrightarrow> stop_step TelemetryDoneOp p (p\<lparr>telemetry_done := True\<rparr>)"
| exit: "background_done p \<Longrightarrow> telemetry_done p \<or> late \<Longrightarrow> stop_step (ExitOp late) p (p\<lparr>exited := True\<rparr>)"

definition stop_ok :: "process \<Rightarrow> bool" where
  "stop_ok p \<longleftrightarrow> (exited p \<longrightarrow> background_done p) \<and> (background_done p \<longrightarrow> pr_closed p) \<and>
     (pr_closed p \<longrightarrow> \<not> accepting p \<and> (cut_off p \<or> in_flight p = 0)) \<and> (\<not> accepting p \<longrightarrow> pr_draining p)"

interpretation stopping: step_invariant stop_step stop_ok "\<lambda>p. p = process_start"
  by unfold_locales (auto simp: process_start_def stop_ok_def elim: stop_step.cases)

section \<open>What a started gateway has\<close>

lemma LoadConfig_valid: "LoadConfig h b = Inr c \<Longrightarrow> Config_Validate h c = None"
  by (auto simp: LoadConfig_def split: option.splits)

lemma b64_loose: "b64_strict v = Some key \<Longrightarrow> b64_decode False v = (key, True)"
  using b64_strict_iff [of v key] b64_roundtrip [of False key] by (simp add: b64_decode_def)

lemma Config_Store_keys:
  assumes "Config_Validate h c = None" "Keys (Config_Store c) k = Some key"
  shows "length key = 32 \<and> (\<exists>v. (k, v) \<in> set (TrustedKeys c) \<and> b64_strict v = Some key)"
proof -
  obtain v where v: "(k, v) \<in> set (TrustedKeys c)" "key = fst (b64_decode False v)"
    using assms(2) by (auto simp: Config_Store_def dest!: map_of_SomeD)
  then obtain key' where "b64_strict v = Some key'" "length key' = 32" using Validate_keys [OF assms(1)] by fastforce
  then show ?thesis using v b64_loose by fastforce
qed

lemma Restore_store: "store_Tenant (snd (Restore vf now t s)) = store_Tenant s" "Keys (snd (Restore vf now t s)) = Keys s"
  by (simp_all add: Restore_def split: sum.split)

lemma boot_policy_ok:
  assumes "boot_policy b c = Inr ps"
  shows "Keys ps = Keys (Config_Store c)" "store_Tenant ps = cfg_Tenant c"
    "current ps = None \<and> ControlURL c \<noteq> [] \<or>
     (\<exists>t p. policy_file b = Contents t \<and> current ps = Some p \<and> verify (boot_ed b) (Config_Store c) t (boot_now b) True = Inr p)"
  using assms
  by (auto simp: boot_policy_def Restore_def Config_Store_def split: file_read.splits if_splits option.splits prod.splits sum.splits)

lemma boot_policy_store: "boot_policy b c = Inr ps \<Longrightarrow> store_ok (boot_ed b) ps"
  using verify_sound [of "boot_ed b" "Config_Store c"]
  by (auto simp: boot_policy_def Restore_def Config_Store_def store_ok_def split: file_read.splits if_splits option.splits prod.splits sum.splits)

lemma boot_policy_none:
  assumes "boot_policy b c = Inr ps"
  shows "current ps = None \<longrightarrow> policy_file b = Absent \<and> ControlURL c \<noteq> []"
  using assms
  by (auto simp: boot_policy_def Restore_def split: file_read.splits if_splits option.splits prod.splits sum.splits)

lemma boot_parts:
  assumes "boot b = Inr (s, tasks)"
  obtains c ps d idem cap where "boot_config b = Inr c" "lock_taken b" "boot_policy b c = Inr ps" "boot_marketplace b c = None"
    "spool_at b = Some d" "boot_idem b c = Inr idem" "boot_capture b c = Inr cap"
    "s = New c ps (files_at b) (snd (NewTelemetry d (\<lambda>_. 0))) (Some (fst (NewTelemetry d (\<lambda>_. 0)))) idem cap
       (randomID (instance_bytes b)) (boot_now b)" "tasks = boot_tasks c"
proof -
  obtain c ps where c: "boot_config b = Inr c" "lock_taken b" "boot_policy b c = Inr ps" "boot_marketplace b c = None"
    using assms by (auto simp: boot_def split: option.splits)
  obtain d where d: "spool_at b = Some d" using assms c by (auto simp: boot_def)
  show thesis using assms c d that [OF c d] by (auto simp: boot_def case_prod_beta)
qed

lemma boot_config_ok: "boot_config b = Inr c \<longleftrightarrow> LoadConfig (boot_host b) (config_file b) = Inr c"
  by (auto simp: boot_config_def split: sum.split)

lemma boot_stores:
  "boot_idem b c = Inr idem \<Longrightarrow> idem \<noteq> None \<longleftrightarrow> IdempotencyTTLSeconds c > 0"
  "boot_capture b c = Inr cap \<Longrightarrow> cap \<noteq> None \<longleftrightarrow> CaptureTTLSeconds c > 0"
  by (auto simp: boot_idem_def boot_capture_def split: if_splits)

lemma boot_tasks_set:
  "IdemSweepTask \<in> set (boot_tasks c) \<longleftrightarrow> IdempotencyTTLSeconds c > 0"
  "CaptureSweepTask \<in> set (boot_tasks c) \<longleftrightarrow> CaptureTTLSeconds c > 0"
  "SyncTask \<in> set (boot_tasks c) \<longleftrightarrow> ControlURL c \<noteq> []"
  by (simp_all add: boot_tasks_def)

text \<open>A metered product serves only after the metering service has said yes to this product and key.\<close>

lemma boot_marketplace_ok:
  assumes "boot_marketplace b c = None" "Marketplace c = Some mp"
  shows "\<exists>n. nonce_bytes b = Some n \<and>
    usage_api b \<lparr>usage_product = ProductCode mp, usage_key_version = PublicKeyVersion mp, usage_nonce = hex_encode n\<rparr> = Registered"
  using assms
  by (auto simp: boot_marketplace_def RegisterUsage_def registrationNonce_def split: if_splits option.splits usage_reply.splits)

section \<open>Unknown and missing keys of the configuration file\<close>

definition config_names :: "bytes list" where
  "config_names = [''listen'', ''tenant'', ''data_dir'', ''control_url'', ''control_token_env'', ''local_token_env'', ''trusted_keys'',
     ''providers'', ''concurrency'', ''rate'', ''burst'', ''retry_rate'', ''max_attempts'', ''timeout_seconds'', ''queue_size'',
     ''spool_bytes'', ''otlp_url'', ''otlp_metrics_url'', ''otlp_headers'', ''marketplace'', ''allow_local_http'',
     ''provider_check_strict'', ''enable_pprof'', ''idempotency_ttl_seconds'', ''idempotency_bytes'', ''prompt_caching'',
     ''rate_limit_retry_max_ms'', ''fleet_health'', ''capture_ttl_seconds'', ''capture_bytes'']"

lemma Config_field_unknown: "list_all (\<lambda>n. \<not> key_is n k) config_names \<Longrightarrow> Config_field k v c = None"
  by (simp add: Config_field_def config_names_def)

lemma dec_fields_refuses:
  assumes "(k, v) \<in> set kvs" "\<And>c. f k v c = None"
  shows "dec_fields f a kvs = None"
  using assms by (induction kvs arbitrary: a) (auto split: option.split)

lemma unknown_key_refused:
  assumes "json_parse b = Some (JObj kvs)" "(k, v) \<in> set kvs" "list_all (\<lambda>n. \<not> key_is n k) config_names"
  shows "LoadConfig h (Some b) = Inl ConfigNotJSON"
  using assms(1) dec_fields_refuses [of k v kvs Config_field, OF assms(2) Config_field_unknown [OF assms(3)]]
  by (simp add: LoadConfig_def strictJSON_def dec_struct_def)

text \<open>What a file does not mention keeps its zero value.\<close>

lemma Config_field_ttls:
  assumes "Config_field k v c = Some c'"
  shows "\<not> key_is ''capture_ttl_seconds'' k \<Longrightarrow> CaptureTTLSeconds c' = CaptureTTLSeconds c"
    "\<not> key_is ''idempotency_ttl_seconds'' k \<Longrightarrow> IdempotencyTTLSeconds c' = IdempotencyTTLSeconds c"
    "\<not> key_is ''enable_pprof'' k \<Longrightarrow> EnablePprof c' = EnablePprof c"
  using assms unfolding Config_field_def by (auto split: if_split_asm)

lemma dec_fields_keeps:
  assumes "dec_fields f a kvs = Some a'" "\<And>k v a a'. (k, v) \<in> set kvs \<Longrightarrow> f k v a = Some a' \<Longrightarrow> g a' = g a"
  shows "g a' = g a"
  using assms
proof (induction kvs arbitrary: a)
  case (Cons kv kvs)
  obtain k v where kv: "kv = (k, v)" by (cases kv)
  with Cons.prems(1) obtain b where b: "f k v a = Some b" "dec_fields f b kvs = Some a'" by (auto split: option.splits)
  then have "g a' = g b" using Cons.IH [OF b(2)] Cons.prems(2) by (meson list.set_intros(2))
  then show ?case using Cons.prems(2) [of k v a b] b(1) kv by simp
qed simp

lemma unmentioned_off:
  assumes "LoadConfig h (Some b) = Inr c" "json_parse b = Some (JObj kvs)"
  shows "list_all (\<lambda>(k, v). \<not> key_is ''capture_ttl_seconds'' k) kvs \<Longrightarrow> CaptureTTLSeconds c = 0"
    "list_all (\<lambda>(k, v). \<not> key_is ''idempotency_ttl_seconds'' k) kvs \<Longrightarrow> IdempotencyTTLSeconds c = 0"
    "list_all (\<lambda>(k, v). \<not> key_is ''enable_pprof'' k) kvs \<Longrightarrow> \<not> EnablePprof c"
proof -
  have d: "dec_fields Config_field empty_Config kvs = Some c"
    using assms by (auto simp: LoadConfig_def strictJSON_def dec_struct_def split: option.splits)
  show "CaptureTTLSeconds c = 0" if "list_all (\<lambda>(k, v). \<not> key_is ''capture_ttl_seconds'' k) kvs"
    using dec_fields_keeps [OF d, of CaptureTTLSeconds] Config_field_ttls(1) that by (fastforce simp: empty_Config_def list_all_iff)
  show "IdempotencyTTLSeconds c = 0" if "list_all (\<lambda>(k, v). \<not> key_is ''idempotency_ttl_seconds'' k) kvs"
    using dec_fields_keeps [OF d, of IdempotencyTTLSeconds] Config_field_ttls(2) that by (fastforce simp: empty_Config_def list_all_iff)
  show "\<not> EnablePprof c" if "list_all (\<lambda>(k, v). \<not> key_is ''enable_pprof'' k) kvs"
    using dec_fields_keeps [OF d, of EnablePprof] Config_field_ttls(3) that by (fastforce simp: empty_Config_def list_all_iff)
qed

lemma loaded_object:
  assumes "LoadConfig h (Some b) = Inr c"
  shows "\<exists>kvs. json_parse b = Some (JObj kvs)"
proof -
  obtain j where j: "json_parse b = Some j" "dec_struct Config_field empty_Config j = Some c" "Config_Validate h c = None"
    using assms by (auto simp: LoadConfig_def strictJSON_def bind_eq_Some_conv split: option.splits)
  have "Config_Validate h empty_Config \<noteq> None"
    unfolding Config_Validate_def first_error_None set_append ball_Un limit_checks_ok
    by (simp add: limits_ok_def empty_Config_def del: not_None_eq)
  then show ?thesis using j by (cases j) (auto simp: dec_struct_def)
qed

section \<open>A printed key can be pinned\<close>

lemma printed_key_pins:
  assumes "printPublicKey derive (Some inp) = Inr line" "\<And>seed. length (derive seed) = 32"
  shows "\<exists>seed. length seed = 32 \<and> b64_strict line = Some (derive seed) \<and>
    b64_decode False (trim_space (take 4096 inp)) = (seed, True)"
proof -
  obtain seed where s: "b64_decode False (trim_space (take 4096 inp)) = (seed, True)" "length seed = 32"
      "line = b64_encode (derive seed) @ [CHR 10]"
    using assms(1) by (auto simp: printPublicKey_def split: prod.splits)
  have "filter (\<lambda>c. c \<noteq> CHR 10 \<and> c \<noteq> CHR 13) line = b64_encode (derive seed)"
    using b64_encode_plain [of "derive seed"] by (simp add: s(3) list_all_iff filter_id_conv)
  then show ?thesis using s b64_strict_iff [of line "derive seed"] by blast
qed

section \<open>A fatal message is written\<close>

lemma fatal_written:
  assumes "log_run as NewAsyncLogWriter w" "\<not> log_closed w" "length (log_queue w) < log_capacity"
  shows "\<exists>bs w'. set bs \<subseteq> {Receive, Output True} \<and> log_run (fatal_ops msg @ bs) w w' \<and> log_drained w' \<and>
    log_out w' = log_out w @ log_pending w @ [msg]"
proof -
  have fl: "\<not> log_chan_closed w" "\<not> log_drained w"
    using log.reached [OF refl assms(1)] assms(2) by (auto simp: log_inv_def log_flags_def)
  let ?w = "w\<lparr>log_calls := log_calls w + 1, log_queue := log_queue w @ [msg], log_sent := log_sent w @ [msg], log_closed := True,
    log_chan_closed := True, log_closing := False\<rparr>"
  have "log_run (fatal_ops msg) w ?w"
    using assms(2,3) fl by (simp add: fatal_ops_def log_step_simps log_ops)
  moreover obtain bs w' where "set bs \<subseteq> {Receive, Output True}" "log_run bs ?w w'" "log_drained w'"
      "log_out w' = log_out ?w @ log_pending ?w"
    using closed_drains [of ?w] fl by auto
  ultimately show ?thesis by (auto simp: steps_append log_pending_def intro!: exI [of _ bs])
qed

section \<open>The loops\<close>

lemma fleetSyncOnce_policies [simp]: "Policies (snd (fleetSyncOnce now r s)) = Policies s"
  by (auto simp: fleetSyncOnce_def drainReports_def Let_def split: reply.split option.split)

lemma Sync_steps: "policy_steps (ed w) (Policies s) (Policies (Sync w first rounds s))"
proof -
  have one: "policy_steps (ed w) (Policies s) (Policies (sync_round w x s))" for x s
    by (simp add: sync_round_def syncOnce_step split: prod.split)
  have "policy_steps (ed w) (Policies s) (Policies (fold (sync_round w) rs s))" for rs s
  proof (induction rs arbitrary: s)
    case (Cons x rs)
    then show ?case using policy_steps_trans [OF Cons one] by simp
  qed (simp add: policy_steps.none)
  then show ?thesis unfolding Sync_def .
qed

end
