(* ===== verification/Loadgen.thy ===== *)
theory Loadgen
  imports Stream
begin

text \<open>
  The load generator (\<open>cmd/loadgen\<close>), a client of the gateway: what one request sends and measures, how the
  results are added up, and the figures and the exit status of a run. A run is the list of results in the order
  in which they were added. Shown: every request is counted once, the percentiles never index outside the
  measured latencies and are ordered, the share of streaming requests is exact, and a stream the gateway frames is
  counted frame by frame.
\<close>

section \<open>One request\<close>

record lg_result =
  lg_status :: int
  lg_latency :: duration
  lg_frames :: nat
  lg_err :: bool

definition lg_body :: "bool \<Rightarrow> int \<Rightarrow> json" where
  "lg_body strm maxTokens =
     JObj [(''max_tokens'', JNum (itoa maxTokens)),
           (''messages'', JArr [JObj [(''content'', JStr ''load''), (''role'', JStr ''user'')]]),
           (''model'', JStr ''preferred''), (''stream'', JBool strm)]"

text \<open>An answer: its status and the bytes of its body, as far as they could be read. \<open>None\<close>: no response at all.\<close>

definition lg_one :: "bool \<Rightarrow> (int \<times> bytes) option \<Rightarrow> duration \<Rightarrow> lg_result" where
  "lg_one strm answer took =
     (case answer of
        None \<Rightarrow> \<lparr>lg_status = 0, lg_latency = took, lg_frames = 0, lg_err = True\<rparr>
      | Some (status, body) \<Rightarrow>
          \<lparr>lg_status = status, lg_latency = took,
           lg_frames = (if strm \<and> status = 200 then length (filter (has_prefix ''data:'') (fst (scan_lines [] body))) else 0),
           lg_err = False\<rparr>)"

definition streams_nth :: "int \<Rightarrow> int \<Rightarrow> bool" where
  "streams_nth streamPct n \<longleftrightarrow> n mod 100 < streamPct"

section \<open>A run\<close>

record lg_stats =
  latencies :: "duration list"
  byStatus :: "int \<Rightarrow> nat"
  transport_errs :: nat
  frames_total :: nat

definition lg_new :: lg_stats where
  "lg_new = \<lparr>latencies = [], byStatus = (\<lambda>_. 0), transport_errs = 0, frames_total = 0\<rparr>"

definition stats_add :: "lg_result \<Rightarrow> lg_stats \<Rightarrow> lg_stats" where
  "stats_add r s =
     (if lg_err r then s\<lparr>transport_errs := transport_errs s + 1\<rparr>
      else s\<lparr>latencies := latencies s @ [lg_latency r], byStatus := (byStatus s)(lg_status r := byStatus s (lg_status r) + 1),
             frames_total := frames_total s + lg_frames r\<rparr>)"

text \<open>\<open>None\<close> where the index is out of range, which would panic.\<close>

definition percentile :: "duration list \<Rightarrow> rat \<Rightarrow> duration option" where
  "percentile ls p =
     (if ls = [] then Some 0
      else let i = nat \<lfloor>f64 (f64 (of_int (int (length ls) - 1)) * p)\<rfloor> in if i < length ls then Some (ls ! i) else None)"

record lg_report =
  lg_total :: nat
  lg_ok :: nat
  lg_failures :: nat
  lg_error_rate :: rat
  lg_percentiles :: "duration option list"

definition lg_summary :: "lg_stats \<Rightarrow> lg_report" where
  "lg_summary s =
     (let sorted_latencies = sort (latencies s);
          total = length (latencies s) + transport_errs s;
          succeeded = byStatus s 200
      in \<lparr>lg_total = total, lg_ok = succeeded, lg_failures = total - succeeded,
          lg_error_rate = f64 (f64 (100 * f64 (of_nat (total - succeeded))) / f64 (of_nat (max total 1))),
          lg_percentiles = map (\<lambda>p. percentile sorted_latencies (f64 p)) [50 / 100, 95 / 100, 99 / 100]\<rparr>)"

definition lg_exit :: "bytes \<Rightarrow> lg_stats \<Rightarrow> int" where
  "lg_exit token s =
     (if token = [] then 2
      else if lg_ok (lg_summary s) = 0 \<and> lg_total (lg_summary s) > 0 then 1 else 0)"

section \<open>Lemmas\<close>

lemma stats_all:
  "let s = fold stats_add rs lg_new in
     length (latencies s) + transport_errs s = length rs \<and>
     latencies s = map lg_latency (filter (\<lambda>r. \<not> lg_err r) rs) \<and>
     byStatus s c = length (filter (\<lambda>r. \<not> lg_err r \<and> lg_status r = c) rs)"
proof (induction rs rule: rev_induct)
  case (snoc r rs)
  obtain s where s: "fold stats_add rs lg_new = s" by blast
  show ?case using snoc unfolding s Let_def by (auto simp: s stats_add_def)
qed (simp add: lg_new_def)

lemma f64_percent:
  assumes "0 \<le> p" "p \<le> 1"
  shows "0 \<le> f64 p" "f64 p \<le> 1"
  using assms f64.int_le_rnd [of 0 p] f64.rnd_le_int [of 1 p] by simp_all

lemma percentile_index:
  assumes "ls \<noteq> []" "0 \<le> p" "p \<le> 1" "length ls \<le> 2 ^ 53"
  shows "nat \<lfloor>f64 (f64 (of_int (int (length ls) - 1)) * p)\<rfloor> < length ls"
proof -
  let ?n = "int (length ls) - 1"
  have n: "0 \<le> ?n" "\<bar>?n\<bar> \<le> 2 ^ 53" using assms by (cases ls; simp)+
  then have exact: "f64 (of_int ?n) = of_int ?n" by (intro f64.rnd_int)
  have "of_int ?n * p \<le> of_int ?n" using n(1) assms(3) mult_left_mono [of p 1 "of_int ?n"] by (simp only: mult_1_right of_int_0_le_iff)
  then have "f64 (of_int ?n * p) \<le> of_int ?n" using n(2) by (intro f64.rnd_le_int)
  then have "\<lfloor>f64 (of_int ?n * p)\<rfloor> \<le> ?n" using floor_mono [of _ "of_int ?n"] by (metis floor_of_int)
  then show ?thesis unfolding exact using n(1) by linarith
qed

lemma percentile_total:
  assumes "ls \<noteq> []" "0 \<le> p" "p \<le> 1" "length ls \<le> 2 ^ 53"
  shows "\<exists>d. percentile ls p = Some d \<and> d \<in> set ls"
  using percentile_index [OF assms] assms(1) by (auto simp: percentile_def Let_def)

lemma percentile_mono:
  assumes "sorted ls" "0 \<le> p" "p \<le> q" "q \<le> 1" "length ls \<le> 2 ^ 53" "percentile ls p = Some a" "percentile ls q = Some b"
  shows "a \<le> b"
proof (cases "ls = []")
  case False
  let ?x = "f64 (of_int (int (length ls) - 1))"
  have "0 \<le> ?x" using False by (intro f64.rnd_nonneg) (cases ls; simp)
  then have "f64 (?x * p) \<le> f64 (?x * q)" using assms(3) by (intro f64_mono mult_left_mono)
  then have "nat \<lfloor>f64 (?x * p)\<rfloor> \<le> nat \<lfloor>f64 (?x * q)\<rfloor>" by (intro nat_mono floor_mono)
  then show ?thesis
    using assms(1,6,7) False percentile_index [OF False, of q] assms by (auto simp: percentile_def Let_def intro!: sorted_nth_mono)
qed (use assms in \<open>auto simp: percentile_def\<close>)

text \<open>Of any hundred requests in a row, exactly the asked share streams.\<close>

lemma stream_share:
  assumes "0 \<le> pct" "pct \<le> 100"
  shows "card {n \<in> {k..<k + 100}. streams_nth pct n} = nat pct"
proof -
  have "bij_betw (\<lambda>n. n mod 100) {n \<in> {k..<k + 100}. streams_nth pct n} {0..<pct}"
  proof (rule bij_betw_byWitness [where f' = "\<lambda>m. k + (m - k) mod 100"])
    show "(\<lambda>n. n mod 100) ` {n \<in> {k..<k + 100}. streams_nth pct n} \<subseteq> {0..<pct}"
      by (auto simp: streams_nth_def)
    show "(\<lambda>m. k + (m - k) mod 100) ` {0..<pct} \<subseteq> {n \<in> {k..<k + 100}. streams_nth pct n}"
      using assms by (auto simp: streams_nth_def mod_add_right_eq)
    show "\<forall>n \<in> {n \<in> {k..<k + 100}. streams_nth pct n}. k + (n mod 100 - k) mod 100 = n"
      by (auto simp: mod_diff_left_eq)
    show "\<forall>m \<in> {0..<pct}. (k + (m - k) mod 100) mod 100 = m"
      using assms by (auto simp: mod_add_right_eq)
  qed
  then have "card {n \<in> {k..<k + 100}. streams_nth pct n} = card {0..<pct}" by (rule bij_betw_same_card)
  then show ?thesis by simp
qed

lemma frames_counted:
  assumes "list_all frame_ok ps"
  shows "lg_frames (lg_one True (Some (200, concat (map sse_frame ps))) took) = length ps"
proof -
  have "scan_lines [] (concat (map sse_frame ps)) = (concat (map (\<lambda>p. [''data: '' @ p, []]) ps), False)"
    using assms by (induction ps) (simp_all add: scan_frame max_line_def)
  moreover have "length (filter (has_prefix ''data:'') (concat (map (\<lambda>p. [''data: '' @ p, []]) ps))) = length ps"
    by (induction ps) (simp_all add: has_prefix_def)
  ultimately show ?thesis by (simp add: lg_one_def)
qed

text \<open>The gateway accepts what is sent.\<close>

lemma lg_plain [simp]: "plain_name ''max_tokens''" "plain_name ''messages''" "plain_name ''stream''" "plain_name ''content''" "plain_name ''role''"
  "plain_name ''temperature''"
  by (simp_all add: plain_name_def is_upper_def)

lemma lg_accepted:
  assumes "1 \<le> n" "n \<le> 16384"
  shows "\<exists>c. ParseChat (json_print (lg_body strm n)) = Inr c \<and> MaxTokens c = n \<and> Stream c = strm"
proof -
  have ok: "json_ok (lg_body strm n)" by (simp add: lg_body_def valid_itoa)
  have "json_depth (lg_body strm n) \<le> max_nesting" by (simp add: lg_body_def max_nesting_def)
  with ok have p: "json_parse (json_print (lg_body strm n)) = Some (lg_body strm n)" by (rule json_parse_print)
  have i: "int64_ok n" using assms by (simp add: int64_ok_def min_int64_def max_int64_def)
  have d: "strictJSON Chat_field empty_Chat (json_print (lg_body strm n)) =
      Some \<lparr>chat_Model = ''preferred'', Messages = [\<lparr>Role = ''user'', Content = ''load''\<rparr>], Stream = strm, MaxTokens = n,
        Temperature = None, CacheSystem = False\<rparr>"
    unfolding strictJSON_def p
    by (simp add: lg_body_def dec_struct_def Chat_field_def Message_field_def key_is_plain dec_int_itoa [OF i] dec_bool_def dec_slice_def
        empty_Chat_def)
  show ?thesis using assms by (simp add: ParseChat_def d)
qed

section \<open>The report\<close>

lemma percent_bounds:
  assumes "n \<le> t" "t \<le> 2 ^ 46"
  shows "0 \<le> f64 (f64 (100 * f64 (of_nat n)) / f64 (of_nat (max t 1)))" "f64 (f64 (100 * f64 (of_nat n)) / f64 (of_nat (max t 1))) \<le> 100"
proof -
  have small: "int (max t 1) \<le> 2 ^ 53" "int n \<le> 2 ^ 53" "100 * int n \<le> 2 ^ 53" using assms by auto
  have e: "f64 (of_nat n) = of_nat n" "f64 (of_nat (max t 1)) = of_nat (max t 1)" "f64 (100 * of_nat n) = 100 * of_nat n"
    using f64.rnd_int [of "int n"] f64.rnd_int [of "int (max t 1)"] f64.rnd_int [of "100 * int n"] small by simp_all
  have q: "0 \<le> (100 * of_nat n / of_nat (max t 1) :: rat)" by simp
  have "(of_nat n :: rat) \<le> of_nat (max t 1)" using assms(1) by simp
  then have "(100 * of_nat n / of_nat (max t 1) :: rat) \<le> 100" by (simp add: divide_le_eq)
  with q show "0 \<le> f64 (f64 (100 * f64 (of_nat n)) / f64 (of_nat (max t 1)))"
      "f64 (f64 (100 * f64 (of_nat n)) / f64 (of_nat (max t 1))) \<le> 100"
    unfolding e using f64.rnd_nonneg f64.rnd_le_int [of 100] by simp_all
qed

lemma percentiles_ordered:
  assumes "sorted ls" "length ls \<le> 2 ^ 46"
  shows "\<exists>a b c. map (\<lambda>p. percentile ls (f64 p)) [50 / 100, 95 / 100, 99 / 100] = [Some a, Some b, Some c] \<and> a \<le> b \<and> b \<le> c \<and>
    (ls \<noteq> [] \<longrightarrow> {a, b, c} \<subseteq> set ls)"
proof -
  have len: "length ls \<le> 2 ^ 53" using assms(2) by simp
  have r: "0 \<le> f64 (50 / 100)" "f64 (50 / 100) \<le> f64 (95 / 100)" "f64 (95 / 100) \<le> f64 (99 / 100)" "f64 (99 / 100) \<le> 1"
    using f64_percent [of "50 / 100"] f64_percent [of "99 / 100"] f64_mono [of "50 / 100" "95 / 100"] f64_mono [of "95 / 100" "99 / 100"] by simp_all
  have ex: "\<exists>d. percentile ls p = Some d \<and> (ls \<noteq> [] \<longrightarrow> d \<in> set ls)" if "0 \<le> p" "p \<le> 1" for p
    using percentile_total [of ls p] that len by (cases "ls = []") (auto simp: percentile_def)
  obtain a b c where "percentile ls (f64 (50 / 100)) = Some a" "percentile ls (f64 (95 / 100)) = Some b" "percentile ls (f64 (99 / 100)) = Some c"
      "ls \<noteq> [] \<longrightarrow> {a, b, c} \<subseteq> set ls"
    using ex [of "f64 (50 / 100)"] ex [of "f64 (95 / 100)"] ex [of "f64 (99 / 100)"] r by auto
  moreover from this have "a \<le> b" "b \<le> c"
    using percentile_mono [OF assms(1) r(1,2) _ len, of a b] percentile_mono [OF assms(1) _ r(3,4) len, of b c] r by auto
  ultimately show ?thesis by simp
qed

lemma report_ok:
  assumes "length rs \<le> 2 ^ 46"
  shows "let rep = lg_summary (fold stats_add rs lg_new) in
    lg_total rep = length rs \<and> lg_ok rep = length (filter (\<lambda>r. \<not> lg_err r \<and> lg_status r = 200) rs) \<and>
    lg_ok rep + lg_failures rep = length rs \<and> 0 \<le> lg_error_rate rep \<and> lg_error_rate rep \<le> 100 \<and>
    (\<exists>a b c. lg_percentiles rep = [Some a, Some b, Some c] \<and> a \<le> b \<and> b \<le> c \<and>
      (filter (\<lambda>r. \<not> lg_err r) rs \<noteq> [] \<longrightarrow> {a, b, c} \<subseteq> lg_latency ` {r \<in> set rs. \<not> lg_err r}))"
proof -
  let ?s = "fold stats_add rs lg_new"
  have s: "length (latencies ?s) + transport_errs ?s = length rs" "latencies ?s = map lg_latency (filter (\<lambda>r. \<not> lg_err r) rs)"
      "byStatus ?s 200 = length (filter (\<lambda>r. \<not> lg_err r \<and> lg_status r = 200) rs)"
    using stats_all [of rs 200] unfolding Let_def by blast+
  have le: "byStatus ?s 200 \<le> length rs" by (simp add: s(3))
  have "length (latencies ?s) \<le> 2 ^ 46" using s(1) assms by linarith
  then have p: "\<exists>a b c. lg_percentiles (lg_summary ?s) = [Some a, Some b, Some c] \<and> a \<le> b \<and> b \<le> c \<and>
      (latencies ?s \<noteq> [] \<longrightarrow> {a, b, c} \<subseteq> set (latencies ?s))"
    using percentiles_ordered [of "sort (latencies ?s)"] by (simp add: lg_summary_def Let_def) (metis set_empty set_sort)
  have e: "0 \<le> lg_error_rate (lg_summary ?s)" "lg_error_rate (lg_summary ?s) \<le> 100"
    unfolding lg_summary_def Let_def lg_report.simps s(1)
    using percent_bounds [of "length rs - byStatus ?s 200" "length rs"] assms by simp_all
  have "lg_total (lg_summary ?s) = length rs \<and> lg_ok (lg_summary ?s) = byStatus ?s 200 \<and> lg_failures (lg_summary ?s) = length rs - byStatus ?s 200"
    by (simp add: lg_summary_def Let_def s(1))
  with p e le show ?thesis by (simp add: Let_def s(2,3))
qed

end
