(* ===== verification/Bedrock.thy ===== *)
theory Bedrock
  imports Normalize
begin

text \<open>
  A second reader of Bedrock streams in \<open>bedrock.go\<close>, \<open>decodeBedrockStream\<close>, which assembles the whole answer
  instead of translating it frame by frame. Nothing calls it. Shown: where both readers accept a stream they agree
  on its text; and, unlike the translation, this one accepts a stream that opens a tool block.
\<close>

datatype decode_error = MalformedStream | MalformedPayload | UnknownStopReason | OverLimit | NoStopReason

fun decode_run :: "int64 \<Rightarrow> bytes \<Rightarrow> normalized \<Rightarrow> es_item list \<Rightarrow> decode_error + normalized" where
  "decode_run limit acc n [] = (if n_Finish n = [] then Inl NoStopReason else Inr (n\<lparr>Text := acc\<rparr>))"
| "decode_run limit acc n (EsError # items) = Inl MalformedStream"
| "decode_run limit acc n (EsMessage kind payload # items) =
     (case (if payload = [] then Some empty_bedrockWire else bedrock_unmarshal payload) of
        None \<Rightarrow> Inl MalformedPayload
      | Some w \<Rightarrow>
          (let acc = (if kind = ''contentBlockDelta'' then acc @ bw_Delta w else acc);
               stopped = (if kind = ''messageStop'' then bedrockFinish (bw_StopReason w) else Some (n_Finish n))
           in case stopped of
                None \<Rightarrow> Inl UnknownStopReason
              | Some f \<Rightarrow>
                  (let n = n\<lparr>n_Finish := f\<rparr>;
                       n = (if kind = ''metadata'' then n\<lparr>n_Input := bw_Input w, n_Output := bw_Output w\<rparr> else n)
                   in if int (length acc) > limit then Inl OverLimit else decode_run limit acc n items)))"

definition decodeBedrockStream :: "int64 \<Rightarrow> es_item list \<Rightarrow> decode_error + normalized" where
  "decodeBedrockStream limit items = decode_run limit [] empty_normalized items"

section \<open>The two readers agree on the text\<close>

definition es_wire :: "bytes \<Rightarrow> bedrockWire option" where
  "es_wire payload = (if payload = [] then Some empty_bedrockWire else bedrock_unmarshal payload)"

text \<open>The pieces of text of a stream, in order.\<close>

fun deltas :: "es_item list \<Rightarrow> bytes list" where
  "deltas [] = []"
| "deltas (EsError # items) = []"
| "deltas (EsMessage kind payload # items) =
     (case es_wire payload of
        Some w \<Rightarrow> if kind = ''contentBlockDelta'' \<and> bw_Delta w \<noteq> [] then bw_Delta w # deltas items else deltas items
      | None \<Rightarrow> [])"

definition delta_frame :: "bytes \<Rightarrow> bytes" where
  "delta_frame t = sse_frame (json_print (JObj [(''delta'', JObj [(''text'', JStr t)])]))"

lemma translate_deltas:
  "snd (translate_run limit stop usage sent items) \<Longrightarrow>
   \<exists>final. fst (translate_run limit stop usage sent items) = concat (map delta_frame (deltas items)) @ sse_frame final"
proof (induction limit stop usage sent items rule: translate_run.induct)
  case (3 limit stop usage sent kind payload items)
  obtain w where w: "(if payload = [] then Some empty_bedrockWire else bedrock_unmarshal payload) = Some w"
    using 3(7) by (auto split: option.splits)
  note IH = 3(1-6) [OF w]
  consider "kind = ''contentBlockStart''" | "kind = ''contentBlockDelta''" | "kind = ''messageStop''" | "kind = ''metadata''"
    | "kind \<notin> {''contentBlockStart'', ''contentBlockDelta'', ''messageStop'', ''metadata''}" by blast
  then show ?case
    using 3(7) IH by cases (auto simp: w es_wire_def delta_frame_def Let_def case_prod_beta split: if_splits)
qed (auto split: if_splits)

lemma decode_deltas: "decode_run limit acc n items = Inr n' \<Longrightarrow> Text n' = acc @ concat (deltas items)"
proof (induction limit acc n items rule: decode_run.induct)
  case (3 limit acc n kind payload items)
  obtain w where w: "es_wire payload = Some w" using 3(2) by (auto simp: es_wire_def split: option.splits)
  then show ?case using 3 by (auto simp: es_wire_def Let_def split: option.splits if_splits)
qed (auto split: if_splits)

text \<open>A stream whose only block is a tool's.\<close>

definition tool_start :: bytes where
  "tool_start = json_print (JObj [(''start'', JObj [(''toolUse'', JObj [(''name'', JStr ''f'')])])])"

definition tool_stop :: bytes where
  "tool_stop = json_print (JObj [(''stopReason'', JStr ''end_turn'')])"

definition tool_stream :: "es_item list" where
  "tool_stream = [EsMessage ''contentBlockStart'' tool_start, EsMessage ''messageStop'' tool_stop]"

lemma tool_block_readers:
  "\<not> snd (translateBedrockStream 1000 tool_stream)"
  "decodeBedrockStream 1000 tool_stream = Inr (empty_normalized\<lparr>n_Finish := ''stop''\<rparr>)"
  by code_simp+

end
