(* ===== verification/Process_Samples.thy ===== *)
theory Process_Samples
  imports Samples Startup Loadgen Bedrock
begin

text \<open>
  Concrete values for the parts around the request handler: a configuration file and a start that reads it, an event
  and its way through the pipeline, and what the load generator saw.
\<close>

section \<open>A start\<close>

definition sample_document :: json where
  "sample_document = JObj
     [(''listen'', JStr ''127.0.0.1:8080''), (''tenant'', JStr ''acme''), (''data_dir'', JStr ''/data''),
      (''control_url'', JStr ''https://control.test''), (''control_token_env'', JStr ''CT''), (''local_token_env'', JStr ''LT''),
      (''trusted_keys'', JObj [(''k1'', JStr (b64_encode (replicate 32 CHR ''x'')))]),
      (''providers'', JObj
         [(''openai'', JObj [(''url'', JStr ''https://api.openai.com''), (''key_env'', JStr ''OK'')]),
          (''anthropic'', JObj [(''url'', JStr ''https://api.anthropic.com''), (''key_env'', JStr ''AK'')])]),
      (''concurrency'', JNum (itoa 8)), (''rate'', JNum (itoa 100)), (''burst'', JNum (itoa 20)), (''retry_rate'', JNum (itoa 10)),
      (''max_attempts'', JNum (itoa 3)), (''timeout_seconds'', JNum (itoa 30)), (''queue_size'', JNum (itoa 64)),
      (''spool_bytes'', JNum (itoa 1048576)), (''idempotency_ttl_seconds'', JNum (itoa 3600)), (''idempotency_bytes'', JNum (itoa 1048576)),
      (''prompt_caching'', JBool True), (''fleet_health'', JBool True), (''capture_ttl_seconds'', JNum (itoa 3600)),
      (''capture_bytes'', JNum (itoa 1048576))]"

lemma sample_document_parses: "json_parse (json_print sample_document) = Some sample_document"
proof (rule json_parse_print)
  show "json_ok sample_document"
    by (simp add: sample_document_def valid_itoa b64_encode_ascii ascii_utf8_valid)
  show "json_depth sample_document \<le> max_nesting" by (simp add: sample_document_def max_nesting_def)
qed

lemma config_names_plain: "list_all plain_name config_names" "plain_name ''url''" "plain_name ''key_env''"
  by code_simp+

lemmas plain_config = config_names_plain [unfolded config_names_def, simplified]

lemma sample_document_decodes: "dec_struct Config_field empty_Config sample_document = Some sample_config"
  by (simp add: sample_document_def dec_struct_def Config_field_def ProviderConfig_field_def key_is_plain plain_config dec_int_itoa
     int64_ok_def min_int64_def max_int64_def dec_bool_def dec_map_def empty_Config_def sample_config_def)

lemma sample_loads: "LoadConfig (os sample_world) (Some (json_print sample_document)) = Inr sample_config"
  by (simp add: LoadConfig_def strictJSON_def sample_document_parses sample_document_decodes sample_config_valid)


definition sample_boot :: boot_env where
  "sample_boot =
     \<lparr>boot_host = os sample_world, boot_ed = (\<lambda>key msg sig. length sig = 64), boot_now = 20 * second,
      config_file = Some (json_print sample_document), datadir_made = True, lockfile_opened = True, lock_taken = True,
      policy_file = Contents sample_envelope, aws_configured = False, nonce_bytes = None,
      usage_api = (\<lambda>u. RegistrationRefused), bedrock_signer = (\<lambda>r. False), spool_at = Some [], idem_at = Some [],
      capture_at = Some [], instance_bytes = ''i'', files_at = (\<lambda>_. None)\<rparr>"

lemma sample_restored: "verify (\<lambda>key msg sig. length sig = 64) (Config_Store sample_config) sample_envelope (20 * second) True = Inr sample_policy"
  unfolding sample_envelope_def
  by (rule verify_complete [where key = "replicate 32 CHR ''x''"])
    (use sample_policy_good sample_names sample_envelope_short b64_loose [OF b64_strict_encode] in
      \<open>simp_all add: Config_Store_def sample_config_def unix_def second_def sample_policy_def
       int64_ok_def min_int64_def max_int64_def sample_envelope_def\<close>)

lemma sample_boots:
  obtains s tasks where "boot sample_boot = Inr (s, tasks)" "C s = sample_config" "current (Policies s) = Some sample_policy"
proof -
  have "boot_config sample_boot = Inr sample_config" by (simp add: boot_config_def sample_boot_def sample_loads)
  moreover have "boot_policy sample_boot sample_config = Inr (Config_Store sample_config\<lparr>current := Some sample_policy, raw := sample_envelope\<rparr>)"
    by (simp add: boot_policy_def Restore_def sample_boot_def sample_restored)
  moreover have "boot_marketplace sample_boot sample_config = None" "map_of (Providers sample_config) ''bedrock'' = None"
    by (simp_all add: boot_marketplace_def sample_config_def)
  moreover obtain i j where "boot_idem sample_boot sample_config = Inr i" "boot_capture sample_boot sample_config = Inr j"
    by (simp add: boot_idem_def boot_capture_def sample_config_def sample_boot_def)
  moreover have "datadir_made sample_boot" "lockfile_opened sample_boot" "lock_taken sample_boot" "spool_at sample_boot = Some []"
    by (simp_all add: sample_boot_def)
  ultimately show thesis
    using that by (simp add: boot_def New_def case_prod_beta)
qed

section \<open>An event on its way\<close>

definition sample_event :: Event where
  "sample_event = empty_Event\<lparr>ID := ''00000000000000000000000000000001'', ev_Provider := ''openai'', ev_Status := 200, ev_Attempts := 1\<rparr>"

lemma sample_event_ok: "event_ok sample_event"
  by (simp add: event_ok_def event_json_def Event_wire_def Let_def sample_event_def empty_Event_def no_usage_def usage_attrs_def
      set_if_def opt_field_def valid_itoa ascii_utf8_valid ascii_def max_nesting_def int64_ok_def min_int64_def max_int64_def)

definition sample_sink :: Config where
  "sample_sink = sample_config\<lparr>OTLPURL := ''https://otlp.test''\<rparr>"

inductive_simps pipe_step_simps:
  "pipe_step getenv c replies (EmitOp e) s s'" "pipe_step getenv c replies CancelOp s s'" "pipe_step getenv c replies DrainOp s s'"

text \<open>An event is emitted, and the process is told to stop.\<close>

lemma sample_history:
  obtains s where "steps (pipe_step (\<lambda>_. []) sample_sink (\<lambda>_. Unreached)) [EmitOp sample_event, CancelOp, DrainOp]
      (Telemetry_Start (NewTelemetry [] (\<lambda>_. 0))) s"
    "emitted s = [sample_event]" "worker_state s = Emptying" "hand s = None" "otlp_taken s = [sample_event]"
  by (simp add: pipe_step_simps emit_op_def Telemetry_Start_def NewTelemetry_def ReadDir_def Emit_def Let_def sample_sink_def sample_config_def)

section \<open>Requests, keys, observations and records\<close>

definition sample_request :: "bytes \<Rightarrow> bytes \<Rightarrow> chat_env \<Rightarrow> http_request" where
  "sample_request method path env =
     \<lparr>rq_method = method, rq_path = path, rq_clock = (\<lambda>_. 20 * second),
      rq_stats = \<lparr>NumGoroutine = 1, ms_HeapAlloc = 2, ms_HeapObjects = 3, ms_HeapSys = 4\<rparr>, rq_chat = env\<rparr>"

lemma route_chat: "mux_route (mux_patterns c) ''POST'' ''/v1/chat/completions'' = To ChatRoute"
  by (simp add: mux_route_def mux_patterns_def method_matches_def pprof_routes_def Let_def)

lemma sample_key_printed:
  "\<exists>line. printPublicKey (\<lambda>seed. take 32 (seed @ replicate 32 CHR ''0'')) (Some (b64_encode (replicate 32 CHR ''s'') @ [CHR 10])) = Inr line"
proof -
  have "b64_decode False (trim_space (b64_encode (replicate 32 CHR ''s'') @ [CHR 10])) = (replicate 32 CHR ''s'', True)"
    by code_simp
  moreover have "take 4096 (b64_encode (replicate 32 CHR ''s'') @ [CHR 10]) = b64_encode (replicate 32 CHR ''s'') @ [CHR 10]"
    using b64_length [of "replicate 32 CHR ''s''"] by simp
  ultimately show ?thesis by (simp add: printPublicKey_def)
qed

lemma sample_observed: "\<exists>k r. Mapping.lookup (observed [(''openai'', ''gpt'', 200, 30, no_usage)]) k = Some r"
  by (intro exI [of _ "\<lparr>rk_provider = ''openai'', rk_model = ''gpt'', errorType = []\<rparr>"])
    (simp add: observed_def ObserveRoute_def routeTable_get_def Let_def lookup_update' lookup_empty routeMaxKeys_def no_usage_def)

lemma sample_captured:
  obtains s' m' j where "capture_Write Wrote 0 sample_record (NewCaptureStore 0 [] (3600 * second) 1048576, \<lambda>_. 0) = (None, s', m')"
    "record_ok sample_record" "capture_json (capture_prompt sample_record) = Some j" "json_ok j" "json_depth j \<le> max_nesting"
proof -
  have j: "capture_json (capture_prompt sample_record) = Some (capture_doc sample_record [])"
    by (simp add: capture_json_def capture_prompt_def sample_record_def)
  have len: "length (json_print (capture_doc sample_record [])) \<le> 1000" by code_simp
  have rq: "requestID (RequestID sample_record)" by code_simp
  have ok: "json_ok (capture_doc sample_record [])" by code_simp
  have depth: "json_depth (capture_doc sample_record []) \<le> max_nesting"
    by (simp add: capture_doc_def sample_record_def opt_field_def max_nesting_def)
  have "record_ok sample_record" by (simp add: record_ok_def sample_record_def int64_ok_def min_int64_def max_int64_def)
  moreover have "\<exists>s' m'. capture_Write Wrote 0 sample_record (NewCaptureStore 0 [] (3600 * second) 1048576, \<lambda>_. 0) = (None, s', m')"
    using j len rq by (simp add: capture_Write_def NewCaptureStore_def recover_def ReadDir_def WriteFile_def captureRecordLimit_def captureMaxRecords_def Let_def)
  ultimately show thesis using that j ok depth by blast
qed

end
