(* ===== verification/Spec2Isabelle.thy ===== *)
theory Spec2Isabelle
  imports Process_Samples
begin

text \<open>
  Switchboard is a gateway that runs beside an application, takes its chat requests on the loopback
  interface, and sends each to one of a few model providers along the routes of a policy that a
  control plane signs. This development models the gateway, the Go package under \<open>internal/gateway\<close> with the
  programs \<open>cmd/gateway\<close> and \<open>cmd/loadgen\<close> around it, and proves what its components promise. Names follow the source; where a Go name
  clashes with another it carries its type or file first (\<open>circuit_allow\<close>, \<open>idem_begin\<close>).

  \<^bold>\<open>The parts and how they meet.\<close> A request enters \<open>Server.chat\<close> (\<open>server.go\<close>). It is authorised, admitted
  by a token bucket and a number of slots, parsed (\<open>adapter.go\<close>), and, when it carries a key, checked
  against the idempotency store (\<open>idempotency.go\<close>). The handler takes the current policy (\<open>policy.go\<close>),
  decides which routes to pass over from the learned token budgets (\<open>budget.go\<close>) and the hints of the
  fleet (\<open>fleet.go\<close>), and tries routes in order: each is guarded by a circuit breaker, the request is
  written for the provider and its answer normalised (\<open>adapter.go\<close>, \<open>bedrock.go\<close>), a refusal is classified
  (\<open>fault.go\<close>), and a stream is relayed chunk by chunk. When the request is over the handler counts it,
  hands an event to telemetry (\<open>telemetry.go\<close>) and a record to the capture store (\<open>capture.go\<close>). Beside
  the requests, the gateway fetches policies, exchanges health reports, probes providers, sweeps its
  stores, delivers spooled events and exports spans and metrics. \<open>main\<close> reads the configuration, restores the
  cached policy, registers with the marketplace, builds the stores and the server, starts these tasks, and stops them in
  order after a signal; its log lines pass through a writer of their own (\<open>logging.go\<close>).

  \<^bold>\<open>Theories.\<close>
  \<^item> \<open>Gateway_Prelude\<close>: Go's integers, times, strings and byte strings; named collections of facts.
    \<open>Go_Float\<close>: binary64 rounding. \<open>Json\<close>: \<open>encoding/json\<close>, printing and decoding, with the round trip.
    \<open>Encoding\<close>: base64, hexadecimal, and the regular expressions of the package. \<open>Disk\<close>: directories, file
    writes that fail, and the sweep that two stores share (locale \<open>swept_store\<close>).
  \<^item> \<open>Circuit\<close>: \<open>bucket\<close>, \<open>circuit\<close>, \<open>retryAfter\<close>. The locale \<open>gate\<close> is the contract of a breaker; it is
    interpreted on the code's bit window and on the reference that keeps every result, and a simulation
    relates the two.
  \<^item> \<open>Config\<close>, \<open>Policy\<close>, \<open>Fault\<close>: \<open>Config.Validate\<close>; verification and storing of policies, with the atomic file
    write; the classification of refusals.
  \<^item> \<open>Learned\<close>: the three tables learned from traffic, instances of the locale \<open>learned\<close>, and the fleet hints.
  \<^item> \<open>Idempotency\<close>, \<open>Capture\<close>: the two file stores. The locale \<open>claims\<close> is what the handler relies on from the
    first: a key has one holder.
  \<^item> \<open>Metrics\<close>, \<open>Telemetry\<close>: counters, per-route histograms, events, the spool and its delivery.
  \<^item> \<open>Chat\<close>, \<open>Normalize\<close>, \<open>Stream\<close>: requests to providers, their answers, and the relay of a stream.
  \<^item> \<open>Server\<close>: the server's record and the operations around the handler. \<open>Upkeep\<close>: what they guarantee.
  \<^item> \<open>Handler\<close>: one turn of the routing loop, in stages in the order of the code. \<open>Requests\<close>: the loop, with
    its termination, and the whole of \<open>chat\<close>. \<open>Handler_Turns\<close>, \<open>Handler_Frame\<close> and \<open>Guarantees\<close> hold the rules
    that carry a property through the stages (locale \<open>server_inv\<close> for what a request leaves unchanged).
  \<^item> \<open>Steps\<close>: histories of a step relation, and the locale \<open>step_invariant\<close> of what every step keeps; it is
    interpreted on the log writer, the event pipeline (three times) and the shutdown.
  \<^item> \<open>Log_Writer\<close>: \<open>AsyncLogWriter\<close>. \<open>Export\<close>: the runtime gauges, the text of \<open>/metrics\<close>, the OTLP documents of
    metrics and spans, and the requests that carry them. \<open>Pipeline\<close>: the goroutines of \<open>Telemetry.Start\<close>.
  \<^item> \<open>Http\<close>: \<open>Server.Handler\<close>, the routes and what each answers, and \<open>Healthcheck\<close>. \<open>Startup\<close>: \<open>LoadConfig\<close>,
    \<open>Config.Store\<close>, \<open>RegisterUsage\<close>, and \<open>main\<close>: the start with every fatal branch, the subcommands, the loops over
    tickers, and the shutdown. \<open>Bedrock\<close>: \<open>decodeBedrockStream\<close>. \<open>Loadgen\<close>: the load generator.
  \<^item> \<open>Samples\<close>, \<open>Process_Samples\<close>: a concrete gateway, and a concrete start, event, request and record, at which
    the properties are instantiated.

  \<^bold>\<open>State and concurrency.\<close> The server is one record. A request is a function of the state it finds and of an
  environment \<open>chat_env\<close>: the header fields and the body, the clock readings, the fresh identifiers, and for every
  turn of the loop what the provider answers, whether a wait is cut short, how a file write ends, and two
  functions on the server, \<open>turn_others\<close> and \<open>answer_others\<close>, which stand for whatever other goroutines do before
  a turn and while an answer is awaited. A property that needs something of them says so (\<open>config_fixed\<close>,
  \<open>probes_safe\<close>, \<open>store_fixed\<close>, \<open>undisturbed\<close>). Operations of a store run under its mutex, so a history of
  one is a sequence of calls; the sweep, which is not, is split at the point where it lets go.
  Where several goroutines share a channel, each of their moves is a rule of a step relation, and a history is any
  sequence of moves: \<open>log_step\<close> (a check of the flag and a send are two moves, so are the halves of \<open>Close\<close>),
  \<open>pipe_step\<close> (emitting, taking an event, writing it, one file of a delivery pass, gathering and sending spans,
  pushing metrics, stopping) and \<open>stop_step\<close>. Some fields of their states only record the past, such as the events ever emitted; no rule
  looks at them but for the freshness of an identifier.

  \<^bold>\<open>Outside.\<close> SHA-256, Ed25519, URL parsing, date parsing, request signing, environment variables, the free space
  of a volume, the decoder of AWS event streams, the metering service and the profiler are parameters. The theorems hold for every choice of them.

  \<^bold>\<open>Bounds and termination.\<close> There is no fuel. Every function is total; the routing loop terminates by the number
  of routes that were not repeated yet, and C5 says that twice the number of routes is enough turns. Machine
  integers are \<open>int\<close> with the wrap-around written out where a product or sum can leave 64 bits; the breaker's
  window is a 32-bit word. Counters, which would take centuries to overflow, are unbounded.

  \<^bold>\<open>What is shown.\<close> C1 to C8: what a request does, whatever happens to it: one response, bounded attempts, probes
  and slots given back, a route that can be tried is tried, and a key protects against a second generation.
  C9 and C10: streams. C11 to C13: breakers and limits. C14 to C19: policies, with the whole sync loop in C17. C20 to C26:
  events are accounted for in every interleaving and at shutdown, spans keep their order, the two expositions of the
  metrics agree, log records are accounted for. C27 to C30: the stores. C31 to C37: what holds of a gateway that has
  started, what is reachable without the token, what the readiness probe means, and configuration, keys and fatal messages.
  C38 to C40: learned token budgets, accepted requests, the load report. Further facts of the components follow.
  C10, C12, C24, C26 and C28 show defects: an empty Gemini or Bedrock stream does not fail over, a large
  Retry-After overflows, a batch of events can be too large to ever be delivered, a log write during \<open>Close\<close> can panic, and
  a sweep can remove a live claim. Two more facts of this kind are \<open>Export.folded_unseen\<close>, a counter that is never
  exported, and \<open>Bedrock.tool_block_readers\<close>.

  \<^bold>\<open>Not modelled.\<close> The system call for the free space of a volume, the AWS signer, and the listener with its
  time limits. Failures of removals during a sweep or a recovery are left out; so are log lines as text, the layout of
  the load report, and the real time between two rounds of a ticker. One send of a batch of events to the control plane is one move.
\<close>

section \<open>The request handler\<close>


text \<open>
  C2. A request makes at most \<open>max_attempts\<close> attempts, so at most three under a validated configuration,
  and each attempt gives the HTTP client at most two requests (the second only to drop a refused temperature).
\<close>

theorem chat_attempts_bounded:
  assumes "config_fixed env" "limits_ok (C s)"
  shows "ev_Attempts (event (chat env s)) \<le> MaxAttempts (C s) \<and> ev_Attempts (event (chat env s)) \<le> 3 \<and>
    int (length (sent_log (chat env s))) \<le> 2 * ev_Attempts (event (chat env s))"
  using chat_within [OF assms(1), of s] assms(2) by (auto simp: limits_ok_def)

theorem chat_attempts_bounded_witness:
  "ev_Attempts (event (chat sample_env sample_server)) \<le> 3 \<and>
    int (length (sent_log (chat sample_env sample_server))) \<le> 2 * ev_Attempts (event (chat sample_env sample_server))"
  using chat_attempts_bounded [OF sample_env_quiet(1), of sample_server] sample_config_ok
  by (simp add: sample_server_def New_def)

text \<open>
  C3. If no breaker has a recovery probe out before a request, and other goroutines leave none behind, then
  none is out after it, on every path through the handler: refusals, rate limits, transport failures, deadlines,
  broken streams, empty answers and adapter errors. A probe that stayed out would close the route forever.
\<close>

theorem chat_returns_probes:
  assumes "probes_safe env" "\<forall>q. \<not> probe (circuits s q)"
  shows "\<forall>q. \<not> probe (circuits (srv (chat env s)) q)"
  using chat_release [OF assms(1), of s] assms(2) by (simp add: no_probe_but_def)

theorem chat_returns_probes_witness: "\<forall>q. \<not> probe (circuits (srv (chat sample_env sample_server)) q)"
  using chat_returns_probes [OF sample_env_quiet(3), of sample_server] sample_no_probe
  by (simp add: no_probe_but_def)



text \<open>
  C5. The routing loop always ends: it is a total function, and its result depends only on the first
  \<open>2 * length routes\<close> turns. A route is repeated once at most, after a rate limit with a stated wait.
\<close>

theorem route_loop_ends:
  assumes "\<forall>j < 2 * length routes. t j = turns env j" "retriedRoute st = []"
  shows "route_loop (env\<lparr>turns := t\<rparr>) c skip routes 0 0 st = route_loop env c skip routes 0 0 st"
  using assms by (intro loop_turns) (simp add: turns_left_def)

theorem route_loop_ends_witness:
  "route_loop (sample_env\<lparr>turns := (\<lambda>k. if k < 4 then sample_turn else sample_turn\<lparr>client_gone := True\<rparr>)\<rparr>) sample_chat []
     (Routes sample_policy) 0 0 (chat_init sample_env sample_server) =
   route_loop sample_env sample_chat [] (Routes sample_policy) 0 0 (chat_init sample_env sample_server)"
  by (rule route_loop_ends) (simp_all add: sample_policy_def sample_env_def chat_init_def case_prod_unfold Let_def)



text \<open>
  C7. A request whose idempotency key has an unexpired entry contacts no provider. If it is admitted and
  well formed it is answered from the entry: the stored response when the entry is done, 409 when it is running
  or unknown, 422 when it was made for another body.
\<close>

theorem settled_key_not_sent:
  assumes "Idem s = Some i" "idem_key env \<noteq> []"
    and "idem_read (sha (world_of env)) (route_at env) (idem_key env) i = Some e"
  shows "sent_log (chat env s) = [] \<and>
    (\<forall>st c. chat_admit env (chat_init env s) = Inr st \<and> \<not> req_unreadable env \<and> length (req_bytes env) \<le> 2 ^ 20 \<and>
       ParseChat (req_bytes env) = Inr c \<longrightarrow> client_log (chat env s) = entry_answer env e)"
  using chat_repeat [OF assms] by blast

theorem settled_key_not_sent_witness:
  "let e = sample_entry; i = sample_idem\<lparr>idem_dir := [(idem_path (take 32) ''key'', \<lparr>content = json_print (idem_json e), mtime = 0\<rparr>)]\<rparr>;
       s = sample_server\<lparr>Idem := Some i\<rparr>
   in sent_log (chat sample_env s) = []"
proof -
  let ?i = "sample_idem\<lparr>idem_dir := [(idem_path (take 32) ''key'', \<lparr>content = json_print (idem_json sample_entry), mtime = 0\<rparr>)]\<rparr>"
  have "idem_read (take 32) (21 * second) ''key'' ?i = Some sample_entry"
    using idem_roundtrip [OF sample_entry_ok]
    by (simp add: idem_read_def sample_idem_def) (simp add: sample_entry_def time_sub_def from_unix_def second_def min_int64_def max_int64_def)
  then show ?thesis
    using settled_key_not_sent [of "sample_server\<lparr>Idem := Some ?i\<rparr>" ?i sample_env sample_entry]
    by (simp add: Let_def sample_env_def sample_world_def)
qed

text \<open>
  C8. A request is admitted only while fewer than \<open>concurrency\<close> slots are taken, and whatever happens to it
  the number of slots taken is the same after it as before.
\<close>

theorem chat_slot_returned:
  assumes "\<forall>k x. slots (turn_others (turns env k) x) = slots x \<and> slots (answer_others (turns env k) x) = slots x"
  shows "slots (srv (chat env s)) = slots s \<and>
    (\<forall>st. chat_admit env (chat_init env s) = Inr st \<longrightarrow> slots s < Concurrency (C s) \<and> slots (srv st) = slots s + 1)"
  using chat_slots [of env s] assms admit_slot [where env = env and st = "chat_init env s"]
  by (auto simp: init_srv split: sum.splits)

theorem chat_slot_returned_witness: "slots (srv (chat sample_env sample_server)) = 0"
  using chat_slot_returned [of sample_env sample_server] by (simp add: sample_defs)

section \<open>Streams\<close>

text \<open>
  C9. The three ends of a relayed stream. When it succeeds, the client has been sent a row of chunks and then
  the end mark, once, and the recorded completion is the concatenation of the chunks' text. When it is reported
  empty, so that the handler may fail over, the client has been sent nothing at all.
\<close>

theorem stream_ends:
  "case stream env res m cl of
     (StreamOK, s) \<Rightarrow> \<exists>ws. client s = cl @ map WChunk ws @ [WDone] \<and> out_text s = concat (map chunk_text ws)
   | (StreamEmpty, s) \<Rightarrow> client s = cl \<and> out_text s = []
   | (StreamBroken, s) \<Rightarrow> True"
proof -
  have "\<exists>ws. client s = cl @ map WChunk ws @ [WDone] \<and> out_text s = concat (map chunk_text ws)"
    if "stream env res m cl = (StreamOK, s)" for s
    using stream_ok_relayed [OF that] by blast
  then show ?thesis
    using stream_empty_sent_nothing [of env res m cl] by (auto split: prod.split stream_end.split)
qed

text \<open>
  C10. For Gemini and Bedrock, whose last frame carries the finish reason, the stream is never reported empty:
  a final frame with no text and finish reason \<open>length\<close> returns before the terminal mark is set. The failover
  that an empty answer gets on the other providers is not reached; the client sees a broken stream.
\<close>

theorem gemini_stream_not_empty:
  assumes "Provider (env_route env) \<in> {''gemini'', ''bedrock''}"
  shows "fst (stream env res m cl) \<noteq> StreamEmpty"
  using whole_frame_never_empty [of env res m cl] assms by auto

theorem gemini_stream_not_empty_witness:
  "fst (stream \<lparr>env_route = \<lparr>Provider = ''gemini'', Model = ''m''\<rparr>, env_id = ''r'', env_created = 0, accepts = (\<lambda>_. True)\<rparr>
     \<lparr>ContentType = ''text/event-stream'', body_bytes = [], body_failed = False, body_items = []\<rparr> (\<lambda>_. 0) []) \<noteq> StreamEmpty"
  by (rule gemini_stream_not_empty) simp

section \<open>Breakers and limits\<close>

text \<open>
  C11. The breaker refines its specification. The specification keeps the whole list of results since the last
  recovery and opens for 15 seconds on three failures in a row or eight among the last twenty; the code keeps a
  counter and a 32-bit window. Both give the same answers to every sequence of calls.
\<close>

theorem circuit_refines_history:
  "circuit_answers cs new_circuit = breaker_answers cs \<lparr>hist = [], open_until = None, probing = False\<rparr>"
  by (rule answers_represent [OF represents_new])

text \<open>
  C12. The wait read from a Retry-After header is never above five minutes, and for a number of seconds within
  the range where the product does not overflow it is that number, clamped. One second beyond that range the
  product wraps around and the wait is negative, which the callers take for no wait.
\<close>

theorem retry_after_clamped:
  "retryAfter pt now h \<le> maxCooldown \<and>
   (\<forall>n. atoi (trim_space h) = Some n \<and> 0 < n \<and> n \<le> 9223372036 \<longrightarrow> retryAfter pt now h = min (n * second) maxCooldown) \<and>
   retryAfter pt now ''9223372037'' < 0"
  using retryAfter_le retryAfter_seconds retryAfter_overflow by blast

theorem retry_after_clamped_witness: "retryAfter (\<lambda>_. None) 0 '' 7 '' = 7 * second"
proof -
  have "atoi (trim_space '' 7 '') = Some 7" by code_simp
  then show ?thesis
    using retry_after_clamped [of "\<lambda>_. None" 0 "'' 7 ''"] by (simp add: maxCooldown_def minute_def second_def)
qed



section \<open>The routing policy\<close>

text \<open>
  C14. What is accepted as a policy was signed: its canonical text verifies under a trusted key, its tenant is the
  gateway's own, its version, life time and routes obey every constraint, it was not issued more than a minute
  ahead of the clock, and unless an expired one is allowed it has not expired.
\<close>

theorem policy_was_signed:
  assumes "verify vf s doc now allowExpired = Inr p"
  shows "(\<exists>kid key sig. Keys s kid = Some key \<and> vf key (signed_text kid (Canonical p)) sig) \<and>
    policy_ok (store_Tenant s) p \<and> IssuedAt p \<le> unix now + 60 \<and> (allowExpired \<or> unix now < ExpiresAt p)"
  using verify_sound [OF assms] by (simp add: authentic_def)

theorem policy_was_signed_witness:
  "(\<exists>kid key (sig :: bytes). Keys sample_store kid = Some key \<and> length sig = 64) \<and> policy_ok ''acme'' sample_policy"
  using policy_was_signed [OF sample_verified] by (auto simp: sample_store_def)

text \<open>
  C15. No good policy is refused: an envelope over the canonical text of a policy that obeys the constraints,
  signed under a trusted key and of at most 65536 bytes, is accepted as that policy.
\<close>

theorem signed_policy_accepted:
  assumes "Keys s kid = Some key" "identifier_matches kid" "vf key (signed_text kid (Canonical p)) sig"
    and "policy_ok (store_Tenant s) p" "int64_ok (ExpiresAt p)" "IssuedAt p \<le> unix now + 60" "allowExpired \<or> unix now < ExpiresAt p"
    and "length (envelope_text kid (Canonical p) sig) \<le> 65536"
  shows "verify vf s (envelope_text kid (Canonical p) sig) now allowExpired = Inr p"
  using assms by (rule verify_complete)

theorem signed_policy_accepted_witness:
  "verify (\<lambda>key msg sig. length sig = 64) sample_store sample_envelope (20 * second) False = Inr sample_policy"
  unfolding sample_envelope_def
  by (rule signed_policy_accepted [where key = "replicate 32 CHR ''x''"])
    (use sample_policy_good sample_names sample_envelope_short in \<open>simp_all add: sample_store_def unix_def second_def sample_policy_def
       int64_ok_def min_int64_def max_int64_def sample_envelope_def\<close>)

text \<open>
  C16. The strict decoder inverts the canonical text of a policy with ASCII names; so two policies with the same
  canonical text are the same policy, and comparing texts, as the store does for equal versions, is comparing
  policies.
\<close>

theorem canonical_round_trip:
  assumes "policy_plain p"
  shows "strictJSON Policy_field empty_Policy (Canonical p) = Some p \<and>
    (\<forall>q. policy_plain q \<and> Canonical q = Canonical p \<longrightarrow> q = p)"
  using Canonical_decodes [OF assms] Canonical_inj [OF _ assms] by blast

theorem canonical_round_trip_witness: "strictJSON Policy_field empty_Policy (Canonical sample_policy) = Some sample_policy"
  using canonical_round_trip [OF sample_policy_plain] by blast

text \<open>
  C17. However many rounds the sync loop makes, whatever the control plane answers and however the file writes end, the
  policy in use never goes back to a lower version, never changes under the same version, and stays one that was
  signed and obeys the constraints; the trusted keys and the tenant do not change.
\<close>

theorem sync_only_advances:
  assumes "s' = Sync w first rounds s"
  shows "(\<forall>c. current (Policies s) = Some c \<longrightarrow>
        (\<exists>p. current (Policies s') = Some p \<and> (p = c \<or> Version c < Version p))) \<and>
    same_trust (Policies s) (Policies s') \<and> (store_ok (ed w) (Policies s) \<longrightarrow> store_ok (ed w) (Policies s'))"
  using assms steps_keep [OF Sync_steps [where w = w and s = s and first = first and rounds = rounds]] by (simp add: advances_def)

theorem sync_only_advances_witness:
  "\<exists>p. current (Policies (Sync sample_world (20 * second, Answered 200 ''junk'' True, all_ok, ''t'', 20 * second, Unreached) [] sample_server)) = Some p \<and>
     (p = sample_policy \<or> 7 < Version p)"
  using sync_only_advances [of _ sample_world "(20 * second, Answered 200 ''junk'' True, all_ok, ''t'', 20 * second, Unreached)" "[]" sample_server, OF refl]
  by (auto simp: sample_server_def sample_store_def New_def) (auto simp: sample_policy_def)

text \<open>
  C18. A policy that was applied and persisted survives a restart: the file holds the accepted document, and a
  store with the same keys and tenant that restores it at any later time, even after the policy expired, takes up
  the same policy.
\<close>

theorem applied_policy_restored:
  assumes "Apply vf now io tmp doc True s fs = (None, s', fs')" "current s' \<noteq> current s" "now \<le> later" "same_trust s t"
  shows "fs' (store_Path s) = Some doc \<and> current (snd (Restore vf later doc t)) = current s'"
  using applied_restores [OF assms] by blast

theorem applied_policy_restored_witness:
  "let s = sample_store\<lparr>current := None\<rparr>; later = 2000000 * second;
       (r, s', fs') = Apply (\<lambda>key msg sig. length sig = 64) (20 * second) all_ok ''t'' sample_envelope True s (\<lambda>_. None)
   in fs' ''/data/policy.json'' = Some sample_envelope \<and>
      current (snd (Restore (\<lambda>key msg sig. length sig = 64) later sample_envelope s)) = Some sample_policy"
proof -
  let ?s = "sample_store\<lparr>current := None\<rparr>" and ?ed = "\<lambda>key msg sig. length sig = (64 :: nat)"
  have v: "verify ?ed ?s sample_envelope (20 * second) False = Inr sample_policy"
    using sample_verified unfolding verify_iff by simp
  obtain s' fs' where a: "Apply ?ed (20 * second) all_ok ''t'' sample_envelope True ?s (\<lambda>_. None) = (None, s', fs')"
      "current s' = Some sample_policy"
    using sample_envelope_short
    by (auto simp: Apply_def Verify_def v atomicFile_def all_ok_def Let_def)
  then show ?thesis
    using applied_policy_restored [OF a(1), of "2000000 * second" ?s]
    by (simp add: same_trust_def second_def sample_store_def)
qed

text \<open>
  C19. Every state the directory goes through during an atomic write has the old content of the target or the
  whole of the new one, and no other file but the temporary one changes; success means the new content is there.
\<close>

theorem atomic_write:
  assumes "tmp \<noteq> path" "atomicFile io tmp path b fs = (ok, fss)"
  shows "(\<forall>fs' \<in> set fss. (fs' path = fs path \<or> fs' path = Some b) \<and> (\<forall>f. f \<noteq> tmp \<and> f \<noteq> path \<longrightarrow> fs' f = fs f)) \<and>
    (ok \<longrightarrow> last fss path = Some b)"
  using atomicFile_atomic [OF assms] atomicFile_others [OF assms(2)] atomicFile_done [of io tmp path b fs fss] assms(2) by auto

theorem atomic_write_witness:
  "last (snd (atomicFile all_ok ''t'' ''p'' ''new'' [''p'' \<mapsto> ''old''])) ''p'' = Some ''new''"
  using atomic_write [of "''t''" "''p''" all_ok "''new''" "[''p'' \<mapsto> ''old'']" True "snd (atomicFile all_ok ''t'' ''p'' ''new'' [''p'' \<mapsto> ''old''])"]
  by (simp add: atomicFile_def all_ok_def Let_def)

section \<open>Events, metrics and logs\<close>

text \<open>
  C20. No event is lost silently. In every interleaving of the requests that emit events, the worker that spools
  them, the delivery passes, the exporters and the shutdown, whatever the disk and the control plane do: the events that
  are neither waiting, nor in the spool, nor acknowledged by an answer of the control plane are at most as many as the
  counter of dropped events says. Identifiers are fresh and their events print as UTF-8.
\<close>

theorem events_accounted:
  assumes "steps (pipe_step getenv c replies) as (Telemetry_Start (NewTelemetry d m)) s"
    and "0 \<le> m Dropped" "list_all event_ok (emitted s)"
  shows "int (card {e \<in> set (emitted s). e \<notin> set (waiting s) \<and> map_of (spool (tele s)) (event_file e) = None \<and>
      \<not> acked replies (tele s) (ID e)}) \<le> snd (pipe_tel s) Dropped"
  using pipe.reached [OF NewTelemetry_starts [where m = m and d = d, OF assms(2)] assms(1)] assms(3)
  by (simp add: pipe_inv_def accounted_def missing_def)

theorem events_accounted_witness:
  "\<exists>s. emitted s = [sample_event] \<and> int (card {e \<in> set (emitted s). e \<notin> set (waiting s) \<and>
      map_of (spool (tele s)) (event_file e) = None \<and> \<not> acked (\<lambda>_. Unreached) (tele s) (ID e)}) \<le> snd (pipe_tel s) Dropped"
proof -
  obtain s where s: "steps (pipe_step (\<lambda>_. []) sample_sink (\<lambda>_. Unreached)) [EmitOp sample_event, CancelOp, DrainOp]
      (Telemetry_Start (NewTelemetry [] (\<lambda>_. 0))) s" "emitted s = [sample_event]"
    by (rule sample_history)
  then show ?thesis using events_accounted [OF s(1)] sample_event_ok by auto
qed





text \<open>
  C23. The two expositions of a histogram agree. Whatever was observed, for every route of the table: the counts of the
  OTLP data point are not negative, their running totals are the values of the bucket lines of \<open>/metrics\<close>, their total is
  the count both show, and the sums are written alike; the same for each kind of token that was counted. The
  rows of \<open>/metrics\<close> are the routes of the table, each once.
\<close>

theorem expositions_agree:
  "(\<forall>(k, r) \<in> set (table_rows (observed obs)).
      same_dist ''gen_ai_server_request_duration_seconds'' (routeKey_labels True k) (map seconds_text latencyBounds)
        (duration_point now start (k, r)) (duration_lines k r) \<and>
      list_all2 (\<lambda>point kd.
        same_dist ''gen_ai_client_token_usage'' (routeKey_labels False k @ [(''gen_ai_token_type'', fst kd)]) (map itoa tokenBounds)
          point (token_lines k kd)) (token_points now start (k, r)) (token_kinds r)) \<and>
   set (table_rows (observed obs)) = {(k, r). Mapping.lookup (observed obs) k = Some r} \<and> distinct (map fst (table_rows (observed obs)))"
  using rows_agree [OF observed_rows] by blast

theorem expositions_agree_witness:
  "\<exists>k r. Mapping.lookup (observed [(''openai'', ''gpt'', 200, 30, no_usage)]) k = Some r \<and>
     same_dist ''gen_ai_server_request_duration_seconds'' (routeKey_labels True k) (map seconds_text latencyBounds)
       (duration_point ''1'' ''0'' (k, r)) (duration_lines k r)"
proof -
  obtain k r where "Mapping.lookup (observed [(''openai'', ''gpt'', 200, 30, no_usage)]) k = Some r"
    using sample_observed by blast
  then show ?thesis using expositions_agree [of "[(''openai'', ''gpt'', 200, 30, no_usage)]" "''1''" "''0''"] by blast
qed

text \<open>
  C24. A spool of eight events, each within the size the delivery accepts, makes one batch of 65549 bytes, above the
  65536 the control plane takes. When it is refused as too large the pass ends with every event still in the spool,
  and the next pass posts the same bytes again: delivery makes no progress.
\<close>

theorem oversize_batch_stuck:
  assumes "spool t = full_spool" "\<not> perEvent t" "listable env" "\<forall>n. readable env n" "\<forall>k. \<not> cancelled env k"
    and "\<forall>k. reply_to env k = Answered 413 ack ok"
  shows "list_all (\<lambda>(n, f). length (content f) \<le> 8192) (spool t) \<and>
    (\<exists>b. length b = 65549 \<and>
      (deliver env ^^ k) (t, m) = (t\<lparr>posts := posts t @ replicate k (''/v1/telemetry/batch'', b)\<rparr>, Add ExportErrors (int k) m))"
proof (intro conjI exI [of _ "batch_body (map spooled_of full_spool)"])
  show "list_all (\<lambda>(n, f). length (content f) \<le> 8192) (spool t)" by (simp add: assms(1) full_spool_def padded_length)
  show "(deliver env ^^ k) (t, m) =
      (t\<lparr>posts := posts t @ replicate k (''/v1/telemetry/batch'', batch_body (map spooled_of full_spool))\<rparr>, Add ExportErrors (int k) m)"
    using assms
  proof (induction k)
    case (Suc k)
    then show ?case
      by (simp add: full_spool_stuck [where ack = ack and ok = ok] replicate_append_same Add_def fun_eq_iff)
  qed simp
qed (rule full_batch_length)

theorem oversize_batch_stuck_witness:
  "\<exists>b. length b = 65549 \<and>
     fst ((deliver \<lparr>listable = True, reply_to = (\<lambda>_. Answered 413 [] True), removable = (\<lambda>_. True), readable = (\<lambda>_. True), cancelled = (\<lambda>_. False)\<rparr> ^^ 2)
       (NewTelemetry full_spool (\<lambda>_. 0))) = fst (NewTelemetry full_spool (\<lambda>_. 0))\<lparr>posts := replicate 2 (''/v1/telemetry/batch'', b)\<rparr>"
  using oversize_batch_stuck [of "fst (NewTelemetry full_spool (\<lambda>_. 0))"
      "\<lparr>listable = True, reply_to = (\<lambda>_. Answered 413 [] True), removable = (\<lambda>_. True), readable = (\<lambda>_. True), cancelled = (\<lambda>_. False)\<rparr>"
      "[]" True 2 "snd (NewTelemetry full_spool (\<lambda>_. 0))"]
  by (auto simp: NewTelemetry_def)

text \<open>
  C25. In every interleaving of writers, the drain goroutine and \<open>Close\<close>: each call of \<open>Write\<close> is in progress,
  queued, in the hand of the drain goroutine, written, counted as dropped, or has panicked; what was queued is what the
  driver was given, in that order, followed by what is still to come; at most 1024 records are queued, and when the
  drain is over nothing is pending.
\<close>

theorem log_accounts:
  assumes "log_run as NewAsyncLogWriter w"
  shows "log_calls w = length (log_checked w) + length (log_pending w) + length (log_out w) + log_Dropped w + length (log_panics w) \<and>
    (\<exists>given. log_sent w = given @ log_pending w \<and> subseq (log_out w) given \<and> length given = length (log_out w) + length (log_failed w)) \<and>
    length (log_queue w) \<le> 1024 \<and> (log_drained w \<longrightarrow> log_pending w = [])"
  using log.reached [OF refl assms]
  by (simp add: log_inv_def log_balanced_def log_ordered_def log_flags_def log_capacity_def)

theorem log_accounts_witness:
  "\<exists>w. log_run [WriteCheck ''a'', WriteSend ''a'', Receive, Output True] NewAsyncLogWriter w \<and> log_out w = [''a''] \<and>
     log_calls w = length (log_checked w) + length (log_pending w) + length (log_out w) + log_Dropped w + length (log_panics w)"
proof -
  obtain w where w: "log_run [WriteCheck ''a'', WriteSend ''a'', Receive, Output True] NewAsyncLogWriter w" "log_out w = [''a'']"
    by (simp add: log_step_simps log_ops NewAsyncLogWriter_def log_capacity_def)
  then show ?thesis using log_accounts [OF w(1)] by blast
qed

text \<open>
  C26. A defect of the log writer: a call of \<open>Write\<close> that has found the writer open, and sends after \<open>Close\<close> has closed
  the channel, panics with its record and is not counted as dropped. This is the only way: after a moment at which the
  writer is closed and no call is between its check and its send, no call panics.
\<close>

theorem log_write_can_panic:
  "(\<exists>w. log_run [WriteCheck b, CloseSwap, CloseChannel, WriteSend b] NewAsyncLogWriter w \<and> log_panics w = [b] \<and> log_Dropped w = 0) \<and>
   (\<forall>w as w'. log_closed w \<and> log_checked w = [] \<and> log_run as w w' \<longrightarrow> log_panics w' = log_panics w)"
  using late_write_panics [of b] quiet.kept_along by (auto simp: late_write_def log_quiet_def)

theorem log_write_can_panic_witness:
  "\<exists>w. log_run [WriteCheck ''a''] (log_close_channel (log_close_swap NewAsyncLogWriter)) w \<and> log_Dropped w = 1 \<and> log_panics w = []"
proof -
  let ?c = "log_close_channel (log_close_swap NewAsyncLogWriter)"
  have c: "log_closed ?c \<and> log_checked ?c = []" "log_panics ?c = []" by (simp_all add: log_ops NewAsyncLogWriter_def)
  obtain w where w: "log_run [WriteCheck ''a''] ?c w" "log_Dropped w = 1"
    by (simp add: log_step_simps log_ops NewAsyncLogWriter_def)
  then show ?thesis using conjunct2 [OF log_write_can_panic [of "[]"]] c by metis
qed

section \<open>The stores\<close>



text \<open>
  C28. The one way to two holders: the sweep scans the directory without the mutex and removes by name. If a key
  is claimed afresh between the scan and the removal, the removal deletes the live claim, and the next request
  with the key is granted it while the first is still running.
\<close>

theorem sweep_can_drop_claim:
  assumes "v \<in> set (idem_scan now s)" "fst v = idem_path digest key"
    and "idem_begin digest Wrote t1 key body (s, m) = (Inr None, s1, m1)"
    and "idem_used (idem_sweep_one v s1) + int (length (json_print (idem_json (running_entry digest t2 body2)))) \<le> idem_limit s1"
  shows "fst (idem_begin digest Wrote t2 key body2 (idem_sweep_one v s1, m1)) = Inr None"
  using assms by (rule sweep_race)

theorem sweep_can_drop_claim_witness:
  "let s = sample_idem\<lparr>idem_ttl := second, idem_dir := [(idem_path (take 32) ''k'', \<lparr>content = ''x'', mtime = 0\<rparr>)], idem_used := 1\<rparr>;
       v = (idem_path (take 32) ''k'', 1); now = 9 * second;
       (r1, s1, m1) = idem_begin (take 32) Wrote now ''k'' ''b'' (s, \<lambda>_. 0)
   in r1 = Inr None \<and> fst (idem_begin (take 32) Wrote now ''k'' ''c'' (idem_sweep_one v s1, m1)) = Inr None"
proof -
  let ?p = "idem_path (take 32) ''k''" and ?now = "9 * second"
  let ?s = "sample_idem\<lparr>idem_ttl := second, idem_dir := [(?p, \<lparr>content = ''x'', mtime = 0\<rparr>)], idem_used := 1\<rparr>"
  have scan: "(?p, 1) \<in> set (idem_scan ?now ?s)"
    by (simp add: idem_scan_def sweep_scan_def ReadDir_def expired_file_def time_sub_def size_of_def idemSweepPerPass_def
        second_def min_int64_def max_int64_def)
  have junk: "idem_unmarshal ''x'' = None" by code_simp
  have len: "length (json_print (idem_json (running_entry (take 32) ?now ''b''))) \<le> 400"
    "length (json_print (idem_json (running_entry (take 32) ?now ''c''))) \<le> 400"
    by code_simp+
  obtain s1 m1 where b: "idem_begin (take 32) Wrote ?now ''k'' ''b'' (?s, \<lambda>_. 0) = (Inr None, s1, m1)"
      "idem_used s1 \<le> 400" "idem_limit s1 = 1048576"
    using len(1) junk
    by (simp add: idem_begin_def idem_read_def idem_write_def sample_idem_def WriteFile_def running_entry_def size_of_def Let_def)
  have "idem_used (idem_sweep_one (?p, 1) s1) \<le> 400"
    using b(2) by (auto simp: idem_sweep_one_def)
  then show ?thesis
    using sweep_can_drop_claim [OF scan _ b(1), of ?now "''c''"] len(2) b by (simp add: Let_def)
qed





section \<open>Start, routes and configuration\<close>

text \<open>
  C31. What holds of every gateway that starts to serve: its configuration was validated, it holds the lock of its data
  directory, a policy in the store was signed under a trusted key and obeys the constraints, without a cached policy there
  is a control plane to fetch one from, the trusted keys are the configured ones with 32 bytes each, a metered
  product was registered with AWS for its product code and key version, and the stores and background tasks
  that exist are those with a positive time to live, and the sync task exactly with a control plane.
\<close>

theorem started_sound:
  assumes "boot b = Inr (s, tasks)"
  shows "Config_Validate (boot_host b) (C s) = None \<and> lock_taken b \<and>
    store_ok (boot_ed b) (Policies s) \<and> (current (Policies s) = None \<longrightarrow> policy_file b = Absent \<and> ControlURL (C s) \<noteq> []) \<and>
    (\<forall>k key. Keys (Policies s) k = Some key \<longrightarrow>
       length key = 32 \<and> (\<exists>v. (k, v) \<in> set (TrustedKeys (C s)) \<and> b64_strict v = Some key)) \<and>
    (\<forall>mp. Marketplace (C s) = Some mp \<longrightarrow>
       (\<exists>n. usage_api b \<lparr>usage_product = ProductCode mp, usage_key_version = PublicKeyVersion mp, usage_nonce = hex_encode n\<rparr> = Registered)) \<and>
    (Idem s \<noteq> None \<longleftrightarrow> IdempotencyTTLSeconds (C s) > 0) \<and> (IdemSweepTask \<in> set tasks \<longleftrightarrow> Idem s \<noteq> None) \<and>
    (Captures s \<noteq> None \<longleftrightarrow> CaptureTTLSeconds (C s) > 0) \<and> (CaptureSweepTask \<in> set tasks \<longleftrightarrow> Captures s \<noteq> None) \<and>
    (SyncTask \<in> set tasks \<longleftrightarrow> ControlURL (C s) \<noteq> [])"
proof -
  obtain c ps d idem cap where p: "boot_config b = Inr c" "lock_taken b" "boot_policy b c = Inr ps" "boot_marketplace b c = None"
      "boot_idem b c = Inr idem" "boot_capture b c = Inr cap" "tasks = boot_tasks c"
      "s = New c ps (files_at b) (snd (NewTelemetry d (\<lambda>_. 0))) (Some (fst (NewTelemetry d (\<lambda>_. 0)))) idem cap
         (randomID (instance_bytes b)) (boot_now b)"
    using boot_parts [OF assms] by metis
  have s: "C s = c" "Policies s = ps" "Idem s = idem" "Captures s = cap" by (simp_all add: p(8) New_def)
  have v: "Config_Validate (boot_host b) c = None" using p(1) LoadConfig_valid by (simp add: boot_config_ok)
  have "current ps = None \<longrightarrow> policy_file b = Absent \<and> ControlURL c \<noteq> []"
    by (rule boot_policy_none [OF p(3)])
  then show ?thesis
    unfolding s p(7) boot_tasks_set boot_stores(1) [OF p(5)] boot_stores(2) [OF p(6)]
    using v p(2) boot_policy_store [OF p(3)] boot_policy_ok(1) [OF p(3)] Config_Store_keys [OF v] boot_marketplace_ok [OF p(4)]
    by auto
qed

theorem started_sound_witness:
  "\<exists>s tasks. boot sample_boot = Inr (s, tasks) \<and> current (Policies s) = Some sample_policy \<and>
     store_ok (boot_ed sample_boot) (Policies s) \<and> Idem s \<noteq> None \<and> SyncTask \<in> set tasks"
proof -
  obtain s tasks where s: "boot sample_boot = Inr (s, tasks)" "C s = sample_config" "current (Policies s) = Some sample_policy"
    by (rule sample_boots)
  show ?thesis using started_sound [OF s(1)] s by (intro exI [of _ s] exI [of _ tasks]) (simp add: sample_config_def)
qed

text \<open>
  C32. A caller without the local token gets nothing from the gateway but liveness, readiness and the metrics: the
  chat route answers 401 and contacts no provider, the runtime and profiler routes answer 401, every other answer is the
  mux's own, and what the profiler would show has no influence on the answer.
\<close>

theorem token_guards:
  assumes "\<not> authorized (world_of (rq_chat rq)) (auth_header (rq_chat rq)) s"
  shows "(case fst (serve profile l rq s) of
        Answered_mux r \<Rightarrow> True
      | Answered_chat ws \<Rightarrow> ws = [WProblem 401 (Plain ''unauthorized'')]
      | Answered_whole a \<Rightarrow> a = problem_answer 401 ''unauthorized'' \<or> rq_path rq \<in> {''/healthz'', ''/readyz'', ''/metrics''}) \<and>
    sent_log (chat (rq_chat rq) s) = [] \<and> serve profile l rq s = serve profile' l rq s"
  using serve_unauthorized [OF assms, of profile l] unauthorized_chat(2) [OF assms] serve_profile [of rq s profile l profile'] assms
  by blast

theorem token_guards_witness:
  "fst (serve (\<lambda>_. empty_answer_of 200) None (sample_request ''POST'' ''/v1/chat/completions'' (sample_env\<lparr>auth_header := []\<rparr>)) sample_server) =
     Answered_chat [WProblem 401 (Plain ''unauthorized'')]"
proof -
  let ?rq = "sample_request ''POST'' ''/v1/chat/completions'' (sample_env\<lparr>auth_header := []\<rparr>)"
  have a: "\<not> authorized (world_of (rq_chat ?rq)) (auth_header (rq_chat ?rq)) sample_server"
    by (simp add: authorized_def sample_request_def sample_defs)
  have "fst (serve (\<lambda>_. empty_answer_of 200) None ?rq sample_server) = Answered_chat (client_log (chat (rq_chat ?rq) sample_server))"
    by (simp add: serve_def route_chat sample_request_def Let_def)
  then show ?thesis using token_guards [OF a, of "\<lambda>_. empty_answer_of 200" None] by simp
qed

text \<open>
  C33. A \<open>GET /readyz\<close> leaves the gateway as it is, and the health check that asks it exits with 0 exactly
  when the gateway is not draining, its current policy has not expired and names a configured provider, and,
  where provider checks are strict, no provider is marked unhealthy.
\<close>

theorem readiness_probe:
  assumes "rq_method rq = ''GET''" "rq_path rq = ''/readyz''"
  shows "\<exists>a. serve profile l rq s = (Answered_whole a, s) \<and>
    (Healthcheck (Some (answer_status a)) = 0 \<longleftrightarrow>
      \<not> Draining s \<and>
      (\<exists>p. Current (rq_clock rq 0) (Policies s) = Some p \<and> (\<exists>r \<in> set (Routes p). map_of (Providers (C s)) (Provider r) \<noteq> None)) \<and>
      (ProviderCheckStrict (C s) \<longrightarrow> unhealthy s = []))"
  unfolding serve_readyz_request [OF assms]
  by (auto simp: Healthcheck_def serve_readyz_status readyz_iff ready_iff)

theorem readiness_probe_witness:
  "\<exists>a. serve (\<lambda>_. empty_answer_of 200) None (sample_request ''GET'' ''/readyz'' sample_env) sample_server =
       (Answered_whole a, sample_server) \<and> Healthcheck (Some (answer_status a)) = 0"
  using readiness_probe [of "sample_request ''GET'' ''/readyz'' sample_env" "\<lambda>_. empty_answer_of 200" None sample_server]
  by (auto simp: sample_request_def sample_defs Current_def unix_def second_def)



text \<open>
  C35. A file that loads as a configuration is a JSON object all of whose keys are known (compared as Go compares
  them, ignoring case), so a misspelt key is an error and not a default; and what stores content, stores answers or exposes the
  profiler is on only if the file has its key.
\<close>

theorem config_asked_for:
  assumes "LoadConfig h (Some b) = Inr c"
  shows "\<exists>kvs. json_parse b = Some (JObj kvs) \<and> (\<forall>k v. (k, v) \<in> set kvs \<longrightarrow> (\<exists>n \<in> set config_names. key_is n k)) \<and>
    (CaptureTTLSeconds c > 0 \<longrightarrow> (\<exists>k v. (k, v) \<in> set kvs \<and> key_is ''capture_ttl_seconds'' k)) \<and>
    (IdempotencyTTLSeconds c > 0 \<longrightarrow> (\<exists>k v. (k, v) \<in> set kvs \<and> key_is ''idempotency_ttl_seconds'' k)) \<and>
    (EnablePprof c \<longrightarrow> (\<exists>k v. (k, v) \<in> set kvs \<and> key_is ''enable_pprof'' k))"
proof -
  obtain kvs where kvs: "json_parse b = Some (JObj kvs)" using loaded_object [OF assms] by blast
  have "\<exists>n \<in> set config_names. key_is n k" if "(k, v) \<in> set kvs" for k v
    using unknown_key_refused [OF kvs that, of h] assms by (auto simp: list_all_iff)
  then show ?thesis
    using kvs unmentioned_off [OF assms kvs] by (intro exI [of _ kvs]) (fastforce simp: list_all_iff)
qed

theorem config_asked_for_witness:
  "\<exists>kvs. json_parse (json_print sample_document) = Some (JObj kvs) \<and> (\<exists>k v. (k, v) \<in> set kvs \<and> key_is ''capture_ttl_seconds'' k)"
  using config_asked_for [OF sample_loads] by (auto simp: sample_config_def)

text \<open>
  C36. The line that the subcommand prints for a seed can be pinned as it is: as the text of a trusted key it passes
  the checks of the configuration, and the policy store built from it holds the public key that was derived from
  the seed. An Ed25519 public key has 32 bytes.
\<close>

theorem printed_key_usable:
  assumes "printPublicKey derive (Some inp) = Inr line" "\<And>seed. length (derive seed) = 32" "identifier_matches k"
  shows "\<exists>seed. length seed = 32 \<and> b64_decode False (trim_space (take 4096 inp)) = (seed, True) \<and>
    (\<forall>e \<in> set (trust_checks (k, line)). e = None) \<and>
    Keys (Config_Store (c\<lparr>TrustedKeys := [(k, line)]\<rparr>)) k = Some (derive seed)"
proof -
  obtain seed where s: "length seed = 32" "b64_strict line = Some (derive seed)" "b64_decode False (trim_space (take 4096 inp)) = (seed, True)"
    using printed_key_pins [OF assms(1,2)] by blast
  then show ?thesis
    using assms(2,3) b64_loose [OF s(2)] by (intro exI [of _ seed]) (simp add: trust_checks_def check_def Config_Store_def)
qed

theorem printed_key_usable_witness:
  "\<exists>line. printPublicKey (\<lambda>seed. take 32 (seed @ replicate 32 CHR ''0'')) (Some (b64_encode (replicate 32 CHR ''s'') @ [CHR 10])) = Inr line \<and>
     (\<forall>e \<in> set (trust_checks (''k1'', line)). e = None)"
proof -
  obtain line where l: "printPublicKey (\<lambda>seed. take 32 (seed @ replicate 32 CHR ''0''))
      (Some (b64_encode (replicate 32 CHR ''s'') @ [CHR 10])) = Inr line"
    using sample_key_printed by blast
  have len: "length (take 32 (seed @ replicate 32 CHR ''0'')) = 32" for seed :: bytes by simp
  show ?thesis using printed_key_usable [OF l len sample_names(2), of sample_config] l by blast
qed



section \<open>What is learned, requests, and load\<close>



text \<open>
  C39. What \<open>ParseChat\<close> accepts is well formed: the model is the one name the gateway serves, there are 1 to 128
  messages with known roles and content, a system message only in the first place and a user message last, and the
  token limit and the temperature are in range. For such a request the two ways the code finds the system
  message agree, and the adapters get the system text and the other messages, none lost.
\<close>

theorem accepted_chat_wellformed:
  assumes "ParseChat b = Inr c"
  shows "chat_ok c \<and> systemOf c = fst (split_system [] [] (Messages c)) \<and>
    (if Role (hd (Messages c)) = ''system'' then split_system [] [] (Messages c) = (Content (hd (Messages c)), tl (Messages c))
     else split_system [] [] (Messages c) = ([], Messages c))"
  using ParseChat_ok [OF assms] split_system_ok [of c] systemOf_ok [of c] by simp

theorem accepted_chat_wellformed_witness: "chat_ok sample_chat"
  using accepted_chat_wellformed [OF sample_parses] by blast

text \<open>
  C40. What the load generator prints is consistent: every request is counted, as a success or as a failure; the error rate
  is between 0 and 100 per cent; and the three percentiles are found without leaving the list, are measured latencies, and
  do not decrease. The sum of up to \<open>2 ^ 46\<close> requests is exact in binary64.
\<close>

theorem load_report:
  assumes "rep = lg_summary (fold stats_add rs lg_new)" "length rs \<le> 2 ^ 46"
  shows "lg_total rep = length rs \<and> lg_ok rep = length (filter (\<lambda>r. \<not> lg_err r \<and> lg_status r = 200) rs) \<and>
    lg_ok rep + lg_failures rep = length rs \<and> 0 \<le> lg_error_rate rep \<and> lg_error_rate rep \<le> 100 \<and>
    (\<exists>a b c. lg_percentiles rep = [Some a, Some b, Some c] \<and> a \<le> b \<and> b \<le> c \<and>
      (filter (\<lambda>r. \<not> lg_err r) rs \<noteq> [] \<longrightarrow> {a, b, c} \<subseteq> lg_latency ` {r \<in> set rs. \<not> lg_err r}))"
  unfolding assms(1) using report_ok [OF assms(2)] unfolding Let_def .

theorem load_report_witness:
  "lg_total (lg_summary (fold stats_add [\<lparr>lg_status = 200, lg_latency = 7, lg_frames = 0, lg_err = False\<rparr>] lg_new)) = 1"
  using load_report [OF refl, of "[\<lparr>lg_status = 200, lg_latency = 7, lg_frames = 0, lg_err = False\<rparr>]"] by simp

section \<open>Further facts of the components\<close>

text \<open>
  The event reader inverts the frame writer: on a body that is a row of frames, it calls the callback on
  exactly their payloads, in order, and stops at the first error of the callback.
\<close>

theorem frames_read_back:
  assumes "list_all frame_ok ps"
  shows "readSSE (concat (map sse_frame ps)) False fn s = feed fn ps s"
  using assms by (rule readSSE_frames)

text \<open>
  While a breaker is open or half open, any number of requests that ask before a result is reported get at
  most one yes between them: the recovery probe.
\<close>

theorem one_recovery_probe:
  assumes "until c \<noteq> None"
  shows "length (filter id (circuit_answers (map CAllow ts) c)) \<le> 1"
  using circuit.half_open_single [of c ts] assms by (simp add: circuit_answers_allow)

text \<open>
  An entry written to the store is read back as it was until it expires: the JSON text decodes to the
  entry, whatever its response, text and finish reason, and reading after the time to live finds nothing.
\<close>

theorem entry_read_back:
  assumes "entry_ok e" "idem_write digest w now key e (s, m) = (None, s', m')"
  shows "idem_read digest later key s' = (if time_sub later (from_unix (Stored e)) \<le> idem_ttl s then Some e else None)"
  using idem_write_stored [of digest w now key e s m] idem_write_frame(1) [of digest w now key e s m] assms(2) idem_roundtrip [OF assms(1)]
  by (simp add: idem_read_def)

text \<open>
  Sweeping catches up: each pass removes at most 2000 expired files, and after as many passes as that needs
  exactly the files that have not expired are left, with the account of bytes and entries exact.
\<close>

theorem sweeps_catch_up:
  assumes "idem_exact s" "expired_count (idem_ttl s) now (idem_dir s) \<le> k * 2000"
    and "cap_exact r" "expired_count (cap_ttl r) now (cap_dir r) \<le> k * 2000"
  shows "idem_dir ((idem_Sweep now ^^ k) s) = live_files (idem_ttl s) now (idem_dir s) \<and> idem_exact ((idem_Sweep now ^^ k) s) \<and>
    cap_dir ((capture_Sweep now ^^ k) r) = live_files (cap_ttl r) now (cap_dir r) \<and> cap_exact ((capture_Sweep now ^^ k) r)"
  using assms idem.sweeps_clear [where s = s and now = now and k = k]
    idem.sweeps [where s = s and now = now and k = k] capture.sweeps_clear [where s = r and now = now and k = k]
    capture.sweeps [where s = r and now = now and k = k]
  by (simp add: idem_exact_iff cap_exact_iff idem_files cap_files idemSweepPerPass_def sweepPerPass_def)

text \<open>
  The tables the gateway learns from traffic are bounded: whatever is observed and whenever, at most 256
  token budget facts, 256 models that refuse a temperature and 4096 prompt prefixes are kept.
\<close>

theorem tables_bounded:
  "Mapping.size (facts (fold (\<lambda>(t, p, m, n, ok). budget_observe t p m n ok) obs newBudgetTable)) \<le> 256 \<and>
   Mapping.size (temp_seen (fold (\<lambda>(t, p, m). temperature_observe t p m) refusals newTemperatureTable)) \<le> 256 \<and>
   Mapping.size (prefix_seen (fold (\<lambda>(t, sys) c. snd (worthCaching digest t sys c)) prompts newPrefixCache)) \<le> 4096"
  using budget_table_bounded temperature_table_bounded prefix_table_bounded by blast

text \<open>
  What the fleet says about a provider wears off: after a fleet report is taken in, a provider is passed over
  on its account for less than 45 seconds, whatever the control plane sent and however large the number.
\<close>

theorem fleet_hint_wears_off:
  assumes "fleetSyncOnce now r s = (b, s')" "fleet_unhealthy t p (fleet s')" "now + 45 * second \<le> t"
  shows "fleet_unhealthy t p (fleet s)"
  using fleetSyncOnce_hint [OF assms(1,2)] assms(3) by (simp add: fleetHintMax_def)

text \<open>
  The start-up probe withholds exactly the providers that failed it: a route whose probe fails has its breaker
  opened for the account cooldown and is listed as unhealthy; every other breaker is as it was.
\<close>

theorem probe_withholds_failed:
  assumes "distinct (map Provider (Routes p))"
  shows "circuits (probe_routes w answers [] (Routes p) s) q =
      (if \<exists>r \<in> set (Routes p). Provider r = q \<and> probe_failed w answers s r
       then circuit_cooldown (fst (answers q)) accountCooldown (circuits s q) else circuits s q) \<and>
    set (unhealthy (probe_routes w answers [] (Routes p) s)) =
      set (unhealthy s) \<union> {Provider r |r. r \<in> set (Routes p) \<and> probe_failed w answers s r}"
  using probe_routes_effect [OF assms, of "[]" w answers s q] by simp

text \<open>
  Readiness says what it means: the gateway is ready exactly when it is not draining, holds a policy that has not
  expired, and can reach a provider of one of its routes. When the expiry sample says the policy has expired, the
  gateway is not ready.
\<close>

theorem ready_means_serving:
  "(ready now s \<longleftrightarrow> \<not> Draining s \<and>
     (\<exists>p. current (Policies s) = Some p \<and> unix now < ExpiresAt p \<and> (\<exists>r \<in> set (Routes p). map_of (Providers (C s)) (Provider r) \<noteq> None))) \<and>
   (store_ExpiresAt (Policies s) \<noteq> 0 \<and> expiryState (samplePolicyExpiry now s) = ''expired'' \<longrightarrow> \<not> ready now s)"
  using ready_iff [of now s] expiry_serving [of s now] by (auto simp: Current_def split: option.splits if_splits)

text \<open>
  Whatever traceparent header a client sends, the trace identifier of its request is 32 lower-case hexadecimal
  digits, and the parent is empty or 16 of them.
\<close>

theorem trace_ids_wellformed:
  assumes "requestID new"
  shows "requestID (fst (traceIDs new h)) \<and> length (fst (traceIDs new h)) = 32 \<and>
    (snd (traceIDs new h) = [] \<or> length (snd (traceIDs new h)) = 16 \<and> lower_hex (snd (traceIDs new h)))"
  using traceIDs_wellformed [OF assms, of h] by (auto simp: requestID_def)

text \<open>
  The histogram the code keeps as cumulative counters, one per bound, and exports by differencing is the plain
  one: the exported numbers are how many observations fall between neighbouring bounds, and their sum is the
  number of observations.
\<close>

theorem histogram_exact:
  assumes "sorted bs" "bs \<noteq> []"
  shows "let d = fold (dist_observe bs) ns (new_dist bs) in
    differenced_from 0 (buckets d) (dist_count d) =
      int (length (filter (\<lambda>n. n \<le> hd bs) ns)) # between (hd bs) (tl bs) ns \<and>
    sum_list (differenced_from 0 (buckets d) (dist_count d)) = int (length ns) \<and> dist_sum d = sum_list ns"
  using differenced_first [OF assms, of ns] between_sum [of "hd bs" "tl bs" ns] filter_above [of ns "hd bs"] assms
  by (simp add: dist_observe_all Let_def)

text \<open>
  However many models clients ask for, the per-route table keeps at most 128 keys that name a model, and every
  completed request is counted once under its provider even when its model is folded away.
\<close>

theorem route_table_counts:
  assumes "table_ok t"
  shows "let t' = fst (ObserveRoute provider model status ms u (t, m)) in
    table_ok t' \<and> card (model_keys t') \<le> 128 \<and>
    (\<forall>p. provider_count p t' = provider_count p t + (if provider = p then 1 else 0))"
  using ObserveRoute_ok [OF assms, of provider model status ms u m] ObserveRoute_count [OF assms, of _ provider model status ms u m]
  by (simp add: Let_def table_ok_def routeMaxKeys_def)

text \<open>
  A delivery pass loses nothing silently: every event file that is gone after it was acknowledged by its
  identifier in one of the answers, but for as many as the dropped counter grew by; no file is added or changed;
  and the account of the spool's bytes and files stays exact.
\<close>

theorem delivery_accounts:
  "let t = fst tm; t' = fst (deliver env tm) in
    map_of (spool t') \<subseteq>\<^sub>m map_of (spool t) \<and>
    int (card {n. map_of (spool t) n \<noteq> None \<and> map_of (spool t') n = None \<and> \<not> acknowledged env t' (file_id (spool t) n)})
      \<le> snd (deliver env tm) Dropped - snd tm Dropped \<and>
    (spool_exact tm \<longrightarrow> spool_exact (deliver env tm))"
  using deliver_settles [of env tm] by (simp add: settles_def lost_def Let_def)

text \<open>
  Persisting an event keeps the spool within its bytes and within 10000 files: one that does not fit is
  counted as dropped. While the directory sync after a rename does not fail, the account stays exact.
\<close>

theorem spool_bounded:
  assumes "snd tm SpoolUsed \<le> SpoolBytes c" "snd tm SpoolCount \<le> 10000"
    and "spool_exact tm" "map_of (spool (fst tm)) (ID e @ ''.json'') = None" "rename_ok io \<longrightarrow> opendir_ok io \<and> dirsync_ok io"
  shows "dir_bytes (spool (fst (persist c io now e tm))) \<le> SpoolBytes c \<and>
    length (spool (fst (persist c io now e tm))) \<le> 10000 \<and> spool_exact (persist c io now e tm)"
  using persist_exact [OF assms(3,4), of io c now] persist_bounded [of tm c io now e] assms(1,2,5)
  by (simp add: spool_exact_def)

text \<open>
  A delivery pass posts no body above 65747 bytes: each event is at most 8192 bytes, a batch is closed at 200
  events or once it reaches 57344 bytes. The bound is above the 65536 bytes the comment on the batch size
  names.
\<close>

theorem posts_bounded:
  assumes "list_all (\<lambda>(path, body). length body \<le> 65747) (posts (fst tm))"
  shows "list_all (\<lambda>(path, body). length body \<le> 65747) (posts (fst (deliver env tm)))"
  using deliver_small [of tm env] assms by (simp add: small_posts_def)

text \<open>
  The order of a shutdown: a process that has exited was told to stop, accepts nothing, has ended its background
  tasks, and has no request under way unless the time limit cut it off.
\<close>

theorem shutdown_order:
  assumes "steps stop_step as process_start p" "exited p"
  shows "pr_draining p \<and> \<not> accepting p \<and> background_done p \<and> (cut_off p \<or> in_flight p = 0)"
  using stopping.reached [OF refl assms(1)] assms(2) by (simp add: stop_ok_def)

text \<open>
  Where both readers of a Bedrock stream accept it they agree on its text: the frames that the translation relays
  carry pieces whose concatenation is the text that \<open>decodeBedrockStream\<close> assembles.
\<close>

theorem bedrock_readers_agree:
  assumes "snd (translateBedrockStream limit items)" "decodeBedrockStream limit' items = Inr n"
  shows "\<exists>final. fst (translateBedrockStream limit items) = concat (map delta_frame (deltas items)) @ sse_frame final \<and>
    Text n = concat (deltas items)"
  using translate_deltas [OF assms(1) [unfolded translateBedrockStream_def]] decode_deltas assms(2)
  by (fastforce simp: decodeBedrockStream_def translateBedrockStream_def)

end
